(* ===== verification/Go_Strings.thy ===== *)
theory Go_Strings
  imports Prelude "HOL-Library.Sublist"
begin

text \<open>
  The part of Go's \<open>unicode/utf8\<close>, \<open>strings\<close> and \<open>strconv\<close> packages that the SDK uses, on
  byte strings: rune widths, \<open>TrimSpace\<close>, \<open>TrimRight\<close>, \<open>ToLower\<close>, \<open>Contains\<close>, \<open>Split\<close>,
  \<open>EqualFold\<close> and \<open>Atoi\<close>.  The Unicode case table is data of Go's library: functions that
  fold case take the lower-case image of a non-ASCII rune (on its encoding) as the
  argument \<open>ul\<close>.
\<close>

section \<open>Runes\<close>

definition cont_byte :: "char \<Rightarrow> bool" where
  "cont_byte = in_range 128 191"

text \<open>
  The number of bytes of the well-formed UTF-8 sequence at the front of a string, None where
  the front is no such sequence (a range loop and \<open>DecodeRune\<close> then step over one byte).
\<close>

definition utf8_width :: "string \<Rightarrow> nat option" where
  "utf8_width s = (case s of
     [] \<Rightarrow> None
   | b0 # r \<Rightarrow>
     (if byte b0 < 128 then Some 1
      else if in_range 194 223 b0 then
        (case r of b1 # _ \<Rightarrow> if cont_byte b1 then Some 2 else None | _ \<Rightarrow> None)
      else if in_range 224 239 b0 then
        (case r of
           b1 # b2 # _ \<Rightarrow>
             if in_range (if byte b0 = 224 then 160 else 128) (if byte b0 = 237 then 159 else 191) b1
                \<and> cont_byte b2
             then Some 3 else None
         | _ \<Rightarrow> None)
      else if in_range 240 244 b0 then
        (case r of
           b1 # b2 # b3 # _ \<Rightarrow>
             if in_range (if byte b0 = 240 then 144 else 128) (if byte b0 = 244 then 143 else 191) b1
                \<and> cont_byte b2 \<and> cont_byte b3
             then Some 4 else None
         | _ \<Rightarrow> None)
      else None))"

definition rune_width :: "string \<Rightarrow> nat" where
  "rune_width s = (case utf8_width s of Some n \<Rightarrow> n | None \<Rightarrow> 1)"

lemma utf8_width_bounds: "utf8_width s = Some n \<Longrightarrow> 1 \<le> n \<and> n \<le> length s"
  by (auto simp: utf8_width_def split: list.splits if_splits)

text \<open>The width of the first rune depends on that rune's bytes only.\<close>

lemma utf8_width_local:
  assumes "utf8_width s = Some n"
  shows "utf8_width (take n s @ t) = Some n"
proof -
  consider (one) b0 r where "s = b0 # r" "n = 1" "byte b0 < 128"
    | (two) b0 b1 r where "s = b0 # b1 # r" "n = 2" "in_range 194 223 b0" "cont_byte b1"
    | (three) b0 b1 b2 r where "s = b0 # b1 # b2 # r" "n = 3" "in_range 224 239 b0" "cont_byte b2"
        "in_range (if byte b0 = 224 then 160 else 128) (if byte b0 = 237 then 159 else 191) b1"
    | (four) b0 b1 b2 b3 r where "s = b0 # b1 # b2 # b3 # r" "n = 4" "in_range 240 244 b0"
        "cont_byte b2" "cont_byte b3"
        "in_range (if byte b0 = 240 then 144 else 128) (if byte b0 = 244 then 143 else 191) b1"
    using assms unfolding utf8_width_def
    by (simp split: list.splits if_split_asm split del: if_split)
  then show ?thesis
  proof cases
    case one then show ?thesis by (simp add: utf8_width_def)
  next
    case two
    then have "\<not> byte b0 < 128" by (simp add: in_range_def)
    with two show ?thesis by (simp add: utf8_width_def)
  next
    case three
    then have "\<not> byte b0 < 128" "\<not> in_range 194 223 b0" by (simp_all add: in_range_def)
    with three show ?thesis by (simp add: utf8_width_def numeral_3_eq_3 split del: if_split)
  next
    case four
    then have "\<not> byte b0 < 128" "\<not> in_range 194 223 b0" "\<not> in_range 224 239 b0"
      by (simp_all add: in_range_def)
    with four show ?thesis by (simp add: utf8_width_def split del: if_split)
  qed
qed

lemma utf8_width_take: "utf8_width s = Some n \<Longrightarrow> n \<le> m \<Longrightarrow> utf8_width (take m s) = Some n"
  using utf8_width_local [of s n "drop n (take m s)"] append_take_drop_id [of n "take m s"]
  by (simp add: min_def)

lemma utf8_width_append: "utf8_width s = Some n \<Longrightarrow> utf8_width (s @ t) = Some n"
  using utf8_width_local [of s n "drop n s @ t"] by (simp flip: append_assoc)

lemma utf8_width_le4: "utf8_width s = Some n \<Longrightarrow> n \<le> 4"
  by (auto simp: utf8_width_def split: list.splits if_splits)

lemma rune_width_pos [simp]: "0 < rune_width s"
  by (auto simp: rune_width_def split: option.splits dest: utf8_width_bounds)

lemma rune_width_le: "s \<noteq> [] \<Longrightarrow> rune_width s \<le> length s"
  by (cases s) (auto simp: rune_width_def split: option.splits dest: utf8_width_bounds)

lemma drop_rune_shorter [simp]: "s \<noteq> [] \<Longrightarrow> length (drop (rune_width s) s) < length s"
  by (rule drop_pos_shorter) auto

lemma rune_width_ascii: "byte c < 128 \<Longrightarrow> rune_width (c # s) = 1"
  by (simp add: rune_width_def utf8_width_def)

text \<open>The offsets at which a rune of the text begins, and its end: where \<open>range\<close> stops.\<close>

function rune_start :: "string \<Rightarrow> nat \<Rightarrow> bool" where
  "rune_start s k =
     (if k = 0 then True
      else if s = [] \<or> k < rune_width s then False
      else rune_start (drop (rune_width s) s) (k - rune_width s))"
  by pat_completeness auto
termination
  by (relation "measure (\<lambda>(s, k). length s)") auto

declare rune_start.simps [simp del]

lemma rune_start_0 [simp]: "rune_start s 0"
  by (simp add: rune_start.simps)

lemma rune_start_later:
  "k \<noteq> 0 \<Longrightarrow> rune_start s k \<longleftrightarrow>
     s \<noteq> [] \<and> rune_width s \<le> k \<and> rune_start (drop (rune_width s) s) (k - rune_width s)"
  by (subst rune_start.simps) auto

lemma rune_start_le: "rune_start s k \<Longrightarrow> k \<le> length s"
proof (induction s k rule: rune_start.induct)
  case (1 s k)
  show ?case
  proof (cases "k = 0")
    case False
    then have s: "s \<noteq> []" "rune_width s \<le> k" "rune_start (drop (rune_width s) s) (k - rune_width s)"
      using "1.prems" rune_start_later by blast+
    then have "k - rune_width s \<le> length (drop (rune_width s) s)" using "1.IH" False by simp
    then show ?thesis using s(2) rune_width_le [OF s(1)] by simp
  qed simp
qed

lemma rune_start_add: "rune_start s i \<Longrightarrow> rune_start s (i + k) \<longleftrightarrow> rune_start (drop i s) k"
proof (induction s i rule: rune_start.induct)
  case (1 s i)
  show ?case
  proof (cases "i = 0")
    case False
    let ?w = "rune_width s"
    have s: "s \<noteq> []" "?w \<le> i" "rune_start (drop ?w s) (i - ?w)"
      using False "1.prems" rune_start_later by blast+
    then have "rune_start (drop ?w s) (i - ?w + k) \<longleftrightarrow> rune_start (drop i s) k"
      using "1.IH" False by simp
    with s False show ?thesis by (simp add: rune_start_later)
  qed simp
qed

text \<open>From a start the next one is a rune further, and there is none in between.\<close>

lemma rune_start_next:
  assumes "rune_start s i" and "i < length s"
  shows "rune_start s (i + rune_width (drop i s))" and "i + rune_width (drop i s) \<le> length s"
    and "rune_start s k \<Longrightarrow> i \<le> k \<Longrightarrow> k < i + rune_width (drop i s) \<Longrightarrow> k = i"
proof -
  let ?w = "rune_width (drop i s)"
  have ne: "drop i s \<noteq> []" using assms(2) by simp
  have w: "?w \<noteq> 0" by (simp add: less_imp_neq [symmetric])
  show "i + ?w \<le> length s" using rune_width_le [OF ne] assms(2) by simp
  show "rune_start s (i + ?w)"
    using rune_start_add [OF assms(1), of ?w] rune_start_later [OF w, of "drop i s"] ne by simp
  assume k: "rune_start s k" "i \<le> k" "k < i + ?w"
  then have "rune_start (drop i s) (k - i)" using rune_start_add [OF assms(1), of "k - i"] by simp
  then show "k = i" using k rune_start_later [of "k - i" "drop i s"] by (cases "k = i") auto
qed

section \<open>White space\<close>

text \<open>The encodings of the runes of \<open>unicode.IsSpace\<close>.\<close>

definition space_runes :: "string list" where
  "space_runes =
    [[CHR 0x09], [CHR 0x0A], [CHR 0x0B], [CHR 0x0C], [CHR 0x0D], [CHR 0x20],
     [CHR 0xC2, CHR 0x85], [CHR 0xC2, CHR 0xA0], [CHR 0xE1, CHR 0x9A, CHR 0x80],
     [CHR 0xE2, CHR 0x80, CHR 0x80], [CHR 0xE2, CHR 0x80, CHR 0x81],
     [CHR 0xE2, CHR 0x80, CHR 0x82], [CHR 0xE2, CHR 0x80, CHR 0x83],
     [CHR 0xE2, CHR 0x80, CHR 0x84], [CHR 0xE2, CHR 0x80, CHR 0x85],
     [CHR 0xE2, CHR 0x80, CHR 0x86], [CHR 0xE2, CHR 0x80, CHR 0x87],
     [CHR 0xE2, CHR 0x80, CHR 0x88], [CHR 0xE2, CHR 0x80, CHR 0x89],
     [CHR 0xE2, CHR 0x80, CHR 0x8A], [CHR 0xE2, CHR 0x80, CHR 0xA8],
     [CHR 0xE2, CHR 0x80, CHR 0xA9], [CHR 0xE2, CHR 0x80, CHR 0xAF],
     [CHR 0xE2, CHR 0x81, CHR 0x9F], [CHR 0xE3, CHR 0x80, CHR 0x80]]"

definition starts_with :: "string \<Rightarrow> string \<Rightarrow> bool" where
  "starts_with s p \<longleftrightarrow> take (length p) s = p"

definition ends_with :: "string \<Rightarrow> string \<Rightarrow> bool" where
  "ends_with s p \<longleftrightarrow> starts_with (rev s) (rev p)"

lemma find_Some_shorter:
  "find (\<lambda>p. p \<noteq> [] \<and> starts_with s p) ps = Some p \<Longrightarrow>
     (drop (length p) s, s) \<in> measure length"
  by (cases s) (auto simp: find_Some_iff starts_with_def)

text \<open>Strip the first matching prefix of \<open>ps\<close> over and over; no prefix is empty.\<close>

function strip_left :: "string list \<Rightarrow> string \<Rightarrow> string" where
  "strip_left ps s =
     (case find (\<lambda>p. p \<noteq> [] \<and> starts_with s p) ps of
        None \<Rightarrow> s
      | Some p \<Rightarrow> strip_left ps (drop (length p) s))"
  by pat_completeness auto
termination
  by (relation "inv_image (measure length) snd") (simp, drule find_Some_shorter, simp)

declare strip_left.simps [simp del]

definition trim_space :: "string \<Rightarrow> string" where
  "trim_space s = rev (strip_left (map rev space_runes) (rev (strip_left space_runes s)))"

text \<open>\<open>strings.TrimRight(s, c)\<close> for a one-byte cutset.\<close>

definition trim_right :: "char \<Rightarrow> string \<Rightarrow> string" where
  "trim_right c s = rev (dropWhile (\<lambda>b. b = c) (rev s))"

definition blank :: "string \<Rightarrow> bool" where
  "blank s \<longleftrightarrow> trim_space s = []"

lemma strip_left_suffix: "suffix (strip_left ps s) s"
proof (induction ps s rule: strip_left.induct)
  case (1 ps s)
  show ?case
  proof (cases "find (\<lambda>p. p \<noteq> [] \<and> starts_with s p) ps")
    case None
    then show ?thesis by (subst strip_left.simps) simp
  next
    case (Some p)
    with 1 have "suffix (strip_left ps (drop (length p) s)) (drop (length p) s)" by simp
    then have "suffix (strip_left ps (drop (length p) s)) s"
      using suffix_drop suffix_order.trans by blast
    with Some show ?thesis by (subst strip_left.simps) simp
  qed
qed

lemma strip_left_none: "find (\<lambda>p. p \<noteq> [] \<and> starts_with (strip_left ps s) p) ps = None"
proof (induction ps s rule: strip_left.induct)
  case (1 ps s)
  show ?case
  proof (cases "find (\<lambda>p. p \<noteq> [] \<and> starts_with s p) ps")
    case None
    then show ?thesis by (subst strip_left.simps) simp
  next
    case (Some p)
    with 1 show ?thesis by (subst strip_left.simps) simp
  qed
qed

lemma strip_left_idem [simp]: "strip_left ps (strip_left ps s) = strip_left ps s"
  using strip_left_none [of ps s] by (subst strip_left.simps) simp

lemma strip_left_Nil [simp]: "strip_left ps [] = []"
  using strip_left_suffix [of ps "[]"] by simp

lemma strip_left_stable: "strip_left ps s = s \<longleftrightarrow> (\<forall>p \<in> set ps. p \<noteq> [] \<longrightarrow> \<not> starts_with s p)"
proof
  assume "strip_left ps s = s"
  then show "\<forall>p \<in> set ps. p \<noteq> [] \<longrightarrow> \<not> starts_with s p"
    using strip_left_none [of ps s] by (auto simp: find_None_iff)
next
  assume "\<forall>p \<in> set ps. p \<noteq> [] \<longrightarrow> \<not> starts_with s p"
  then have "find (\<lambda>p. p \<noteq> [] \<and> starts_with s p) ps = None" by (auto simp: find_None_iff)
  then show "strip_left ps s = s" by (subst strip_left.simps) simp
qed

lemma length_trim_space: "length (trim_space s) \<le> length s"
  using suffix_length_le [OF strip_left_suffix [of space_runes s]]
    suffix_length_le [OF strip_left_suffix [of "map rev space_runes" "rev (strip_left space_runes s)"]]
  by (simp add: trim_space_def)

lemma trim_space_Nil [simp]: "trim_space [] = []"
  by (simp add: trim_space_def)

lemma trim_space_prefix: "prefix (trim_space s) (strip_left space_runes s)"
  using strip_left_suffix [of "map rev space_runes" "rev (strip_left space_runes s)"]
  by (simp add: trim_space_def suffix_to_prefix)

lemma starts_with_prefix: "starts_with s p \<longleftrightarrow> prefix p s"
  by (auto simp: starts_with_def prefix_def) (metis append_take_drop_id)

text \<open>Trimming is idempotent: a prefix of a string that starts with no space starts with none.\<close>

lemma trim_space_idem [simp]: "trim_space (trim_space s) = trim_space s"
proof -
  let ?l = "strip_left space_runes s"
  have no: "\<forall>p \<in> set space_runes. p \<noteq> [] \<longrightarrow> \<not> starts_with ?l p"
    using strip_left_stable [of space_runes ?l] by simp
  have "\<forall>p \<in> set space_runes. p \<noteq> [] \<longrightarrow> \<not> starts_with (trim_space s) p"
    using no trim_space_prefix [of s] prefix_order.trans unfolding starts_with_prefix by blast
  then have "strip_left space_runes (trim_space s) = trim_space s"
    by (simp add: strip_left_stable)
  then show ?thesis by (simp add: trim_space_def)
qed

text \<open>A byte that belongs to no space is never trimmed away.\<close>

lemma strip_left_keeps: "c \<in> set s \<Longrightarrow> \<forall>p \<in> set ps. c \<notin> set p \<Longrightarrow> c \<in> set (strip_left ps s)"
proof (induction ps s rule: strip_left.induct)
  case (1 ps s)
  show ?case
  proof (cases "find (\<lambda>p. p \<noteq> [] \<and> starts_with s p) ps")
    case None
    then show ?thesis using "1.prems" by (subst strip_left.simps) simp
  next
    case (Some p)
    then have p: "p \<in> set ps" "starts_with s p" by (auto simp: find_Some_iff)
    then obtain t where "s = p @ t" by (auto simp: starts_with_prefix prefix_def)
    then have "c \<in> set (drop (length p) s)" using "1.prems" p(1) by auto
    with "1.IH" [OF Some] "1.prems"(2) Some show ?thesis by (subst strip_left.simps) simp
  qed
qed

lemma not_blank_byte: "c \<in> set s \<Longrightarrow> \<forall>p \<in> set space_runes. c \<notin> set p \<Longrightarrow> \<not> blank s"
proof -
  assume c: "c \<in> set s" and no: "\<forall>p \<in> set space_runes. c \<notin> set p"
  have "c \<in> set (strip_left (map rev space_runes) (rev (strip_left space_runes s)))"
    using strip_left_keeps [OF c no] no by (intro strip_left_keeps) auto
  then show ?thesis by (auto simp: blank_def trim_space_def)
qed

section \<open>Well-formed UTF-8\<close>

text \<open>Every step of a range loop over the string is a well-formed rune.\<close>

function valid_utf8 :: "string \<Rightarrow> bool" where
  "valid_utf8 s =
     (if s = [] then True
      else case utf8_width s of None \<Rightarrow> False | Some n \<Rightarrow> valid_utf8 (drop n s))"
  by pat_completeness auto
termination
  by (relation "measure length") (auto dest: utf8_width_bounds)

declare valid_utf8.simps [simp del]

lemma valid_utf8_append: "valid_utf8 s \<Longrightarrow> valid_utf8 t \<Longrightarrow> valid_utf8 (s @ t)"
proof (induction s rule: valid_utf8.induct)
  case (1 s)
  show ?case
  proof (cases "s = []")
    case False
    with "1.prems" obtain n where n: "utf8_width s = Some n" "valid_utf8 (drop n s)"
      by (subst (asm) valid_utf8.simps) (auto split: option.splits)
    then have "valid_utf8 (drop n s @ t)" using 1 False by simp
    moreover have "drop n (s @ t) = drop n s @ t" using utf8_width_bounds [OF n(1)] by simp
    ultimately show ?thesis
      using utf8_width_append [OF n(1), of t] False by (subst valid_utf8.simps) simp
  qed (use 1 in simp)
qed

section \<open>Case, search and splitting\<close>

definition replacement_rune :: string where
  "replacement_rune = [CHR 0xEF, CHR 0xBF, CHR 0xBD]"

text \<open>\<open>strings.Map\<close>: rune by rune, a byte outside a well-formed sequence becomes U+FFFD.\<close>

function map_runes :: "(string \<Rightarrow> string) \<Rightarrow> string \<Rightarrow> string" where
  "map_runes f s =
     (if s = [] then []
      else case utf8_width s of
          None \<Rightarrow> replacement_rune @ map_runes f (tl s)
        | Some n \<Rightarrow> f (take n s) @ map_runes f (drop n s))"
  by pat_completeness auto
termination
  by (relation "measure (\<lambda>(f, s). length s)") (auto dest: utf8_width_bounds)

declare map_runes.simps [simp del]

definition lower_ascii :: "char \<Rightarrow> char" where
  "lower_ascii c = (if in_range 65 90 c then char_of (byte c + 32) else c)"

definition to_lower :: "(string \<Rightarrow> string) \<Rightarrow> string \<Rightarrow> string" where
  "to_lower ul = map_runes (\<lambda>r. case r of [c] \<Rightarrow> [lower_ascii c] | _ \<Rightarrow> ul r)"

fun contains :: "string \<Rightarrow> string \<Rightarrow> bool" where
  "contains [] p = (p = [])"
| "contains (c # s) p = (starts_with (c # s) p \<or> contains s p)"

lemma contains_iff: "contains s p \<longleftrightarrow> sublist p s"
proof (induction s)
  case (Cons c s)
  then show ?case
    by (auto simp: starts_with_prefix sublist_Cons_right)
qed simp

text \<open>\<open>strings.Split(s, c)\<close> for a one-byte separator: always at least one part.\<close>

fun split_on :: "char \<Rightarrow> string \<Rightarrow> string list" where
  "split_on c [] = [[]]"
| "split_on c (x # xs) =
     (if x = c then [] # split_on c xs
      else case split_on c xs of [] \<Rightarrow> [[x]] | p # ps \<Rightarrow> (x # p) # ps)"

lemma split_on_nonempty [simp]: "split_on c s \<noteq> []"
  by (induction c s rule: split_on.induct) (auto split: list.splits)

lemma join_split_on: "join [c] (split_on c s) = s"
proof (induction c s rule: split_on.induct)
  case (2 c x xs)
  then show ?case
    by (cases "split_on c xs"; cases "tl (split_on c xs)") (auto split: list.splits)
qed simp

lemma split_on_no_sep: "p \<in> set (split_on c s) \<Longrightarrow> c \<notin> set p"
proof (induction c s arbitrary: p rule: split_on.induct)
  case (2 c x xs)
  then show ?case by (cases "split_on c xs") (auto split: if_splits)
qed simp

section \<open>Decimal integers\<close>

definition digit :: "nat \<Rightarrow> char" where
  "digit d = char_of (48 + d)"

fun nat_dec :: "nat \<Rightarrow> string" where
  "nat_dec n = (if n < 10 then [digit n] else nat_dec (n div 10) @ [digit (n mod 10)])"

declare nat_dec.simps [simp del]

definition int_dec :: "int \<Rightarrow> string" where
  "int_dec i = (if i < 0 then CHR ''-'' # nat_dec (nat (- i)) else nat_dec (nat i))"

definition is_digit :: "char \<Rightarrow> bool" where
  "is_digit = in_range 48 57"

definition digits_value :: "string \<Rightarrow> nat" where
  "digits_value = foldl (\<lambda>n c. 10 * n + (byte c - 48)) 0"

text \<open>\<open>strconv.Atoi\<close>: an optional sign, decimal digits, the range of a 64-bit \<open>int\<close>.\<close>

definition atoi_digits :: "bool \<Rightarrow> string \<Rightarrow> int option" where
  "atoi_digits neg s =
     (if s = [] \<or> \<not> list_all is_digit s then None
      else let v = (if neg then - int (digits_value s) else int (digits_value s))
           in if - (2 ^ 63) \<le> v \<and> v < 2 ^ 63 then Some v else None)"

definition atoi :: "string \<Rightarrow> int option" where
  "atoi s = (case s of
     [] \<Rightarrow> None
   | c # r \<Rightarrow> if c = CHR ''-'' then atoi_digits True r
             else if c = CHR ''+'' then atoi_digits False r
             else atoi_digits False s)"

lemma byte_digit: "d < 10 \<Longrightarrow> byte (digit d) = 48 + d"
  by (simp add: byte_def digit_def)

lemma is_digit_digit: "d < 10 \<Longrightarrow> is_digit (digit d)"
  by (simp add: is_digit_def in_range_def byte_digit)

lemma nat_dec_digits: "list_all is_digit (nat_dec n)"
proof (induction n rule: nat_dec.induct)
  case (1 n)
  then show ?case
    by (subst nat_dec.simps) (simp add: is_digit_digit)
qed

lemma nat_dec_nonempty [simp]: "nat_dec n \<noteq> []"
  by (subst nat_dec.simps) simp

lemma digits_value_snoc: "digits_value (s @ [c]) = 10 * digits_value s + (byte c - 48)"
  by (simp add: digits_value_def)

lemma digits_value_nat_dec: "digits_value (nat_dec n) = n"
proof (induction n rule: nat_dec.induct)
  case (1 n)
  show ?case
  proof (cases "n < 10")
    case True
    then show ?thesis
      by (subst nat_dec.simps) (simp add: digits_value_def byte_digit)
  next
    case False
    with 1 show ?thesis
      by (subst nat_dec.simps) (simp add: digits_value_snoc byte_digit)
  qed
qed

lemma is_digit_not_sign: "is_digit c \<Longrightarrow> c \<noteq> CHR ''-'' \<and> c \<noteq> CHR ''+''"
  by (auto simp: is_digit_def in_range_def byte_def)

text \<open>Parsing what \<open>int_dec\<close> prints gives the number back, over the whole 64-bit range.\<close>

lemma atoi_int_dec:
  assumes "- (2 ^ 63) \<le> i" and "i < 2 ^ 63"
  shows "atoi (int_dec i) = Some i"
proof (cases "i < 0")
  case True
  with assms show ?thesis
    by (simp add: int_dec_def atoi_def atoi_digits_def nat_dec_digits digits_value_nat_dec)
next
  case False
  obtain c r where cr: "nat_dec (nat i) = c # r"
    by (cases "nat_dec (nat i)") auto
  then have "is_digit c" using nat_dec_digits [of "nat i"] by simp
  then have "atoi (c # r) = atoi_digits False (c # r)"
    by (simp add: atoi_def is_digit_not_sign)
  moreover have "atoi_digits False (nat_dec (nat i)) = Some i"
    using False assms by (simp add: atoi_digits_def nat_dec_digits digits_value_nat_dec)
  ultimately show ?thesis
    using False cr by (simp add: int_dec_def)
qed

end
