(* ===== verification/Go_Time.thy ===== *)
theory Go_Time
  imports Go_Strings
begin

text \<open>
  The parts of \<open>time\<close> that the code uses.  An instant is a number of nanoseconds since the start of
  the year 1 in UTC, in the proleptic Gregorian calendar, as for \<open>time.Time\<close>.
  \<open>time.Parse(time.RFC3339Nano, _)\<close> is modelled as the set of strings that it accepts, leniency
  included: an hour of one digit, a comma before the fraction, offsets up to 24:60.
  \<open>t.UTC().Format(time.RFC3339Nano)\<close> is modelled as the text.
\<close>

section \<open>Reading\<close>

text \<open>\<open>getnum\<close>: two digits, or one where the layout element is not fixed.\<close>

definition getnum :: "bool \<Rightarrow> string \<Rightarrow> (nat \<times> string) option" where
  "getnum fixed s =
     (case s of
        [] \<Rightarrow> None
      | a # r \<Rightarrow>
        (if \<not> is_digit a then None
         else case r of
             [] \<Rightarrow> if fixed then None else Some (digits_value [a], r)
           | b # r' \<Rightarrow>
             if is_digit b then Some (digits_value [a, b], r')
             else if fixed then None else Some (digits_value [a], r)))"

definition num_in :: "bool \<Rightarrow> nat \<Rightarrow> nat \<Rightarrow> string \<Rightarrow> (nat \<times> string) option" where
  "num_in fixed lo hi s =
     (case getnum fixed s of
        None \<Rightarrow> None
      | Some (n, r) \<Rightarrow> if lo \<le> n \<and> n \<le> hi then Some (n, r) else None)"

definition skip_char :: "char \<Rightarrow> string \<Rightarrow> string option" where
  "skip_char c s = (case s of [] \<Rightarrow> None | x # r \<Rightarrow> if x = c then Some r else None)"

definition parse_year :: "string \<Rightarrow> (nat \<times> string) option" where
  "parse_year s =
     (if length s < 4 \<or> \<not> list_all is_digit (take 4 s) then None
      else Some (digits_value (take 4 s), drop 4 s))"

definition skip_fraction :: "string \<Rightarrow> string" where
  "skip_fraction s =
     (case s of
        p # d # r \<Rightarrow> if (p = CHR ''.'' \<or> p = CHR '','') \<and> is_digit d then dropWhile is_digit r else s
      | _ \<Rightarrow> s)"

definition zone_ok :: "string \<Rightarrow> bool" where
  "zone_ok s =
     (case s of
        [] \<Rightarrow> False
      | c # r \<Rightarrow>
        if c = CHR ''Z'' then r = []
        else length s = 6 \<and> s ! 3 = CHR '':'' \<and> (c = CHR ''+'' \<or> c = CHR ''-'') \<and>
          num_in True 0 24 (take 2 r) \<noteq> None \<and> num_in True 0 60 (drop 3 r) \<noteq> None)"

definition leap_year :: "nat \<Rightarrow> bool" where
  "leap_year y \<longleftrightarrow> y mod 4 = 0 \<and> (y mod 100 \<noteq> 0 \<or> y mod 400 = 0)"

definition days_in :: "nat \<Rightarrow> nat \<Rightarrow> nat" where
  "days_in month year =
     (if month = 2 then (if leap_year year then 29 else 28)
      else if month \<in> {4, 6, 9, 11} then 30 else 31)"

definition clock_ok :: "string \<Rightarrow> bool" where
  "clock_ok s =
     (case num_in False 0 23 s of None \<Rightarrow> False | Some (_, s) \<Rightarrow>
     (case skip_char CHR '':'' s of None \<Rightarrow> False | Some s \<Rightarrow>
     (case num_in True 0 59 s of None \<Rightarrow> False | Some (_, s) \<Rightarrow>
     (case skip_char CHR '':'' s of None \<Rightarrow> False | Some s \<Rightarrow>
     (case num_in True 0 59 s of None \<Rightarrow> False | Some (_, s) \<Rightarrow> zone_ok (skip_fraction s))))))"

definition rfc3339_ok :: "string \<Rightarrow> bool" where
  "rfc3339_ok s =
     (case parse_year s of None \<Rightarrow> False | Some (year, s) \<Rightarrow>
     (case skip_char CHR ''-'' s of None \<Rightarrow> False | Some s \<Rightarrow>
     (case num_in True 1 12 s of None \<Rightarrow> False | Some (month, s) \<Rightarrow>
     (case skip_char CHR ''-'' s of None \<Rightarrow> False | Some s \<Rightarrow>
     (case getnum True s of None \<Rightarrow> False | Some (day, s) \<Rightarrow>
     (case skip_char CHR ''T'' s of None \<Rightarrow> False | Some s \<Rightarrow>
        clock_ok s \<and> 1 \<le> day \<and> day \<le> days_in month year))))))"

section \<open>Printing\<close>

text \<open>\<open>appendInt\<close>: a number padded with zeros to a width.\<close>

fun pad_digits :: "nat \<Rightarrow> int \<Rightarrow> string" where
  "pad_digits 0 n = []"
| "pad_digits (Suc w) n = pad_digits w (n div 10) @ [digit (nat (n mod 10))]"

definition append_int :: "nat \<Rightarrow> int \<Rightarrow> string" where
  "append_int w x = (if x < 0 then ''-'' else []) @
     (let n = \<bar>x\<bar> in if n < 10 ^ w then pad_digits w n else int_dec n)"

text \<open>\<open>appendNano\<close> for nine digits with a dot: the fraction without the zeros at its end.\<close>

definition append_nano :: "int \<Rightarrow> string" where
  "append_nano n =
     (let ds = rev (dropWhile (\<lambda>c. c = CHR ''0'') (rev (pad_digits 9 n)))
      in if ds = [] then [] else CHR ''.'' # ds)"

text \<open>The year of a day, days counted from the first of January of the year 1, and the day of the
  year from zero, by cycles of 400, 100, 4 years and one year.\<close>

definition year_of_day :: "int \<Rightarrow> int \<times> int" where
  "year_of_day d =
     (let n400 = d div 146097; d = d mod 146097;
          n100 = min 3 (d div 36524); d = d - 36524 * n100;
          n4 = d div 1461; d = d mod 1461;
          n1 = min 3 (d div 365)
      in (400 * n400 + 100 * n100 + 4 * n4 + n1 + 1, d - 365 * n1))"

text \<open>The month of a day of the year, and the day of the month.\<close>

fun month_of_day :: "nat \<Rightarrow> nat list \<Rightarrow> int \<Rightarrow> nat \<times> int" where
  "month_of_day y [] d = (12, d + 1)"
| "month_of_day y (m # ms) d =
     (if d < int (days_in m y) then (m, d + 1) else month_of_day y ms (d - int (days_in m y)))"

definition date_of_day :: "int \<Rightarrow> int \<times> nat \<times> int" where
  "date_of_day d =
     (case year_of_day d of (y, k) \<Rightarrow> case month_of_day (nat (y mod 400)) [1..<13] k of (m, j) \<Rightarrow> (y, m, j))"

definition format_rfc3339 :: "int \<Rightarrow> string" where
  "format_rfc3339 t =
     (let s = t div 1000000000 in
      case date_of_day (s div 86400) of (y, m, d) \<Rightarrow>
        append_int 4 y @ ''-'' @ append_int 2 (int m) @ ''-'' @ append_int 2 d @ ''T'' @
        append_int 2 (s div 3600 mod 24) @ '':'' @ append_int 2 (s div 60 mod 60) @ '':'' @
        append_int 2 (s mod 60) @ append_nano (t mod 1000000000) @ ''Z'')"

section \<open>What is printed is read\<close>

lemma leap_year_mod:
  "leap_year (nat (y mod 400)) \<longleftrightarrow> y mod 4 = 0 \<and> (y mod 100 \<noteq> 0 \<or> y mod 400 = 0)" for y :: int
proof -
  obtain n where n: "y mod 400 = int n" by (metis nonneg_int_cases pos_mod_sign zero_less_numeral)
  have "y mod 400 mod 4 = y mod 4" "y mod 400 mod 100 = y mod 100" by (simp_all add: mod_mod_cancel)
  then have "int (n mod 4) = y mod 4" "int (n mod 100) = y mod 100" "int (n mod 400) = y mod 400"
    by (simp_all add: zmod_int flip: n)
  then have "n mod 4 = 0 \<longleftrightarrow> y mod 4 = 0" "n mod 100 = 0 \<longleftrightarrow> y mod 100 = 0" "n mod 400 = 0 \<longleftrightarrow> y mod 400 = 0"
    by (metis of_nat_0_eq_iff)+
  then show ?thesis unfolding leap_year_def n nat_int by simp
qed

lemma leap_year_nat: "1 \<le> y \<Longrightarrow> leap_year (nat (y mod 400)) \<longleftrightarrow> leap_year (nat y)"
  by (simp add: leap_year_def nat_mod_distrib mod_mod_cancel)

text \<open>The cycles: the day of the year is one, and the years of the calendar are those of its days.\<close>

lemma year_of_day_range:
  assumes "year_of_day d = (y, k)"
  shows "0 \<le> k" and "k < (if leap_year (nat (y mod 400)) then 366 else 365)"
    and "0 \<le> d \<Longrightarrow> 1 \<le> y" and "d < 3652059 \<Longrightarrow> y \<le> 9999"
proof -
  define a where "a = d div 146097"
  define r where "r = d mod 146097"
  define b where "b = min 3 (r div 36524)"
  define r' where "r' = r - 36524 * b"
  define c where "c = r' div 1461"
  define r'' where "r'' = r' mod 1461"
  define e where "e = min 3 (r'' div 365)"
  have y: "y = 400 * a + 100 * b + 4 * c + e + 1" and k: "k = r'' - 365 * e"
    using assms by (simp_all add: year_of_day_def Let_def a_def b_def c_def e_def r_def r'_def r''_def)
  have a: "0 \<le> d \<Longrightarrow> 0 \<le> a" by (simp add: a_def pos_imp_zdiv_nonneg_iff)
  have d: "d = 146097 * a + r" "0 \<le> r" "r < 146097" by (simp_all add: a_def r_def)
  have b: "0 \<le> b" "b \<le> 3" "0 \<le> r'" "r' \<le> 36524" "b < 3 \<Longrightarrow> r' < 36524"
    using d(2,3) unfolding b_def r'_def by linarith+
  have r': "r' = 1461 * c + r''" "0 \<le> r''" "r'' < 1461" by (simp_all add: c_def r''_def)
  have c: "0 \<le> c" "c \<le> 24" using b(3,4) r' by linarith+
  have e: "0 \<le> e" "e \<le> 3" "0 \<le> k" "k \<le> 365" "e < 3 \<Longrightarrow> k < 365"
    using r'(2,3) unfolding e_def k by linarith+
  show "0 \<le> k" by (rule e(3))
  show "0 \<le> d \<Longrightarrow> 1 \<le> y" using a b(1) c(1) e(1) unfolding y by linarith
  have leap: "leap_year (nat (y mod 400)) \<longleftrightarrow> e = 3 \<and> (c = 24 \<longrightarrow> b = 3)"
  proof -
    have "y mod 4 = (e + 1) mod 4"
      using mod_mult_self2 [of "e + 1" 4 "100 * a + 25 * b + c"] by (simp add: y algebra_simps)
    then have y4: "y mod 4 = 0 \<longleftrightarrow> e = 3" using e(1,2) by presburger
    have "y mod 100 = (4 * c + e + 1) mod 100"
      using mod_mult_self2 [of "4 * c + e + 1" 100 "4 * a + b"] by (simp add: y algebra_simps)
    then have y100: "e = 3 \<Longrightarrow> y mod 100 = 0 \<longleftrightarrow> c = 24" using c by (cases "c = 24") simp_all
    have "y mod 400 = (100 * b + 4 * c + e + 1) mod 400"
      using mod_mult_self2 [of "100 * b + 4 * c + e + 1" 400 a] by (simp add: y algebra_simps)
    then have y400: "e = 3 \<Longrightarrow> c = 24 \<Longrightarrow> y mod 400 = 0 \<longleftrightarrow> b = 3" using b(1,2) by (cases "b = 3") simp_all
    show ?thesis unfolding leap_year_mod using y4 y100 y400 by (cases "e = 3"; cases "c = 24"; simp)
  qed
  show "k < (if leap_year (nat (y mod 400)) then 366 else 365)"
  proof -
    have "k < 365" if "e = 3" "c = 24" "b \<noteq> 3" using that b(2,5) r' unfolding k by linarith
    moreover have "e < 3 \<or> e = 3" using e(2) by linarith
    ultimately show ?thesis using leap e(4,5) by auto
  qed
  show "y \<le> 9999" if "d < 3652059"
  proof -
    have "a \<le> 24" using that d by linarith
    moreover have "y \<le> 9999" if "a < 24" using that b(2) c(2) e(2) unfolding y by linarith
    moreover have "y \<le> 9999" if a: "a = 24"
    proof -
      have "r < 145731" using \<open>d < 3652059\<close> d(1) a by linarith
      then have "b = 3 \<Longrightarrow> r' < 36159" by (simp add: r'_def)
      then have "b = 3 \<Longrightarrow> c = 24 \<Longrightarrow> e < 3" using r' unfolding e_def by linarith
      then show ?thesis using a b(2) c(2) e(2) unfolding y by linarith
    qed
    ultimately show ?thesis by linarith
  qed
qed

lemma days_in_year: "(\<Sum>m\<leftarrow>[1..<13]. days_in m y) = (if leap_year y then 366 else 365)"
  by (simp add: days_in_def upt_rec)

lemma month_of_day_range:
  "0 \<le> d \<Longrightarrow> d < int (\<Sum>m\<leftarrow>ms. days_in m y) \<Longrightarrow> month_of_day y ms d = (m, j) \<Longrightarrow>
     m \<in> set ms \<and> 1 \<le> j \<and> j \<le> int (days_in m y)"
  by (induction y ms d rule: month_of_day.induct) (auto split: if_splits)

lemma date_of_day_range:
  assumes "date_of_day d = (y, m, j)" and "0 \<le> d" and "d < 3652059"
  shows "1 \<le> y" "y \<le> 9999" "m \<in> {1..12}" "1 \<le> j" "j \<le> int (days_in m (nat y))" "j \<le> 31"
proof -
  obtain k where y: "year_of_day d = (y, k)" and m: "month_of_day (nat (y mod 400)) [1..<13] k = (m, j)"
    using assms(1) by (auto simp: date_of_day_def split: prod.splits)
  show "1 \<le> y" "y \<le> 9999" using year_of_day_range(3,4) [OF y] assms(2,3) by simp_all
  have "0 \<le> k" "k < int (\<Sum>m\<leftarrow>[1..<13]. days_in m (nat (y mod 400)))"
    using year_of_day_range(1,2) [OF y] unfolding days_in_year by (simp_all split: if_splits)
  from month_of_day_range [OF this m]
  have "m \<in> {1..12} \<and> 1 \<le> j \<and> j \<le> int (days_in m (nat (y mod 400)))" by auto
  moreover have "leap_year (nat (y mod 400)) \<longleftrightarrow> leap_year (nat y)" using \<open>1 \<le> y\<close> by (rule leap_year_nat)
  ultimately show "m \<in> {1..12}" "1 \<le> j" "j \<le> int (days_in m (nat y))" "j \<le> 31"
    by (auto simp: days_in_def split: if_splits)
qed

lemma pad_digits_length [simp]: "length (pad_digits w n) = w"
  by (induction w arbitrary: n) simp_all

lemma nat_mod_10: "nat (n mod 10) < 10"
  by (simp add: nat_less_iff)

lemma pad_digits_digits: "list_all is_digit (pad_digits w n)"
  by (induction w arbitrary: n) (simp_all add: is_digit_digit nat_mod_10)

lemma pad_digits_value: "int (digits_value (pad_digits w n)) = n mod 10 ^ w"
proof (induction w arbitrary: n)
  case (Suc w)
  then show ?case by (simp add: digits_value_snoc byte_digit nat_mod_10 zmod_zmult2_eq)
qed (simp add: digits_value_def)

lemma append_int_pad: "0 \<le> x \<Longrightarrow> x < 10 ^ w \<Longrightarrow> append_int w x = pad_digits w x"
  by (simp add: append_int_def Let_def)

text \<open>Reading a number of two digits back.\<close>

lemma getnum_two:
  assumes "0 \<le> x" "x < 100"
  shows "getnum f (append_int 2 x @ r) = Some (nat x, r)"
proof -
  have eq: "append_int 2 x = pad_digits 2 x" using assms by (intro append_int_pad) auto
  obtain a b where ab: "pad_digits 2 x = [a, b]"
    using pad_digits_length [of 2 x] by (auto simp: numeral_2_eq_2 length_Suc_conv simp del: pad_digits_length)
  moreover have "is_digit a" "is_digit b" "int (digits_value [a, b]) = x"
    using pad_digits_digits [of 2 x] pad_digits_value [of 2 x] assms unfolding ab by simp_all
  ultimately show ?thesis unfolding eq by (simp add: getnum_def)
qed

lemma num_in_two:
  "0 \<le> x \<Longrightarrow> x < 100 \<Longrightarrow> lo \<le> nat x \<Longrightarrow> nat x \<le> hi \<Longrightarrow> num_in f lo hi (append_int 2 x @ r) = Some (nat x, r)"
  by (simp add: num_in_def getnum_two)

lemma parse_year_four:
  assumes "0 \<le> y" "y < 10000"
  shows "parse_year (append_int 4 y @ r) = Some (nat y, r)"
proof -
  have eq: "append_int 4 y = pad_digits 4 y" using assms by (intro append_int_pad) auto
  show ?thesis
    using pad_digits_digits [of 4 y] pad_digits_value [of 4 y] assms
    by (simp add: eq parse_year_def)
qed

lemma skip_char_same: "skip_char c ([c] @ r) = Some r"
  by (simp add: skip_char_def)

lemma skip_fraction_nano: "skip_fraction (append_nano n @ ''Z'') = ''Z''"
proof -
  let ?ds = "rev (dropWhile (\<lambda>c. c = CHR ''0'') (rev (pad_digits 9 n)))"
  have "list_all is_digit ?ds" using pad_digits_digits [of 9 n] by (auto simp: list_all_iff dest: set_dropWhileD)
  then show ?thesis
    by (cases ?ds) (auto simp: append_nano_def skip_fraction_def Let_def is_digit_def in_range_def byte_def list_all_iff
      dropWhile_append2 split: if_splits)
qed

text \<open>The text of an instant in the years 1 to 9999 is a time of RFC 3339.\<close>

definition in_calendar :: "int \<Rightarrow> bool" where
  "in_calendar t \<longleftrightarrow> 0 \<le> t \<and> t < 3652059 * 86400 * 1000000000"

theorem format_rfc3339_ok:
  assumes "in_calendar t"
  shows "rfc3339_ok (format_rfc3339 t)"
proof -
  let ?s = "t div 1000000000"
  obtain y m d where date: "date_of_day (?s div 86400) = (y, m, d)" by (cases "date_of_day (?s div 86400)")
  have "0 \<le> ?s" "?s < 3652059 * 86400" using assms unfolding in_calendar_def by linarith+
  then have "0 \<le> ?s div 86400" "?s div 86400 < 3652059" by linarith+
  note r = date_of_day_range [OF date this]
  have clock: "clock_ok (append_int 2 (?s div 3600 mod 24) @ '':'' @ append_int 2 (?s div 60 mod 60) @ '':'' @
      append_int 2 (?s mod 60) @ append_nano n @ ''Z'')" for n
  proof -
    have b: "0 \<le> x mod 60 \<and> x mod 60 < 60" "0 \<le> x mod 24 \<and> x mod 24 < 24" for x :: int by simp_all
    show ?thesis using b(1) [of ?s] b(1) [of "?s div 60"] b(2) [of "?s div 3600"]
      by (simp add: clock_ok_def num_in_two skip_char_def skip_fraction_nano zone_ok_def)
  qed
  have "0 \<le> y" "y < 10000" "0 \<le> int m" "int m < 100" "0 \<le> d" "d < 100" "1 \<le> nat d" "nat d \<le> days_in m (nat y)"
    using r by auto
  then show ?thesis using r(3) clock
    by (simp add: format_rfc3339_def rfc3339_ok_def date Let_def parse_year_four num_in_two getnum_two skip_char_def)
qed

lemma format_rfc3339_not_blank: "\<not> blank (format_rfc3339 t)"
proof -
  have "\<forall>p \<in> set space_runes. CHR ''T'' \<notin> set p" by code_simp
  moreover have "CHR ''T'' \<in> set (format_rfc3339 t)"
    by (cases "date_of_day (t div 1000000000 div 86400)") (simp add: format_rfc3339_def Let_def)
  ultimately show ?thesis using not_blank_byte by blast
qed

text \<open>Sample texts.\<close>

lemma format_samples:
  "format_rfc3339 0 = ''0001-01-01T00:00:00Z''"
  "format_rfc3339 62135596800000000000 = ''1970-01-01T00:00:00Z''"
  "format_rfc3339 63844812245120000000 = ''2024-02-29T14:04:05.12Z''"
  "format_rfc3339 (-1) = ''0000-12-31T23:59:59.999999999Z''"
  by code_simp+

text \<open>Sample times, accepted and refused.\<close>

lemma rfc3339_samples:
  "list_all rfc3339_ok
     [''2026-02-28T03:04:05Z'', ''2024-02-29T23:59:59.123456789+03:00'', ''2026-02-28T3:04:05,5Z'']"
  "list_all (\<lambda>s. \<not> rfc3339_ok s)
     [''2026-02-29T03:04:05Z'', ''2026-02-28 03:04:05Z'', ''2026-02-28T03:04Z'', ''2026-02-28T03:04:05'']"
  by code_simp+

end
