(* ===== verification/Go_Duration.thy ===== *)
theory Go_Duration
  imports Go_Strings
begin

text \<open>
  \<open>time.ParseDuration\<close>, with the 64-bit arithmetic of the library and, for fractions, its arithmetic
  on doubles.
\<close>

section \<open>Doubles\<close>

text \<open>
  A positive double as a ratio of positive integers.  \<open>nearest_double\<close> rounds a ratio to 53 bits, ties
  to even; the numbers here are far from the smallest and the largest double.
\<close>

function bit_length :: "int \<Rightarrow> int" where
  "bit_length n = (if n \<le> 0 then 0 else 1 + bit_length (n div 2))"
  by pat_completeness auto
termination by (relation "measure nat") auto

declare bit_length.simps [simp del]

definition round_even :: "int \<Rightarrow> int \<Rightarrow> int" where
  "round_even a b =
     (let q = a div b; r = a mod b in if b < 2 * r \<or> 2 * r = b \<and> odd q then q + 1 else q)"

definition nearest_double :: "int \<times> int \<Rightarrow> int \<times> int" where
  "nearest_double x =
     (case x of (n, d) \<Rightarrow>
       (let e = bit_length n - bit_length d - 53;
            e = (if 2 ^ 53 \<le> n * 2 ^ nat (- e) div (d * 2 ^ nat e) then e + 1 else e)
        in (round_even (n * 2 ^ nat (- e)) (d * 2 ^ nat e) * 2 ^ nat e, 2 ^ nat (- e))))"

text \<open>\<open>uint64(float64(f) * (float64(unit) / scale))\<close>.\<close>

definition fraction_of_unit :: "int \<Rightarrow> int \<Rightarrow> int \<Rightarrow> int" where
  "fraction_of_unit f unit scale =
     (case (nearest_double (f, 1), nearest_double (unit, scale)) of
        ((a, b), (c, d)) \<Rightarrow> (case nearest_double (a * c, b * d) of (p, q) \<Rightarrow> p div q))"

section \<open>The parser\<close>

definition digit_value :: "char \<Rightarrow> int" where
  "digit_value c = int (byte c - 48)"

fun leading_int :: "int \<Rightarrow> string \<Rightarrow> (int \<times> string) option" where
  "leading_int x [] = Some (x, [])"
| "leading_int x (c # s) =
     (if \<not> is_digit c then Some (x, c # s)
      else if 2 ^ 63 div 10 < x then None
      else let x = 10 * x + digit_value c in if 2 ^ 63 < x then None else leading_int x s)"

text \<open>The digits after the point; those beyond 63 bits are passed over.\<close>

fun leading_fraction :: "bool \<Rightarrow> int \<Rightarrow> int \<Rightarrow> string \<Rightarrow> int \<times> int \<times> string" where
  "leading_fraction overflow x scale [] = (x, scale, [])"
| "leading_fraction overflow x scale (c # s) =
     (if \<not> is_digit c then (x, scale, c # s)
      else if overflow \<or> (2 ^ 63 - 1) div 10 < x then leading_fraction True x scale s
      else let y = 10 * x + digit_value c
           in if 2 ^ 63 < y then leading_fraction True x scale s
              else leading_fraction False y (10 * scale) s)"

definition duration_units :: "(string \<times> int) list" where
  "duration_units =
     [(''ns'', 1), (''us'', 1000), ([CHR 0xC2, CHR 0xB5, CHR ''s''], 1000), ([CHR 0xCE, CHR 0xBC, CHR ''s''], 1000),
      (''ms'', 1000000), (''s'', 1000000000), (''m'', 60000000000), (''h'', 3600000000000)]"

text \<open>One number with its unit: the nanoseconds and the rest, None for the errors.\<close>

definition duration_part :: "string \<Rightarrow> (int \<times> string) option" where
  "duration_part s =
     (case leading_int 0 s of
        None \<Rightarrow> None
      | Some (v, s1) \<Rightarrow>
        (let pre = length s \<noteq> length s1;
             (f, scale, s2) = (if s1 \<noteq> [] \<and> hd s1 = CHR ''.'' then leading_fraction False 0 1 (tl s1) else (0, 1, s1));
             post = s1 \<noteq> [] \<and> hd s1 = CHR ''.'' \<and> length (tl s1) \<noteq> length s2;
             name = takeWhile (\<lambda>c. c \<noteq> CHR ''.'' \<and> \<not> is_digit c) s2;
             rest = dropWhile (\<lambda>c. c \<noteq> CHR ''.'' \<and> \<not> is_digit c) s2
         in if \<not> pre \<and> \<not> post \<or> name = [] then None
            else (case map_of duration_units name of
                    None \<Rightarrow> None
                  | Some unit \<Rightarrow>
                    (if 2 ^ 63 div unit < v then None
                     else let v = v * unit + (if 0 < f then fraction_of_unit f unit scale else 0)
                          in if 2 ^ 63 < v then None else Some (v, rest)))))"

lemma leading_int_length: "leading_int x s = Some (y, r) \<Longrightarrow> length r \<le> length s"
  by (induction x s rule: leading_int.induct) (auto simp: Let_def split: if_splits)

lemma leading_fraction_length: "leading_fraction v x k s = (y, z, r) \<Longrightarrow> length r \<le> length s"
  by (induction v x k s rule: leading_fraction.induct) (auto simp: Let_def split: if_splits)

lemma duration_part_shorter:
  assumes "duration_part s = Some (v, r)"
  shows "length r < length s"
proof -
  obtain w s1 where s1: "leading_int 0 s = Some (w, s1)"
    using assms by (auto simp: duration_part_def split: option.splits)
  obtain f k s2 where s2: "(if s1 \<noteq> [] \<and> hd s1 = CHR ''.'' then leading_fraction False 0 1 (tl s1) else (0, 1, s1)) = (f, k, s2)"
    by (metis prod.collapse)
  let ?p = "\<lambda>c. c \<noteq> CHR ''.'' \<and> \<not> is_digit c"
  have "takeWhile ?p s2 \<noteq> []" "r = dropWhile ?p s2"
    using assms s1 s2 by (auto simp: duration_part_def Let_def split: option.splits if_splits)
  then have "length r < length s2" by (cases s2) (auto simp: length_dropWhile_le less_Suc_eq_le split: if_splits)
  moreover have "length s2 \<le> length s1"
    using s2 leading_fraction_length [of False 0 1 "tl s1"] by (cases s1) (auto split: if_splits)
  moreover have "length s1 \<le> length s" using leading_int_length [OF s1] .
  ultimately show ?thesis by simp
qed

text \<open>The sum is kept in a \<open>uint64\<close>.\<close>

function duration_sum :: "int \<Rightarrow> string \<Rightarrow> int option" where
  "duration_sum d s =
     (if s = [] then Some d
      else if \<not> (hd s = CHR ''.'' \<or> is_digit (hd s)) then None
      else (case duration_part s of
              None \<Rightarrow> None
            | Some (v, rest) \<Rightarrow>
              (let d = (d + v) mod 2 ^ 64 in if 2 ^ 63 < d then None else duration_sum d rest)))"
  by pat_completeness auto
termination
  by (relation "measure (\<lambda>(d, s). length s)") (auto dest: duration_part_shorter)

declare duration_sum.simps [simp del]

definition parse_duration :: "string \<Rightarrow> int option" where
  "parse_duration s =
     (let neg = s \<noteq> [] \<and> hd s = CHR ''-'';
          s = (if s \<noteq> [] \<and> (hd s = CHR ''-'' \<or> hd s = CHR ''+'') then tl s else s)
      in if s = ''0'' then Some 0
         else if s = [] then None
         else (case duration_sum 0 s of
                 None \<Rightarrow> None
               | Some d \<Rightarrow> if neg then Some (- d) else if 2 ^ 63 - 1 < d then None else Some d))"

section \<open>What it yields\<close>

lemma duration_sum_range: "duration_sum d s = Some t \<Longrightarrow> 0 \<le> d \<Longrightarrow> d \<le> 2 ^ 63 \<Longrightarrow> 0 \<le> t \<and> t \<le> 2 ^ 63"
proof (induction d s arbitrary: t rule: duration_sum.induct)
  case (1 d s)
  show ?case
  proof (cases "s = []")
    case True
    with 1 show ?thesis by (simp add: duration_sum.simps)
  next
    case False
    with 1(2) obtain v rest where p: "duration_part s = Some (v, rest)" "hd s = CHR ''.'' \<or> is_digit (hd s)"
        "\<not> 2 ^ 63 < (d + v) mod 2 ^ 64" "duration_sum ((d + v) mod 2 ^ 64) rest = Some t"
      by (subst (asm) duration_sum.simps) (auto simp: Let_def split: if_splits option.splits)
    from 1(1) [OF False _ p(1) refl refl p(3,4)] p(2,3) show ?thesis by simp
  qed
qed

lemma parse_duration_range:
  assumes "parse_duration s = Some d"
  shows "- (2 ^ 63) \<le> d \<and> d < 2 ^ 63"
proof -
  have "0 \<le> t \<and> t \<le> 2 ^ 63" if "duration_sum 0 r = Some t" for r t
    using duration_sum_range [OF that] by simp
  with assms show ?thesis
    by (force simp: parse_duration_def Let_def split: if_splits option.splits)
qed

text \<open>A whole number of a unit is that many units, if it fits.\<close>

lemma digits_value_Cons_le: "foldl (\<lambda>n c. 10 * n + (byte c - 48)) y ds \<ge> y"
proof (induction ds arbitrary: y)
  case (Cons c ds)
  have "y \<le> 10 * y + (byte c - 48)" by simp
  with Cons [of "10 * y + (byte c - 48)"] show ?case by simp
qed simp

lemma leading_int_digits:
  assumes "list_all is_digit ds" and "s = [] \<or> \<not> is_digit (hd s)"
    and "foldl (\<lambda>n c. 10 * n + (byte c - 48)) x ds \<le> 2 ^ 63"
  shows "leading_int (int x) (ds @ s) = Some (int (foldl (\<lambda>n c. 10 * n + (byte c - 48)) x ds), s)"
  using assms
proof (induction ds arbitrary: x)
  case Nil
  then show ?case by (cases s) auto
next
  case (Cons c ds)
  let ?y = "10 * x + (byte c - 48)"
  have y: "?y \<le> 2 ^ 63" using Cons.prems(3) digits_value_Cons_le [of ?y ds] by simp
  have i: "10 * int x + digit_value c = int ?y" by (simp add: digit_value_def)
  have "int ?y \<le> 2 ^ 63" using y by (metis of_nat_le_iff of_nat_numeral of_nat_power)
  moreover from this have "int x \<le> 2 ^ 63 div 10" unfolding i [symmetric] by (simp add: digit_value_def)
  moreover have "leading_int (int ?y) (ds @ s) = Some (int (foldl (\<lambda>n c. 10 * n + (byte c - 48)) ?y ds), s)"
    using Cons.prems by (intro Cons.IH) auto
  ultimately show ?case using Cons.prems(1) by (simp add: Let_def i del: of_nat_add)
qed

lemma parse_duration_whole:
  assumes "(u, k) \<in> set duration_units" and "int n * k < 2 ^ 63"
  shows "parse_duration (nat_dec n @ u) = Some (int n * k)"
proof -
  have u: "u \<noteq> []" "\<forall>c \<in> set u. c \<noteq> CHR ''.'' \<and> \<not> is_digit c"
      "hd u \<noteq> CHR ''.''" "\<not> is_digit (hd u)" "1 \<le> k" "map_of duration_units u = Some k"
    using assms(1) by (auto simp: duration_units_def is_digit_def in_range_def byte_def)
  have "int n * 1 \<le> int n * k" using u(5) by (intro mult_left_mono) auto
  then have le: "int n < 2 ^ 63" using assms(2) by simp
  then have n: "n \<le> 2 ^ 63" by simp
  have fit: "int n \<le> 2 ^ 63 div k" using zdiv_mono1 [of "int n * k" "2 ^ 63" k] assms(2) u(5) by simp
  have "leading_int 0 (nat_dec n @ u) = Some (int n, u)"
    using leading_int_digits [OF nat_dec_digits, of u 0 n] u(4) n digits_value_nat_dec [of n]
    by (simp add: digits_value_def)
  then have part: "duration_part (nat_dec n @ u) = Some (int n * k, [])"
    using u(1,3,4,6) fit assms(2)
    by (simp add: duration_part_def Let_def takeWhile_eq_all_conv [THEN iffD2, OF u(2)]
        dropWhile_eq_Nil_conv [THEN iffD2, OF u(2)])
  obtain c ds where ds: "nat_dec n = c # ds" "is_digit c"
    using nat_dec_digits [of n] by (cases "nat_dec n") auto
  have "(int n * k) mod 2 ^ 64 = int n * k" using assms(2) u(5) by (intro mod_pos_pos_trivial) auto
  then have sum: "duration_sum 0 (nat_dec n @ u) = Some (int n * k)"
    using part ds assms(2) by (simp add: duration_sum.simps [of 0] duration_sum.simps [of _ "[]"] Let_def)
  have "c \<noteq> CHR ''-''" "c \<noteq> CHR ''+''" using ds(2) by (auto simp: is_digit_def in_range_def byte_def)
  moreover have "nat_dec n @ u \<noteq> ''0''" using ds u(1) by (cases ds) auto
  ultimately show ?thesis using sum ds(1) assms(2) u(1) by (auto simp: parse_duration_def Let_def)
qed

text \<open>Samples: a fraction, a sum of parts, a sign, and texts that are refused.\<close>

lemma duration_samples:
  "parse_duration ''1.5s'' = Some 1500000000" "parse_duration ''-1m0.25s'' = Some (- 60250000000)"
  "parse_duration ''5'' = None" "parse_duration ''.s'' = None"
  by code_simp+

end
