(* ===== verification/Go_Json.thy ===== *)
theory Go_Json
  imports Go_Strings
begin

text \<open>
  Dynamically typed Go values (\<open>any\<close>) as far as the SDK looks into them, and Go's JSON
  encoder on them.  The constructors are the cases of the SDK's type switches: a string, the
  two map types \<open>Fields\<close> and \<open>map[string]any\<close>, the slices \<open>[]any\<close>, \<open>[]string\<close> and
  \<open>[]Change\<close>; None is a nil map or slice.  A value of any other type is a \<open>GOther\<close>: the code
  only hands it to \<open>json.Marshal\<close>, so it is its type's name and what the encoder makes of it
  (None where \<open>Marshal\<close> returns an error, as for a channel or a NaN).  A map is an
  association list in the order a range loop visits it, which Go leaves open.
\<close>

datatype gval =
    GNil
  | GBool bool
  | GInt int
  | GStr string
  | GFields "(string \<times> gval) list option"
  | GMap "(string \<times> gval) list option"
  | GSlice "gval list option"
  | GStrings "string list option"
  | GChanges "change list option"
  | GOther string "string option"
and change = Change (chField: string) (chOld: gval) (chNew: gval)

type_synonym entries = "(string \<times> gval) list"
type_synonym fields = "entries option"

text \<open>Every entry's key once: what a Go map is.\<close>

definition entries_ok :: "('k \<times> 'v) list \<Rightarrow> bool" where
  "entries_ok kvs \<longleftrightarrow> distinct (map fst kvs)"

abbreviation entries_of :: "'a list option \<Rightarrow> 'a list" where
  "entries_of m \<equiv> (case m of None \<Rightarrow> [] | Some kvs \<Rightarrow> kvs)"

text \<open>\<open>m[k] = v\<close>: in place when the key is there, else a new entry.\<close>

fun entry_set :: "'k \<Rightarrow> 'v \<Rightarrow> ('k \<times> 'v) list \<Rightarrow> ('k \<times> 'v) list" where
  "entry_set k v [] = [(k, v)]"
| "entry_set k v ((k', v') # kvs) = (if k' = k then (k, v) # kvs else (k', v') # entry_set k v kvs)"

lemma map_of_entry_set: "map_of (entry_set k v kvs) = (map_of kvs)(k \<mapsto> v)"
  by (induction k v kvs rule: entry_set.induct) auto

lemma keys_entry_set: "fst ` set (entry_set k v kvs) = insert k (fst ` set kvs)"
  by (induction k v kvs rule: entry_set.induct) auto

lemma entries_ok_entry_set: "entries_ok kvs \<Longrightarrow> entries_ok (entry_set k v kvs)"
proof (induction k v kvs rule: entry_set.induct)
  case (2 k v k' v' kvs)
  then show ?case
    using keys_entry_set [of k v kvs] by (auto simp: entries_ok_def)
qed (simp add: entries_ok_def)

lemma entry_set_same: "entry_set k v (entry_set k w kvs) = entry_set k v kvs"
  by (induction k w kvs rule: entry_set.induct) auto

lemma filter_entry_set: "filter (\<lambda>(f, _). f \<noteq> k) (entry_set k v kvs) = filter (\<lambda>(f, _). f \<noteq> k) kvs"
  by (induction k v kvs rule: entry_set.induct) auto

lemma entry_set_fresh: "k \<notin> fst ` set kvs \<Longrightarrow> entry_set k v kvs = kvs @ [(k, v)]"
  by (induction k v kvs rule: entry_set.induct) auto

lemma filter_fresh: "k \<notin> fst ` set kvs \<Longrightarrow> filter (\<lambda>(f, _). f \<noteq> k) kvs = kvs"
  by (induction kvs) auto

section \<open>Strings\<close>

definition hex_digit :: "nat \<Rightarrow> char" where
  "hex_digit n = (if n < 10 then char_of (48 + n) else char_of (87 + n))"

definition backslash :: char where
  "backslash = CHR 0x5C"

definition u_escape :: "string \<Rightarrow> string" where
  "u_escape h = backslash # CHR ''u'' # h"

text \<open>
  One byte below 0x80: the two-character escapes, the unicode escapes of the other
  control characters and of the HTML characters, and every other byte as it is.
\<close>

definition json_ascii :: "char \<Rightarrow> string" where
  "json_ascii c =
     (if c = CHR 0x22 \<or> c = backslash then [backslash, c]
      else if byte c = 8 then [backslash, CHR ''b'']
      else if byte c = 12 then [backslash, CHR ''f'']
      else if byte c = 10 then [backslash, CHR ''n'']
      else if byte c = 13 then [backslash, CHR ''r'']
      else if byte c = 9 then [backslash, CHR ''t'']
      else if byte c < 32 \<or> c = CHR ''<'' \<or> c = CHR ''>'' \<or> c = CHR ''&''
      then u_escape [CHR ''0'', CHR ''0'', hex_digit (byte c div 16), hex_digit (byte c mod 16)]
      else [c])"

definition json_rune :: "string \<Rightarrow> string" where
  "json_rune r =
     (case r of
        [c] \<Rightarrow> json_ascii c
      | _ \<Rightarrow> if r = [CHR 0xE2, CHR 0x80, CHR 0xA8] then u_escape ''2028''
            else if r = [CHR 0xE2, CHR 0x80, CHR 0xA9] then u_escape ''2029''
            else r)"

function json_chars :: "string \<Rightarrow> string" where
  "json_chars s =
     (if s = [] then []
      else case utf8_width s of
          None \<Rightarrow> u_escape ''fffd'' @ json_chars (tl s)
        | Some n \<Rightarrow> json_rune (take n s) @ json_chars (drop n s))"
  by pat_completeness auto
termination
  by (relation "measure length") (auto dest: utf8_width_bounds)

declare json_chars.simps [simp del]

definition json_string :: "string \<Rightarrow> string" where
  "json_string s = CHR 0x22 # json_chars s @ [CHR 0x22]"

section \<open>Values\<close>

definition json_bool :: "bool \<Rightarrow> string" where
  "json_bool b = (if b then ''true'' else ''false'')"

definition json_array :: "string list \<Rightarrow> string" where
  "json_array xs = CHR ''['' # join '','' xs @ '']''"

definition json_member :: "string \<times> string \<Rightarrow> string" where
  "json_member m = json_string (fst m) @ CHR '':'' # snd m"

definition json_object :: "(string \<times> string) list \<Rightarrow> string" where
  "json_object ms = CHR ''{'' # join '','' (map json_member ms) @ ''}''"

text \<open>Map keys are written in ascending byte order.\<close>

definition json_map :: "(string \<times> string) list \<Rightarrow> string" where
  "json_map ms = json_object (sort_key fst ms)"

abbreviation json_null :: string where
  "json_null \<equiv> ''null''"

fun json_val :: "gval \<Rightarrow> string option"
  and json_vals :: "gval list \<Rightarrow> string list option"
  and json_entries :: "entries \<Rightarrow> (string \<times> string) list option"
  and json_changes :: "change list \<Rightarrow> string list option"
where
  "json_val GNil = Some json_null"
| "json_val (GBool b) = Some (json_bool b)"
| "json_val (GInt i) = Some (int_dec i)"
| "json_val (GStr s) = Some (json_string s)"
| "json_val (GFields None) = Some json_null"
| "json_val (GFields (Some kvs)) = map_option json_map (json_entries kvs)"
| "json_val (GMap None) = Some json_null"
| "json_val (GMap (Some kvs)) = map_option json_map (json_entries kvs)"
| "json_val (GSlice None) = Some json_null"
| "json_val (GSlice (Some vs)) = map_option json_array (json_vals vs)"
| "json_val (GStrings None) = Some json_null"
| "json_val (GStrings (Some ss)) = Some (json_array (map json_string ss))"
| "json_val (GChanges None) = Some json_null"
| "json_val (GChanges (Some cs)) = map_option json_array (json_changes cs)"
| "json_val (GOther ty enc) = enc"
| "json_vals [] = Some []"
| "json_vals (v # vs) =
     (case json_val v of None \<Rightarrow> None | Some t \<Rightarrow> map_option ((#) t) (json_vals vs))"
| "json_entries [] = Some []"
| "json_entries ((k, v) # kvs) =
     (case json_val v of None \<Rightarrow> None | Some t \<Rightarrow> map_option ((#) (k, t)) (json_entries kvs))"
| "json_changes [] = Some []"
| "json_changes (Change f x y # cs) =
     (case json_val x of
        None \<Rightarrow> None
      | Some tx \<Rightarrow>
        (case json_val y of
           None \<Rightarrow> None
         | Some ty \<Rightarrow>
             map_option
               ((#) (json_object [(''field'', json_string f), (''old_value'', tx), (''new_value'', ty)]))
               (json_changes cs)))"

end
