(* ===== verification/Events.thy ===== *)
theory Events
  imports Go_Json
begin

text \<open>
  The data model of \<open>logcenter/types.go\<close> and \<open>logcenter/context.go\<close>: the constants, the
  event record with its JSON encoding, and the request context a \<open>context.Context\<close> carries.
  Record fields keep the source's names behind a prefix for their struct.
\<close>

section \<open>Constants\<close>

definition EventTypeRequestStarted :: string where "EventTypeRequestStarted = ''request_started''"
definition EventTypeRequestFinished :: string where "EventTypeRequestFinished = ''request_finished''"
definition EventTypeSpan :: string where "EventTypeSpan = ''span''"
definition EventTypeLogEvent :: string where "EventTypeLogEvent = ''log_event''"
definition EventTypeErrorEvent :: string where "EventTypeErrorEvent = ''error_event''"
definition EventTypeAuditEvent :: string where "EventTypeAuditEvent = ''audit_event''"
definition EventTypeExternalProviderExchange :: string where
  "EventTypeExternalProviderExchange = ''external_provider_exchange''"
definition EventTypeFiscalProviderExchange :: string where
  "EventTypeFiscalProviderExchange = ''fiscal_provider_exchange''"

definition LevelDebug :: string where "LevelDebug = ''debug''"
definition LevelInfo :: string where "LevelInfo = ''info''"
definition LevelWarn :: string where "LevelWarn = ''warn''"
definition LevelError :: string where "LevelError = ''error''"
definition LevelFatal :: string where "LevelFatal = ''fatal''"

definition StatusStarted :: string where "StatusStarted = ''started''"
definition StatusSuccess :: string where "StatusSuccess = ''success''"
definition StatusFailed :: string where "StatusFailed = ''failed''"
definition StatusTimeout :: string where "StatusTimeout = ''timeout''"
definition StatusCanceled :: string where "StatusCanceled = ''canceled''"
definition StatusIgnored :: string where "StatusIgnored = ''ignored''"
definition StatusRetrying :: string where "StatusRetrying = ''retrying''"

definition SeverityError :: string where "SeverityError = ''error''"

definition ClassificationOperational :: string where "ClassificationOperational = ''operational''"
definition ClassificationSecurity :: string where "ClassificationSecurity = ''security''"
definition ClassificationAudit :: string where "ClassificationAudit = ''audit''"
definition ClassificationCritical :: string where "ClassificationCritical = ''critical''"
definition ClassificationPrivacy :: string where "ClassificationPrivacy = ''privacy''"

definition RetentionHintDefault :: string where "RetentionHintDefault = ''default''"
definition RetentionHintShort :: string where "RetentionHintShort = ''short''"
definition RetentionHintStandard :: string where "RetentionHintStandard = ''standard''"
definition RetentionHintLong :: string where "RetentionHintLong = ''long''"
definition RetentionHintAudit :: string where "RetentionHintAudit = ''audit''"
definition RetentionHintPrivacy :: string where "RetentionHintPrivacy = ''privacy''"

lemmas event_type_defs =
  EventTypeRequestStarted_def EventTypeRequestFinished_def EventTypeSpan_def
  EventTypeLogEvent_def EventTypeErrorEvent_def EventTypeAuditEvent_def
  EventTypeExternalProviderExchange_def EventTypeFiscalProviderExchange_def

lemmas level_defs = LevelDebug_def LevelInfo_def LevelWarn_def LevelError_def LevelFatal_def

lemmas status_defs =
  StatusStarted_def StatusSuccess_def StatusFailed_def StatusTimeout_def StatusCanceled_def
  StatusIgnored_def StatusRetrying_def

section \<open>Events\<close>

text \<open>A nil pointer (\<open>HTTPStatus\<close>, \<open>DurationMS\<close>) is None, a nil interface is \<open>GNil\<close>.\<close>

record event =
  ev_EventID :: string
  ev_IdempotencyKey :: string
  ev_EventType :: string
  ev_OccurredAt :: string
  ev_Environment :: string
  ev_Service :: string
  ev_ServiceVersion :: string
  ev_Classification :: string
  ev_RetentionHint :: string
  ev_RequestID :: string
  ev_TraceID :: string
  ev_SpanID :: string
  ev_ParentSpanID :: string
  ev_UserID :: string
  ev_TenantID :: string
  ev_Operation :: string
  ev_Status :: string
  ev_Method :: string
  ev_Path :: string
  ev_RouteTemplate :: string
  ev_Kind :: string
  ev_Name :: string
  ev_Level :: string
  ev_Message :: string
  ev_ErrorCode :: string
  ev_ErrorMessage :: string
  ev_ErrorType :: string
  ev_Severity :: string
  ev_Fingerprint :: string
  ev_StackTrace :: string
  ev_HTTPStatus :: "int option"
  ev_DurationMS :: "int option"
  ev_StartedAt :: string
  ev_FinishedAt :: string
  ev_ActorType :: string
  ev_ActorID :: string
  ev_Action :: string
  ev_EntityType :: string
  ev_EntityID :: string
  ev_FieldName :: string
  ev_Changes :: gval
  ev_OldValue :: gval
  ev_NewValue :: gval
  ev_Reason :: string
  ev_Metadata :: fields
  ev_Data :: fields

text \<open>Go's zero value \<open>Event{}\<close>.\<close>

definition empty_event :: event where
  "empty_event = \<lparr>
     ev_EventID = [],
     ev_IdempotencyKey = [],
     ev_EventType = [],
     ev_OccurredAt = [],
     ev_Environment = [],
     ev_Service = [],
     ev_ServiceVersion = [],
     ev_Classification = [],
     ev_RetentionHint = [],
     ev_RequestID = [],
     ev_TraceID = [],
     ev_SpanID = [],
     ev_ParentSpanID = [],
     ev_UserID = [],
     ev_TenantID = [],
     ev_Operation = [],
     ev_Status = [],
     ev_Method = [],
     ev_Path = [],
     ev_RouteTemplate = [],
     ev_Kind = [],
     ev_Name = [],
     ev_Level = [],
     ev_Message = [],
     ev_ErrorCode = [],
     ev_ErrorMessage = [],
     ev_ErrorType = [],
     ev_Severity = [],
     ev_Fingerprint = [],
     ev_StackTrace = [],
     ev_HTTPStatus = None,
     ev_DurationMS = None,
     ev_StartedAt = [],
     ev_FinishedAt = [],
     ev_ActorType = [],
     ev_ActorID = [],
     ev_Action = [],
     ev_EntityType = [],
     ev_EntityID = [],
     ev_FieldName = [],
     ev_Changes = GNil,
     ev_OldValue = GNil,
     ev_NewValue = GNil,
     ev_Reason = [],
     ev_Metadata = None,
     ev_Data = None\<rparr>"

subsection \<open>JSON\<close>

text \<open>
  \<open>json.Marshal(event)\<close>: the members in the struct's order; \<open>omitempty\<close> leaves out empty
  strings, nil pointers, nil interfaces and empty maps.
\<close>

definition str_member :: "string \<Rightarrow> string \<Rightarrow> (string \<times> string) list option" where
  "str_member k s = Some [(k, json_string s)]"

definition opt_str_member :: "string \<Rightarrow> string \<Rightarrow> (string \<times> string) list option" where
  "opt_str_member k s = Some (if s = [] then [] else [(k, json_string s)])"

definition opt_int_member :: "string \<Rightarrow> int option \<Rightarrow> (string \<times> string) list option" where
  "opt_int_member k p = Some (case p of None \<Rightarrow> [] | Some i \<Rightarrow> [(k, int_dec i)])"

definition opt_any_member :: "string \<Rightarrow> gval \<Rightarrow> (string \<times> string) list option" where
  "opt_any_member k v =
     (if v = GNil then Some [] else map_option (\<lambda>t. [(k, t)]) (json_val v))"

definition opt_fields_member :: "string \<Rightarrow> fields \<Rightarrow> (string \<times> string) list option" where
  "opt_fields_member k m =
     (if entries_of m = [] then Some [] else map_option (\<lambda>t. [(k, t)]) (json_val (GFields m)))"

definition event_members :: "event \<Rightarrow> (string \<times> string) list option list" where
  "event_members e =
    [str_member ''event_id'' (ev_EventID e),
     opt_str_member ''idempotency_key'' (ev_IdempotencyKey e),
     str_member ''event_type'' (ev_EventType e),
     str_member ''occurred_at'' (ev_OccurredAt e),
     str_member ''environment'' (ev_Environment e),
     str_member ''service'' (ev_Service e),
     opt_str_member ''service_version'' (ev_ServiceVersion e),
     opt_str_member ''classification'' (ev_Classification e),
     opt_str_member ''retention_hint'' (ev_RetentionHint e),
     opt_str_member ''request_id'' (ev_RequestID e),
     opt_str_member ''trace_id'' (ev_TraceID e),
     opt_str_member ''span_id'' (ev_SpanID e),
     opt_str_member ''parent_span_id'' (ev_ParentSpanID e),
     opt_str_member ''user_id'' (ev_UserID e),
     opt_str_member ''tenant_id'' (ev_TenantID e),
     opt_str_member ''operation'' (ev_Operation e),
     opt_str_member ''status'' (ev_Status e),
     opt_str_member ''method'' (ev_Method e),
     opt_str_member ''path'' (ev_Path e),
     opt_str_member ''route_template'' (ev_RouteTemplate e),
     opt_str_member ''kind'' (ev_Kind e),
     opt_str_member ''name'' (ev_Name e),
     opt_str_member ''level'' (ev_Level e),
     opt_str_member ''message'' (ev_Message e),
     opt_str_member ''error_code'' (ev_ErrorCode e),
     opt_str_member ''error_message'' (ev_ErrorMessage e),
     opt_str_member ''error_type'' (ev_ErrorType e),
     opt_str_member ''severity'' (ev_Severity e),
     opt_str_member ''fingerprint'' (ev_Fingerprint e),
     opt_str_member ''stack_trace'' (ev_StackTrace e),
     opt_int_member ''http_status'' (ev_HTTPStatus e),
     opt_int_member ''duration_ms'' (ev_DurationMS e),
     opt_str_member ''started_at'' (ev_StartedAt e),
     opt_str_member ''finished_at'' (ev_FinishedAt e),
     opt_str_member ''actor_type'' (ev_ActorType e),
     opt_str_member ''actor_id'' (ev_ActorID e),
     opt_str_member ''action'' (ev_Action e),
     opt_str_member ''entity_type'' (ev_EntityType e),
     opt_str_member ''entity_id'' (ev_EntityID e),
     opt_str_member ''field_name'' (ev_FieldName e),
     opt_any_member ''changes'' (ev_Changes e),
     opt_any_member ''old_value'' (ev_OldValue e),
     opt_any_member ''new_value'' (ev_NewValue e),
     opt_str_member ''reason'' (ev_Reason e),
     opt_fields_member ''metadata'' (ev_Metadata e),
     opt_fields_member ''data'' (ev_Data e)]"

definition json_event :: "event \<Rightarrow> string option" where
  "json_event e = map_option (\<lambda>ms. json_object (concat ms)) (those (event_members e))"

end
