(* ===== verification/Json_Text.thy ===== *)
theory Json_Text
  imports Events
begin

text \<open>
  What the JSON encoder writes contains no byte below 0x20: control characters are escaped inside
  strings and nothing else produces one.  So an encoded event never contains a line end, which is
  what the outbox and its scanner rely on.
\<close>

section \<open>The text of a value is one line\<close>

definition printable :: "string \<Rightarrow> bool" where
  "printable s \<longleftrightarrow> (\<forall>c \<in> set s. 32 \<le> byte c)"

lemma printable_simps [simp]:
  "printable []" "printable (c # s) \<longleftrightarrow> 32 \<le> byte c \<and> printable s"
  "printable (s @ t) \<longleftrightarrow> printable s \<and> printable t"
  by (auto simp: printable_def)

lemma byte_of_char [simp]: "byte (char_of n) = n mod 256"
  by (simp add: byte_def)

lemma byte_Char [simp]: "byte (Char b0 b1 b2 b3 b4 b5 b6 b7) = of_char (Char b0 b1 b2 b3 b4 b5 b6 b7)"
  by (simp add: byte_def)

lemma utf8_width_high:
  assumes "utf8_width s = Some n" and "n \<noteq> 1"
  shows "\<forall>c \<in> set (take n s). 128 \<le> byte c"
proof -
  consider (two) b0 b1 r where "s = b0 # b1 # r" "n = 2" "in_range 194 223 b0" "cont_byte b1"
    | (three) b0 b1 b2 r where "s = b0 # b1 # b2 # r" "n = 3" "in_range 224 239 b0" "cont_byte b2"
        "in_range (if byte b0 = 224 then 160 else 128) (if byte b0 = 237 then 159 else 191) b1"
    | (four) b0 b1 b2 b3 r where "s = b0 # b1 # b2 # b3 # r" "n = 4" "in_range 240 244 b0"
        "cont_byte b2" "cont_byte b3"
        "in_range (if byte b0 = 240 then 144 else 128) (if byte b0 = 244 then 143 else 191) b1"
    using assms unfolding utf8_width_def
    by (simp split: list.splits if_split_asm split del: if_split)
  then show ?thesis
    by cases (auto simp: in_range_def cont_byte_def numeral_3_eq_3 split: if_split_asm)
qed

lemma hex_digit_printable: "n < 16 \<Longrightarrow> 32 \<le> byte (hex_digit n)"
  by (simp add: hex_digit_def)

lemma byte_less: "byte c < 256"
proof -
  have "(of_char c :: nat) mod 256 < 256" by simp
  then show ?thesis by (simp only: byte_def of_char_mod_256)
qed

lemma json_ascii_printable: "printable (json_ascii c)"
proof -
  have "byte c div 16 < 16" using byte_less [of c] by simp
  then show ?thesis
    by (simp add: json_ascii_def u_escape_def backslash_def hex_digit_printable)
qed

lemma json_rune_printable:
  assumes "utf8_width s = Some n"
  shows "printable (json_rune (take n s))"
proof (cases "n = 1")
  case True
  then obtain c where "take n s = [c]"
    using utf8_width_bounds [OF assms] by (cases s) auto
  then show ?thesis by (simp add: json_rune_def json_ascii_printable)
next
  case False
  have "printable (take n s)" using utf8_width_high [OF assms False] by (auto simp: printable_def)
  moreover have "\<nexists>c. take n s = [c]"
    using utf8_width_bounds [OF assms] False by (auto simp: take_Suc_conv_app_nth dest: arg_cong [of _ _ length])
  ultimately show ?thesis
    by (auto simp: json_rune_def u_escape_def backslash_def split: list.split)
qed

lemma json_chars_printable: "printable (json_chars s)"
proof (induction s rule: json_chars.induct)
  case (1 s)
  then show ?case
    by (subst json_chars.simps) (auto simp: u_escape_def backslash_def json_rune_printable split: option.split)
qed

lemma json_string_printable: "printable (json_string s)"
  by (simp add: json_string_def json_chars_printable)

lemma nat_dec_printable: "printable (nat_dec n)"
  using nat_dec_digits [of n] by (auto simp: printable_def list_all_iff is_digit_def in_range_def)

lemma int_dec_printable: "printable (int_dec i)"
  by (simp add: int_dec_def nat_dec_printable)

lemma join_printable: "printable sep \<Longrightarrow> \<forall>x \<in> set xs. printable x \<Longrightarrow> printable (join sep xs)"
  by (induction sep xs rule: join.induct) auto

lemma json_array_printable: "\<forall>x \<in> set xs. printable x \<Longrightarrow> printable (json_array xs)"
  by (simp add: json_array_def join_printable)

definition members_printable :: "(string \<times> string) list \<Rightarrow> bool" where
  "members_printable ms \<longleftrightarrow> list_all printable (map snd ms)"

lemma members_printable_simps [simp]:
  "members_printable []"
  "members_printable ((k, t) # ms) \<longleftrightarrow> printable t \<and> members_printable ms"
  by (simp_all add: members_printable_def)

lemma json_object_printable:
  assumes "members_printable ms"
  shows "printable (json_object ms)"
proof -
  have "printable (join '','' (map json_member ms))"
    using assms
  proof (intro join_printable, goal_cases)
    case 2
    then show ?case
      by (induction ms) (auto simp: json_member_def json_string_printable members_printable_def)
  qed simp
  then show ?thesis by (simp add: json_object_def)
qed

lemma json_map_printable: "members_printable ms \<Longrightarrow> printable (json_map ms)"
proof -
  have "set (map snd (sort_key fst ms)) = set (map snd ms)" by simp
  then show "members_printable ms \<Longrightarrow> ?thesis"
    unfolding json_map_def members_printable_def list_all_iff
    by (intro json_object_printable) (simp only: members_printable_def list_all_iff)
qed

text \<open>What the encoder makes of values of other types contains no control characters either.\<close>

fun others_printable :: "gval \<Rightarrow> bool"
  and all_others_printable :: "gval list \<Rightarrow> bool"
  and entries_others_printable :: "entries \<Rightarrow> bool"
  and changes_others_printable :: "change list \<Rightarrow> bool"
where
  "others_printable (GOther ty enc) = (case enc of None \<Rightarrow> True | Some t \<Rightarrow> printable t)"
| "others_printable (GFields m) = (case m of None \<Rightarrow> True | Some kvs \<Rightarrow> entries_others_printable kvs)"
| "others_printable (GMap m) = (case m of None \<Rightarrow> True | Some kvs \<Rightarrow> entries_others_printable kvs)"
| "others_printable (GSlice m) = (case m of None \<Rightarrow> True | Some vs \<Rightarrow> all_others_printable vs)"
| "others_printable (GChanges m) = (case m of None \<Rightarrow> True | Some cs \<Rightarrow> changes_others_printable cs)"
| "others_printable _ = True"
| "all_others_printable [] = True"
| "all_others_printable (v # vs) = (others_printable v \<and> all_others_printable vs)"
| "entries_others_printable [] = True"
| "entries_others_printable ((k, v) # kvs) = (others_printable v \<and> entries_others_printable kvs)"
| "changes_others_printable [] = True"
| "changes_others_printable (Change f x y # cs) =
     (others_printable x \<and> others_printable y \<and> changes_others_printable cs)"

lemma json_printable:
  shows "others_printable v \<Longrightarrow> json_val v = Some t \<Longrightarrow> printable t"
    and "all_others_printable vs \<Longrightarrow> json_vals vs = Some ts \<Longrightarrow> \<forall>x \<in> set ts. printable x"
    and "entries_others_printable kvs \<Longrightarrow> json_entries kvs = Some ms \<Longrightarrow> members_printable ms"
    and "changes_others_printable cs \<Longrightarrow> json_changes cs = Some ts \<Longrightarrow> \<forall>x \<in> set ts. printable x"
  by (induction v and vs and kvs and cs arbitrary: t and ts and ms and ts
      rule: json_val_json_vals_json_entries_json_changes.induct)
    (auto simp: json_bool_def int_dec_printable json_string_printable intro!: json_map_printable json_array_printable
      json_object_printable split: option.splits)


lemma event_members_printable:
  assumes "\<forall>v \<in> {ev_Changes e, ev_OldValue e, ev_NewValue e, GFields (ev_Metadata e), GFields (ev_Data e)}.
      others_printable v"
    and "Some ms \<in> set (event_members e)"
  shows "members_printable ms"
proof -
  have any: "opt_any_member k v = Some ms \<Longrightarrow> others_printable v \<Longrightarrow> members_printable ms" for k v
    by (auto simp: opt_any_member_def json_printable split: if_splits)
  have flds: "opt_fields_member k m = Some ms \<Longrightarrow> others_printable (GFields m) \<Longrightarrow> members_printable ms" for k m
    unfolding opt_fields_member_def using json_printable(1) [of "GFields m"]
    by (auto simp del: json_val.simps others_printable.simps split: if_split_asm)
  have str: "str_member k v = Some ms \<Longrightarrow> members_printable ms"
    "opt_str_member k v = Some ms \<Longrightarrow> members_printable ms" for k v
    by (auto simp: str_member_def opt_str_member_def json_string_printable split: if_splits)
  have int: "opt_int_member k p = Some ms \<Longrightarrow> members_printable ms" for k p
    by (auto simp: opt_int_member_def int_dec_printable split: option.splits)
  show ?thesis
    using assms unfolding event_members_def
    by (auto simp del: others_printable.simps dest!: sym [of "Some ms"] dest: any flds str int)
qed

lemma those_member: "those xs = Some ys \<Longrightarrow> y \<in> set ys \<Longrightarrow> Some y \<in> set xs"
  by (induction xs arbitrary: ys) (auto split: option.splits)

lemma json_event_printable:
  assumes "\<forall>v \<in> {ev_Changes e, ev_OldValue e, ev_NewValue e, GFields (ev_Metadata e), GFields (ev_Data e)}.
      others_printable v" and "json_event e = Some t"
  shows "printable t"
proof -
  obtain ms where ms: "those (event_members e) = Some ms" "t = json_object (concat ms)"
    using assms(2) by (auto simp: json_event_def)
  have "members_printable m" if "m \<in> set ms" for m
    using event_members_printable [OF assms(1) those_member [OF ms(1) that]] .
  then have "members_printable (concat ms)" by (auto simp: members_printable_def list_all_iff)
  then show ?thesis unfolding ms(2) by (rule json_object_printable)
qed

end
