(* ===== verification/Json_Parse.thy ===== *)
theory Json_Parse
  imports Json_Text
begin

text \<open>
  The reading half of Go's \<open>encoding/json\<close>: the scanner, a pushdown automaton with a bound on
  its nesting, and the unquoting of strings.  \<open>json_run\<close> reads one value from the front of a text and
  returns the rest, as \<open>Decoder.Decode\<close> does; \<open>json_parse\<close> wants the whole text to be one value, as
  \<open>Unmarshal\<close> and \<open>Valid\<close> do.  Last, that it reads back what the encoder of \<open>Go_Json\<close> writes.
\<close>

datatype json =
    JNull
  | JBool bool
  | JNum string
  | JStr string
  | JArr "json list"
  | JObj "(string \<times> json) list"

section \<open>Strings\<close>

definition encode_rune :: "nat \<Rightarrow> string" where
  "encode_rune n =
     (if n < 128 then [char_of n]
      else if n < 2048 then [char_of (192 + n div 64), char_of (128 + n mod 64)]
      else if 55296 \<le> n \<and> n < 57344 \<or> 1114112 \<le> n then replacement_rune
      else if n < 65536
      then [char_of (224 + n div 4096), char_of (128 + n div 64 mod 64), char_of (128 + n mod 64)]
      else [char_of (240 + n div 262144), char_of (128 + n div 4096 mod 64),
        char_of (128 + n div 64 mod 64), char_of (128 + n mod 64)])"

definition hex_value :: "char \<Rightarrow> nat option" where
  "hex_value c =
     (if in_range 48 57 c then Some (byte c - 48)
      else if in_range 97 102 c then Some (byte c - 87)
      else if in_range 65 70 c then Some (byte c - 55)
      else None)"

fun hex4 :: "string \<Rightarrow> (nat \<times> string) option" where
  "hex4 (a # b # c # d # r) =
     (case (hex_value a, hex_value b, hex_value c, hex_value d) of
        (Some w, Some x, Some y, Some z) \<Rightarrow> Some (((w * 16 + x) * 16 + y) * 16 + z, r)
      | _ \<Rightarrow> None)"
| "hex4 _ = None"

lemma hex4_shorter: "hex4 s = Some (n, r) \<Longrightarrow> length r < length s"
  by (induction s rule: hex4.induct) (auto split: option.splits)

text \<open>A surrogate with its other half after it is one rune; alone it is U+FFFD.\<close>

definition second_half :: "string \<Rightarrow> (nat \<times> string) option" where
  "second_half s = (case s of b # u # r \<Rightarrow> if b = backslash \<and> u = CHR ''u'' then hex4 r else None | _ \<Rightarrow> None)"

definition code_unit :: "nat \<Rightarrow> string \<Rightarrow> nat \<times> string" where
  "code_unit u s =
     (if u < 55296 \<or> 57344 \<le> u then (u, s)
      else case second_half s of
          Some (v, r) \<Rightarrow>
            if u < 56320 \<and> 56320 \<le> v \<and> v < 57344 then ((u - 55296) * 1024 + (v - 56320) + 65536, r)
            else (65533, s)
        | None \<Rightarrow> (65533, s))"

lemma code_unit_length: "length (snd (code_unit u s)) \<le> length s"
  by (auto simp: code_unit_def second_half_def dest!: hex4_shorter split: option.split list.split)

abbreviation dquote :: char where
  "dquote \<equiv> CHR 0x22"

definition escaped_char :: "char \<Rightarrow> char option" where
  "escaped_char e =
     (if e = dquote \<or> e = backslash \<or> e = CHR ''/'' then Some e
      else if e = CHR ''b'' then Some (CHR 0x08)
      else if e = CHR ''f'' then Some (CHR 0x0C)
      else if e = CHR ''n'' then Some (CHR 0x0A)
      else if e = CHR ''r'' then Some (CHR 0x0D)
      else if e = CHR ''t'' then Some (CHR 0x09)
      else None)"

text \<open>The text between the quotes; a byte outside a well-formed sequence becomes U+FFFD.\<close>

function unquote :: "string \<Rightarrow> string option" where
  "unquote s =
     (case s of
        [] \<Rightarrow> Some []
      | c # r \<Rightarrow>
        (if c = backslash
         then (case r of
                 [] \<Rightarrow> None
               | e # r \<Rightarrow>
                 (if e = CHR ''u''
                  then (case hex4 r of
                          None \<Rightarrow> None
                        | Some (u, r) \<Rightarrow>
                            let p = code_unit u r in map_option ((@) (encode_rune (fst p))) (unquote (snd p)))
                  else (case escaped_char e of
                          None \<Rightarrow> None
                        | Some x \<Rightarrow> map_option ((#) x) (unquote r))))
         else if c = dquote \<or> byte c < 32 then None
         else (case utf8_width s of
                 None \<Rightarrow> map_option ((@) replacement_rune) (unquote r)
               | Some n \<Rightarrow> map_option ((@) (take n s)) (unquote (drop n s)))))"
  by pat_completeness auto
termination
  by (relation "measure length")
    (auto dest!: hex4_shorter utf8_width_bounds intro: le_less_trans [OF code_unit_length])

declare unquote.simps [simp del]

text \<open>Where the string ends: at the first quote that no backslash precedes.\<close>

fun string_body :: "string \<Rightarrow> (string \<times> string) option" where
  "string_body [] = None"
| "string_body (c # s) =
     (if c = dquote then Some ([], s)
      else if byte c < 32 then None
      else if c = backslash
      then (case s of
              [] \<Rightarrow> None
            | e # r \<Rightarrow> map_option (\<lambda>p. (c # e # fst p, snd p)) (string_body r))
      else map_option (\<lambda>p. (c # fst p, snd p)) (string_body s))"

lemma string_body_shorter: "string_body s = Some (b, r) \<Longrightarrow> length r < length s"
  by (induction s arbitrary: b r rule: string_body.induct) (auto split: if_splits list.splits, force+)

lemma string_body_append: "string_body s = Some (b, r) \<Longrightarrow> string_body (s @ t) = Some (b, r @ t)"
  by (induction s arbitrary: b r rule: string_body.induct) (auto split: if_splits list.splits)

section \<open>Numbers\<close>

definition digits_of :: "string \<Rightarrow> string" where
  "digits_of = takeWhile is_digit"

definition after_digits :: "string \<Rightarrow> string" where
  "after_digits = dropWhile is_digit"

definition scan_int :: "string \<Rightarrow> (string \<times> string) option" where
  "scan_int s =
     (case s of
        [] \<Rightarrow> None
      | c # r \<Rightarrow>
        (if c = CHR ''0'' then Some ([c], r)
         else if is_digit c then Some (digits_of s, after_digits s)
         else None))"

definition scan_fraction :: "string \<Rightarrow> (string \<times> string) option" where
  "scan_fraction s =
     (case s of
        [] \<Rightarrow> Some ([], [])
      | c # r \<Rightarrow>
        (if c \<noteq> CHR ''.'' then Some ([], s)
         else if digits_of r = [] then None
         else Some (c # digits_of r, after_digits r)))"

definition split_sign :: "string \<Rightarrow> string \<times> string" where
  "split_sign s = (case s of c # r \<Rightarrow> if c = CHR ''+'' \<or> c = CHR ''-'' then ([c], r) else ([], s) | [] \<Rightarrow> ([], []))"

definition scan_exponent :: "string \<Rightarrow> (string \<times> string) option" where
  "scan_exponent s =
     (case s of
        [] \<Rightarrow> Some ([], [])
      | c # r \<Rightarrow>
        (if c \<noteq> CHR ''e'' \<and> c \<noteq> CHR ''E'' then Some ([], s)
         else (case split_sign r of
                 (sign, r) \<Rightarrow>
                   if digits_of r = [] then None
                   else Some (c # sign @ digits_of r, after_digits r))))"

definition split_minus :: "string \<Rightarrow> string \<times> string" where
  "split_minus s = (case s of c # r \<Rightarrow> if c = CHR ''-'' then ([c], r) else ([], s) | [] \<Rightarrow> ([], []))"

definition scan_number :: "string \<Rightarrow> (string \<times> string) option" where
  "scan_number s =
     (case split_minus s of
        (sign, s) \<Rightarrow>
          (case scan_int s of
             None \<Rightarrow> None
           | Some (i, s) \<Rightarrow>
             (case scan_fraction s of
                None \<Rightarrow> None
              | Some (f, s) \<Rightarrow> map_option (\<lambda>p. (sign @ i @ f @ fst p, snd p)) (scan_exponent s))))"

lemma scan_number_iff:
  "scan_number s = Some (t, r) \<longleftrightarrow>
     (\<exists>sg u i v f w e. split_minus s = (sg, u) \<and> scan_int u = Some (i, v) \<and> scan_fraction v = Some (f, w) \<and>
        scan_exponent w = Some (e, r) \<and> t = sg @ i @ f @ e)"
  by (cases "split_minus s") (auto simp: scan_number_def split: option.splits)

section \<open>Tokens\<close>

datatype token = OpenArr | CloseArr | OpenObj | CloseObj | Comma | Colon | Scalar json

definition json_space :: "char \<Rightarrow> bool" where
  "json_space c \<longleftrightarrow> byte c \<in> {9, 10, 13, 32}"

definition literal :: "string \<Rightarrow> json \<Rightarrow> string \<Rightarrow> (token \<times> string) option" where
  "literal w v r = (if starts_with r w then Some (Scalar v, drop (length w) r) else None)"

definition token_at :: "char \<Rightarrow> string \<Rightarrow> (token \<times> string) option" where
  "token_at c r =
     (if c = CHR ''['' then Some (OpenArr, r)
      else if c = CHR '']'' then Some (CloseArr, r)
      else if c = CHR ''{'' then Some (OpenObj, r)
      else if c = CHR ''}'' then Some (CloseObj, r)
      else if c = CHR '','' then Some (Comma, r)
      else if c = CHR '':'' then Some (Colon, r)
      else if c = dquote
      then (case string_body r of
              None \<Rightarrow> None
            | Some (b, r) \<Rightarrow> map_option (\<lambda>t. (Scalar (JStr t), r)) (unquote b))
      else if c = CHR ''t'' then literal ''rue'' (JBool True) r
      else if c = CHR ''f'' then literal ''alse'' (JBool False) r
      else if c = CHR ''n'' then literal ''ull'' JNull r
      else map_option (\<lambda>(t, r). (Scalar (JNum t), r)) (scan_number (c # r)))"

definition next_token :: "string \<Rightarrow> (token \<times> string) option" where
  "next_token s = (case dropWhile json_space s of [] \<Rightarrow> None | c # r \<Rightarrow> token_at c r)"

lemma after_digits_length: "length (after_digits s) \<le> length s"
  by (simp add: after_digits_def length_dropWhile_le)

lemma scan_parts_length:
  "scan_int s = Some (t, r) \<Longrightarrow> length r < length s"
  "scan_fraction s = Some (t, r) \<Longrightarrow> length r \<le> length s"
  "split_sign s = (t, r) \<Longrightarrow> length r \<le> length s"
  "split_minus s = (t, r) \<Longrightarrow> length r \<le> length s"
  using after_digits_length [of "tl s"]
  by (auto simp: scan_int_def scan_fraction_def split_sign_def split_minus_def after_digits_def split: list.splits if_splits)

lemma scan_exponent_length:
  assumes "scan_exponent s = Some (t, r)"
  shows "length r \<le> length s"
proof (cases s)
  case (Cons c u)
  obtain sg v where v: "split_sign u = (sg, v)" by (cases "split_sign u")
  then have "length v \<le> length u" by (rule scan_parts_length(3))
  with assms Cons v after_digits_length [of v] show ?thesis by (auto simp: scan_exponent_def split: if_splits)
qed (use assms in \<open>simp add: scan_exponent_def\<close>)

lemma scan_number_length:
  assumes "scan_number s = Some (t, r)"
  shows "length r < length s"
proof -
  obtain sg u i v f w e where p: "split_minus s = (sg, u)" "scan_int u = Some (i, v)"
      "scan_fraction v = Some (f, w)" "scan_exponent w = Some (e, r)"
    using assms by (auto simp: scan_number_iff)
  show ?thesis
    using scan_parts_length(4) [OF p(1)] scan_parts_length(1) [OF p(2)] scan_parts_length(2) [OF p(3)]
      scan_exponent_length [OF p(4)] by simp
qed

lemma token_at_length: "token_at c s = Some (t, r) \<Longrightarrow> length r \<le> length s"
  by (auto simp: token_at_def literal_def dest!: string_body_shorter scan_number_length split: if_splits option.splits)

lemma next_token_shorter: "next_token s = Some (t, r) \<Longrightarrow> length r < length s"
proof -
  assume "next_token s = Some (t, r)"
  then obtain c u where "dropWhile json_space s = c # u" "token_at c u = Some (t, r)"
    by (auto simp: next_token_def split: list.splits)
  with token_at_length [of c u] length_dropWhile_le [of json_space s] show "length r < length s" by simp
qed

section \<open>The automaton\<close>

datatype mode = Value | ElemOrClose | Key | KeyOrClose | AfterKey | Done json

datatype frame = InArr "json list" | InObj "(string \<times> json) list" string

definition value_token :: "int \<Rightarrow> token \<Rightarrow> frame list \<Rightarrow> (mode \<times> frame list) option" where
  "value_token lim t st =
     (case t of
        Scalar v \<Rightarrow> Some (Done v, st)
      | OpenArr \<Rightarrow> if int (length st) < lim then Some (ElemOrClose, InArr [] # st) else None
      | OpenObj \<Rightarrow> if int (length st) < lim then Some (KeyOrClose, InObj [] [] # st) else None
      | _ \<Rightarrow> None)"

definition key_token :: "token \<Rightarrow> frame list \<Rightarrow> (mode \<times> frame list) option" where
  "key_token t st =
     (case (t, st) of
        (Scalar (JStr k), InObj kvs _ # st) \<Rightarrow> Some (AfterKey, InObj kvs k # st)
      | _ \<Rightarrow> None)"

fun done_token :: "json \<Rightarrow> token \<Rightarrow> frame list \<Rightarrow> (mode \<times> frame list) option" where
  "done_token v Comma (InArr vs # st) = Some (Value, InArr (vs @ [v]) # st)"
| "done_token v Comma (InObj kvs k # st) = Some (Key, InObj (kvs @ [(k, v)]) k # st)"
| "done_token v CloseArr (InArr vs # st) = Some (Done (JArr (vs @ [v])), st)"
| "done_token v CloseObj (InObj kvs k # st) = Some (Done (JObj (kvs @ [(k, v)])), st)"
| "done_token v _ _ = None"

definition json_step :: "int \<Rightarrow> token \<Rightarrow> mode \<Rightarrow> frame list \<Rightarrow> (mode \<times> frame list) option" where
  "json_step lim t m st =
     (case m of
        Value \<Rightarrow> value_token lim t st
      | ElemOrClose \<Rightarrow> if t = CloseArr then Some (Done (JArr []), tl st) else value_token lim t st
      | Key \<Rightarrow> key_token t st
      | KeyOrClose \<Rightarrow> if t = CloseObj then Some (Done (JObj []), tl st) else key_token t st
      | AfterKey \<Rightarrow> if t = Colon then Some (Value, st) else None
      | Done v \<Rightarrow> done_token v t st)"

text \<open>The value is read when nothing encloses it any more.\<close>

definition complete :: "mode \<Rightarrow> frame list \<Rightarrow> json option" where
  "complete m st = (case m of Done v \<Rightarrow> if st = [] then Some v else None | _ \<Rightarrow> None)"

function json_run :: "int \<Rightarrow> string \<Rightarrow> mode \<Rightarrow> frame list \<Rightarrow> (json \<times> string) option" where
  "json_run lim s m st =
     (case complete m st of
        Some v \<Rightarrow> Some (v, s)
      | None \<Rightarrow>
        (case next_token s of
           None \<Rightarrow> None
         | Some (t, r) \<Rightarrow>
           (case json_step lim t m st of
              None \<Rightarrow> None
            | Some (m', st') \<Rightarrow> json_run lim r m' st')))"
  by pat_completeness auto
termination
  by (relation "measure (\<lambda>(lim, s, m, st). length s)") (auto dest: next_token_shorter)

declare json_run.simps [simp del]

definition maxNestingDepth :: int where
  "maxNestingDepth = 10000"

text \<open>The first value of a text, and a text that is one value with space around it.\<close>

definition json_first :: "string \<Rightarrow> json option" where
  "json_first s = map_option fst (json_run maxNestingDepth s Value [])"

definition json_parse :: "string \<Rightarrow> json option" where
  "json_parse s =
     (case json_run maxNestingDepth s Value [] of
        None \<Rightarrow> None
      | Some (v, r) \<Rightarrow> if list_all json_space r then Some v else None)"

definition json_valid :: "string \<Rightarrow> bool" where
  "json_valid s \<longleftrightarrow> json_parse s \<noteq> None"

section \<open>A value inside a longer text\<close>

text \<open>A number ends where the next byte cannot continue it.\<close>

definition delimited :: "string \<Rightarrow> bool" where
  "delimited s \<longleftrightarrow> (case s of [] \<Rightarrow> True | c # _ \<Rightarrow> \<not> is_digit c \<and> c \<notin> {CHR ''.'', CHR ''e'', CHR ''E''})"

lemma delimited_simps [simp]: "delimited []" "delimited (CHR '','' # s)" "delimited (CHR '']'' # s)" "delimited (CHR ''}'' # s)"
  by (simp_all add: delimited_def is_digit_def in_range_def byte_def)

lemma after_digits_append:
  assumes "after_digits s \<noteq> [] \<or> delimited t"
  shows "digits_of (s @ t) = digits_of s \<and> after_digits (s @ t) = after_digits s @ t"
proof (cases "after_digits s = []")
  case True
  then have all: "\<forall>x \<in> set s. is_digit x" by (simp add: after_digits_def)
  moreover have "takeWhile is_digit t = [] \<and> dropWhile is_digit t = t"
    using True assms by (cases t) (auto simp: delimited_def)
  ultimately show ?thesis by (simp add: digits_of_def after_digits_def takeWhile_append2 dropWhile_append2 takeWhile_eq_all_conv [THEN iffD2])
next
  case False
  then obtain x where "x \<in> set s" "\<not> is_digit x" by (auto simp: after_digits_def)
  then show ?thesis by (simp add: digits_of_def after_digits_def takeWhile_append1 dropWhile_append1)
qed

lemma scan_fraction_append:
  assumes "scan_fraction s = Some (f, r)" and "r \<noteq> [] \<or> delimited t"
  shows "scan_fraction (s @ t) = Some (f, r @ t)"
proof (cases s)
  case Nil
  with assms show ?thesis by (auto simp: scan_fraction_def delimited_def split: list.splits)
next
  case (Cons c u)
  with assms after_digits_append [of u t] show ?thesis by (auto simp: scan_fraction_def split: if_splits)
qed

lemma split_sign_append: "s \<noteq> [] \<Longrightarrow> split_sign (s @ t) = (fst (split_sign s), snd (split_sign s) @ t)"
  by (cases s) (auto simp: split_sign_def)

lemma scan_exponent_append:
  assumes "scan_exponent s = Some (e, r)" and "r \<noteq> [] \<or> delimited t"
  shows "scan_exponent (s @ t) = Some (e, r @ t)"
proof (cases s)
  case Nil
  with assms show ?thesis by (auto simp: scan_exponent_def delimited_def split: list.splits)
next
  case (Cons c u)
  show ?thesis
  proof (cases "c = CHR ''e'' \<or> c = CHR ''E''")
    case True
    obtain sg v where v: "split_sign u = (sg, v)" by (cases "split_sign u")
    then have p: "digits_of v \<noteq> []" "e = c # sg @ digits_of v" "r = after_digits v"
      using assms(1) Cons True by (auto simp: scan_exponent_def split: if_splits)
    then have "u \<noteq> []" using v by (auto simp: split_sign_def digits_of_def)
    then have "split_sign (u @ t) = (sg, v @ t)" using v by (simp add: split_sign_append)
    with p assms(2) Cons True after_digits_append [of v t] show ?thesis by (auto simp: scan_exponent_def)
  qed (use assms Cons in \<open>auto simp: scan_exponent_def\<close>)
qed

lemma scan_int_append:
  assumes "scan_int s = Some (i, r)" and "r \<noteq> [] \<or> delimited t"
  shows "scan_int (s @ t) = Some (i, r @ t)"
proof (cases s)
  case (Cons c u)
  with assms after_digits_append [of s t] show ?thesis by (auto simp: scan_int_def split: if_splits)
qed (use assms in \<open>simp add: scan_int_def\<close>)

lemma scan_number_append:
  assumes "scan_number s = Some (x, r)" and "r \<noteq> [] \<or> delimited t"
  shows "scan_number (s @ t) = Some (x, r @ t)"
proof -
  obtain sg u i v f w e where p: "split_minus s = (sg, u)" "scan_int u = Some (i, v)"
      "scan_fraction v = Some (f, w)" "scan_exponent w = Some (e, r)" "x = sg @ i @ f @ e"
    using assms by (auto simp: scan_number_iff)
  have "w \<noteq> [] \<or> delimited t" using assms(2) scan_exponent_length [OF p(4)] by auto
  moreover from this have "v \<noteq> [] \<or> delimited t" using scan_parts_length(2) [OF p(3)] by auto
  moreover have "s \<noteq> []" using p(1,2) by (auto simp: split_minus_def scan_int_def)
  then have "split_minus (s @ t) = (sg, u @ t)" using p(1) by (cases s) (auto simp: split_minus_def split: if_splits)
  ultimately show ?thesis
    using p(2-5) assms(2) scan_int_append scan_fraction_append scan_exponent_append unfolding scan_number_iff by blast
qed

lemma starts_with_append: "starts_with s p \<Longrightarrow> starts_with (s @ t) p"
  by (simp add: starts_with_prefix prefix_append)

lemma literal_append: "literal w v s = Some (x, r) \<Longrightarrow> literal w v (s @ t) = Some (x, r @ t)"
  using starts_with_append [of s w t] prefix_length_le [of w s]
  by (auto simp: literal_def starts_with_prefix split: if_splits)

lemma token_at_append:
  assumes "token_at c s = Some (x, r)" and "r \<noteq> [] \<or> delimited t"
  shows "token_at c (s @ t) = Some (x, r @ t)"
proof -
  have num: "scan_number (c # s @ t) = Some (y, r @ t)" if "scan_number (c # s) = Some (y, r)" for y
    using scan_number_append [OF that assms(2)] by simp
  show ?thesis
  proof (cases "c = dquote")
    case True
    then obtain b z where "string_body s = Some (b, r)" "unquote b = Some z" "x = Scalar (JStr z)"
      using assms(1) by (auto simp: token_at_def split: option.splits)
    with True string_body_append [of s b r t] show ?thesis by (simp add: token_at_def)
  next
    case False
    with assms(1) show ?thesis
      unfolding token_at_def by (auto simp: num dest: literal_append split: if_split_asm)
  qed
qed

lemma next_token_append:
  assumes "next_token s = Some (x, r)" and "r \<noteq> [] \<or> delimited t"
  shows "next_token (s @ t) = Some (x, r @ t)"
proof -
  obtain c u where u: "dropWhile json_space s = c # u" "token_at c u = Some (x, r)"
    using assms(1) by (auto simp: next_token_def split: list.splits)
  then have "dropWhile json_space (s @ t) = c # u @ t" by (metis append_Cons dropWhile_append1 dropWhile_eq_Nil_conv list.distinct(1))
  with token_at_append [OF u(2) assms(2)] show ?thesis by (simp add: next_token_def)
qed

lemma complete_iff [simp]: "complete m st = Some v \<longleftrightarrow> m = Done v \<and> st = []"
  by (auto simp: complete_def split: mode.split)

lemma json_run_done: "json_run lim s (Done v) [] = Some (v, s)"
  by (simp add: json_run.simps complete_def)

lemma json_run_step:
  "complete m st = None \<Longrightarrow> next_token s = Some (t, r) \<Longrightarrow> json_step lim t m st = Some (m', st') \<Longrightarrow>
     json_run lim s m st = json_run lim r m' st'"
  by (subst json_run.simps) simp

lemma json_run_induct [consumes 1, case_names complete step]:
  assumes "json_run lim s m st = Some (v, r)" and "P r (Done v) []"
    and "\<And>s m st t u m' st'. complete m st = None \<Longrightarrow> next_token s = Some (t, u) \<Longrightarrow>
      json_step lim t m st = Some (m', st') \<Longrightarrow> json_run lim u m' st' = Some (v, r) \<Longrightarrow> P u m' st' \<Longrightarrow> P s m st"
  shows "P s m st"
  using assms
proof (induction lim s m st rule: json_run.induct)
  case (1 lim s m st)
  note step = "1.prems"(3)
  show ?case
  proof (cases "complete m st")
    case None
    then obtain t u m' st' where n: "next_token s = Some (t, u)" "json_step lim t m st = Some (m', st')"
        "json_run lim u m' st' = Some (v, r)"
      using "1.prems"(1) by (subst (asm) json_run.simps) (auto split: option.splits prod.splits)
    have "P u m' st'" by (rule "1.IH" [OF None n(1) refl n(2) refl n(3) "1.prems"(2)]) (rule step)
    with None n show ?thesis by (rule step)
  next
    case (Some w)
    with "1.prems"(1,2) show ?thesis by (subst (asm) json_run.simps) auto
  qed
qed

text \<open>What is read on an empty stack is read in the same way above any other stack.\<close>

lemma json_step_lift:
  assumes "json_step lim t m st = Some (m', st')" and "lim + int (length st2) \<le> lim'" and "complete m st = None"
    and "m \<in> {ElemOrClose, KeyOrClose} \<Longrightarrow> st \<noteq> []"
  shows "json_step lim' t m (st @ st2) = Some (m', st' @ st2)"
    and "m' \<in> {ElemOrClose, KeyOrClose} \<Longrightarrow> st' \<noteq> []"
proof -
  have key: "key_token t (st @ st2) = Some (m', st' @ st2) \<and> m' = AfterKey" if "key_token t st = Some (m', st')"
    using that by (auto simp: key_token_def split: token.splits json.splits list.splits frame.splits)
  have val: "value_token lim' t (st @ st2) = Some (m', st' @ st2) \<and> (m' \<in> {ElemOrClose, KeyOrClose} \<longrightarrow> st' \<noteq> [])"
    if "value_token lim t st = Some (m', st')"
    using that assms(2) by (auto simp: value_token_def split: token.splits if_splits)
  have don: "done_token v t (st @ st2) = Some (m', st' @ st2) \<and> m' \<notin> {ElemOrClose, KeyOrClose}"
    if "done_token v t st = Some (m', st')" for v
    using that by (cases "(v, t, st)" rule: done_token.cases) auto
  show "json_step lim' t m (st @ st2) = Some (m', st' @ st2)" "m' \<in> {ElemOrClose, KeyOrClose} \<Longrightarrow> st' \<noteq> []"
    using assms key val don by (auto simp: json_step_def split: mode.splits if_splits)
qed

lemma json_run_lift:
  assumes "json_run lim s m st = Some (v, r)" and "r \<noteq> [] \<or> delimited rest" and "lim + int (length st2) \<le> lim'"
    and "m \<in> {ElemOrClose, KeyOrClose} \<Longrightarrow> st \<noteq> []"
  shows "json_run lim' (s @ rest) m (st @ st2) = json_run lim' (r @ rest) (Done v) st2 \<and> length r \<le> length s"
  using assms(1,4)
proof (induction rule: json_run_induct)
  case (step s m st t u m' st')
  note lift = json_step_lift [OF step(3) assms(3) step(1) step(6)]
  have ih: "json_run lim' (u @ rest) m' (st' @ st2) = json_run lim' (r @ rest) (Done v) st2" "length r \<le> length u"
    using step(5) lift(2) by blast+
  then have "u \<noteq> [] \<or> delimited rest" using assms(2) by auto
  from next_token_append [OF step(2) this] have n: "next_token (s @ rest) = Some (t, u @ rest)" .
  have "complete m (st @ st2) = None" using step(1) by (auto simp: complete_def split: mode.splits)
  from json_run_step [OF this n lift(1)] ih next_token_shorter [OF step(2)] show ?case by simp
qed simp

section \<open>What the encoder writes is read back\<close>

text \<open>The whole text is one value, of at most that nesting.\<close>

definition parses :: "int \<Rightarrow> string \<Rightarrow> json \<Rightarrow> bool" where
  "parses lim t j \<longleftrightarrow> json_run lim t Value [] = Some (j, [])"

lemma parses_run:
  "parses lim t j \<Longrightarrow> delimited rest \<Longrightarrow> lim + int (length st) \<le> lim' \<Longrightarrow>
     json_run lim' (t @ rest) Value st = json_run lim' rest (Done j) st"
  using json_run_lift [of lim t Value "[]" j "[]" rest st lim'] by (simp add: parses_def)

lemma parses_more: "parses lim t j \<Longrightarrow> lim \<le> lim' \<Longrightarrow> parses lim' t j"
  using parses_run [of lim t j "[]" "[]" lim'] by (simp add: parses_def json_run_done)

lemma parses_parse: "parses maxNestingDepth t j \<Longrightarrow> json_parse t = Some j \<and> json_first t = Some j"
  by (simp add: parses_def json_parse_def json_first_def)

text \<open>After an opening bracket the first element is read as any other.\<close>

lemma parses_first:
  assumes "parses lim t j" and "delimited rest" and "lim + int (length st) \<le> lim'"
  shows "json_run lim' (t @ rest) ElemOrClose st = json_run lim' rest (Done j) st"
proof -
  obtain x u p where n: "next_token t = Some (x, u)" "json_step lim x Value [] = Some p"
    using assms(1) unfolding parses_def
    by (subst (asm) json_run.simps) (auto simp: complete_def split: option.splits)
  obtain m st' where p: "p = (m, st')" by (cases p)
  from next_token_append [OF n(1)] assms(2) have n': "next_token (t @ rest) = Some (x, u @ rest)" by blast
  have lift: "json_step lim' x Value st = Some (m, st' @ st)"
    using json_step_lift(1) [OF n(2) [unfolded p] assms(3)] by (simp add: complete_def)
  then have "json_step lim' x ElemOrClose st = Some (m, st' @ st)"
    by (auto simp: json_step_def value_token_def)
  then have "json_run lim' (t @ rest) ElemOrClose st = json_run lim' (t @ rest) Value st"
    using json_run_step [OF _ n' lift] json_run_step [OF _ n', of ElemOrClose st lim' m "st' @ st"]
    by (simp add: complete_def)
  with parses_run [OF assms] show ?thesis by simp
qed

lemma json_run_punct:
  "next_token (CHR '','' # r) = Some (Comma, r)" "next_token (CHR '']'' # r) = Some (CloseArr, r)"
  "next_token (CHR ''['' # r) = Some (OpenArr, r)" "next_token (CHR ''{'' # r) = Some (OpenObj, r)"
  "next_token (CHR ''}'' # r) = Some (CloseObj, r)" "next_token (CHR '':'' # r) = Some (Colon, r)"
  by (simp_all add: next_token_def token_at_def json_space_def)

lemma elements_run:
  assumes "list_all2 (parses lim) ts js" and "lim + 1 + int (length st) \<le> lim'"
  shows "json_run lim' (concat (map (\<lambda>t. CHR '','' # t) ts) @ CHR '']'' # rest) (Done v) (InArr vs # st) =
    json_run lim' rest (Done (JArr (vs @ v # js))) st"
  using assms(1)
proof (induction ts js arbitrary: v vs rule: list_all2_induct)
  case Nil
  show ?case
    using json_run_step [OF _ json_run_punct(2), of "Done v" "InArr vs # st" lim' "Done (JArr (vs @ [v]))" st rest]
    by (simp add: complete_def json_step_def)
next
  case (Cons t ts j js)
  let ?r = "concat (map (\<lambda>t. CHR '','' # t) ts) @ CHR '']'' # rest"
  have "delimited ?r" by (cases ts) simp_all
  from parses_run [OF Cons(1) this, of "InArr (vs @ [v]) # st" lim'] assms(2)
  have "json_run lim' (t @ ?r) Value (InArr (vs @ [v]) # st) = json_run lim' rest (Done (JArr (vs @ v # j # js))) st"
    using Cons.IH [of j "vs @ [v]"] by simp
  then show ?case
    using json_run_step [OF _ json_run_punct(1), of "Done v" "InArr vs # st" lim' Value "InArr (vs @ [v]) # st" "t @ ?r"]
    by (simp add: complete_def json_step_def)
qed

lemma join_comma: "join '','' (t # ts) = t @ concat (map (\<lambda>t. CHR '','' # t) ts)"
  by (induction ts arbitrary: t) simp_all

lemma parses_array:
  assumes "list_all2 (parses lim) ts js" and "0 \<le> lim"
  shows "parses (lim + 1) (json_array ts) (JArr js)"
proof -
  have enter: "json_run (lim + 1) (CHR ''['' # r) Value [] = json_run (lim + 1) r ElemOrClose [InArr []]" for r
    using assms(2) json_run_step [OF _ json_run_punct(3), of Value "[]" "lim + 1" ElemOrClose "[InArr []]" r]
    by (simp add: complete_def json_step_def value_token_def)
  show ?thesis
  proof (cases ts)
    case Nil
    then show ?thesis
      using assms json_run_step [OF _ json_run_punct(2), of ElemOrClose "[InArr []]" "lim + 1" "Done (JArr [])" "[]" "[]"]
      by (simp add: parses_def json_array_def enter complete_def json_step_def json_run_done)
  next
    case (Cons t us)
    then obtain j ks where js: "js = j # ks" "parses lim t j" "list_all2 (parses lim) us ks"
      using assms by (auto simp: list_all2_Cons1)
    let ?r = "concat (map (\<lambda>t. CHR '','' # t) us) @ '']''"
    have "delimited ?r" by (cases us) simp_all
    from parses_first [OF js(2) this, of "[InArr []]" "lim + 1"]
    show ?thesis using elements_run [OF js(3), of "[]" "lim + 1" "[]" j "[]"] Cons js(1)
      by (simp add: parses_def json_array_def enter join_comma json_run_done)
  qed
qed

subsection \<open>Strings\<close>

text \<open>A string as it comes back: a byte outside a well-formed sequence has become U+FFFD.\<close>

definition to_valid :: "string \<Rightarrow> string" where
  "to_valid = map_runes (\<lambda>r. r)"

lemma to_valid_id: "valid_utf8 s \<Longrightarrow> to_valid s = s"
proof (induction s rule: valid_utf8.induct)
  case (1 s)
  show ?case
  proof (cases "s = []")
    case False
    with "1.prems" obtain n where "utf8_width s = Some n" "valid_utf8 (drop n s)"
      by (subst (asm) valid_utf8.simps) (auto split: option.splits)
    with 1 False show ?thesis unfolding to_valid_def by (subst map_runes.simps) simp
  qed (simp add: to_valid_def map_runes.simps)
qed

lemma to_valid_Nil [simp]: "to_valid [] = []"
  by (simp add: to_valid_def map_runes.simps)

lemma to_valid_ascii: "list_all (\<lambda>c. byte c < 128) s \<Longrightarrow> to_valid s = s"
proof (induction s)
  case (Cons c s)
  then have "utf8_width (c # s) = Some 1" by (simp add: utf8_width_def)
  with Cons show ?case unfolding to_valid_def by (subst map_runes.simps) simp
qed simp

text \<open>Text that the scanner of a string passes over.\<close>

definition passed_over :: "string \<Rightarrow> bool" where
  "passed_over t \<longleftrightarrow> (\<forall>r. string_body (t @ r) = map_option (\<lambda>p. (t @ fst p, snd p)) (string_body r))"

lemma passed_over_Nil: "passed_over []"
  by (auto simp: passed_over_def option.map_ident)

lemma passed_over_append: "passed_over t \<Longrightarrow> passed_over u \<Longrightarrow> passed_over (t @ u)"
  by (auto simp: passed_over_def option.map_comp o_def)

lemma passed_over_char: "32 \<le> byte c \<Longrightarrow> c \<noteq> dquote \<Longrightarrow> c \<noteq> backslash \<Longrightarrow> passed_over [c]"
  by (simp add: passed_over_def)

lemma passed_over_escape: "passed_over [backslash, e]"
  by (simp add: passed_over_def backslash_def)

lemma passed_over_chars: "\<forall>c \<in> set s. 32 \<le> byte c \<and> c \<noteq> dquote \<and> c \<noteq> backslash \<Longrightarrow> passed_over s"
proof (induction s)
  case (Cons c s)
  then show ?case using passed_over_append [of "[c]" s] passed_over_char by simp
qed (rule passed_over_Nil)

lemma passed_over_unit: "\<forall>c \<in> set h. 32 \<le> byte c \<and> c \<noteq> dquote \<and> c \<noteq> backslash \<Longrightarrow> passed_over (u_escape h)"
  using passed_over_append [OF passed_over_escape passed_over_chars] by (simp add: u_escape_def)

lemma hex_digit_plain: "n < 16 \<Longrightarrow> 32 \<le> byte (hex_digit n) \<and> hex_digit n \<noteq> dquote \<and> hex_digit n \<noteq> backslash"
proof -
  assume n: "n < 16"
  then have "byte (hex_digit n) = (if n < 10 then 48 + n else 87 + n)" by (simp add: hex_digit_def)
  moreover have "byte dquote = 34" "byte backslash = 92" by (simp_all add: backslash_def)
  ultimately show ?thesis using n by (auto split: if_splits)
qed

lemma byte_nibbles: "byte c div 16 < 16" "byte c mod 16 < 16"
  using byte_less [of c] by simp_all

lemma passed_over_ascii: "passed_over (json_ascii c)"
proof -
  have u: "passed_over (u_escape [CHR ''0'', CHR ''0'', hex_digit (byte c div 16), hex_digit (byte c mod 16)])"
    using hex_digit_plain [OF byte_nibbles(1)] hex_digit_plain [OF byte_nibbles(2)]
    by (intro passed_over_unit) (simp add: backslash_def)
  then show ?thesis
    by (simp add: json_ascii_def passed_over_escape passed_over_char)
qed

lemma passed_over_json_rune:
  assumes "utf8_width s = Some n"
  shows "passed_over (json_rune (take n s))"
proof (cases "n = 1")
  case True
  then obtain c where "take n s = [c]" using utf8_width_bounds [OF assms] by (cases s) auto
  then show ?thesis by (simp add: json_rune_def passed_over_ascii)
next
  case False
  have "byte dquote = 34" "byte backslash = 92" by (simp_all add: backslash_def)
  with utf8_width_high [OF assms False] have "passed_over (take n s)" by (intro passed_over_chars) fastforce
  moreover have "\<nexists>c. take n s = [c]"
    using utf8_width_bounds [OF assms] False by (auto simp: take_Suc_conv_app_nth dest: arg_cong [of _ _ length])
  moreover have "passed_over (u_escape ''2028'')" "passed_over (u_escape ''2029'')"
    by (rule passed_over_unit, simp add: backslash_def)+
  ultimately show ?thesis by (auto simp: json_rune_def split: list.split)
qed

lemma passed_over_json_chars: "passed_over (json_chars s)"
proof (induction s rule: json_chars.induct)
  case (1 s)
  have "passed_over (u_escape ''fffd'')" by (rule passed_over_unit) (simp add: backslash_def)
  with 1 show ?case
    by (subst json_chars.simps)
      (auto simp: passed_over_Nil passed_over_append passed_over_json_rune split: option.split)
qed

lemma string_body_json_chars: "string_body (json_chars s @ dquote # r) = Some (json_chars s, r)"
  using passed_over_json_chars [of s] by (simp add: passed_over_def)

text \<open>Unquoting piece by piece.\<close>

lemma hex_value_digit: "n < 16 \<Longrightarrow> hex_value (hex_digit n) = Some n"
  by (auto simp: hex_value_def hex_digit_def in_range_def)

lemma char_of_eq: "char_of n = c \<longleftrightarrow> byte c = n mod 256"
  using byte_inj [of "char_of n" c] by auto

lemma single_append: "(@) [c] = (#) c"
  by auto

lemma encode_byte: "byte c < 128 \<Longrightarrow> encode_rune (byte c) = [c]"
  by (simp add: encode_rune_def byte_def)

lemma unquote_escape: "e \<noteq> CHR ''u'' \<Longrightarrow> escaped_char e = Some x \<Longrightarrow>
    unquote (backslash # e # r) = map_option ((#) x) (unquote r)"
  by (subst unquote.simps) simp

lemma unquote_unit: "hex4 h = Some (u, r) \<Longrightarrow> u < 55296 \<or> 57344 \<le> u \<Longrightarrow>
    unquote (u_escape h) = map_option ((@) (encode_rune u)) (unquote r)"
  unfolding u_escape_def by (subst unquote.simps) (simp add: code_unit_def)

lemma unquote_rune: "s = c # u \<Longrightarrow> c \<noteq> backslash \<Longrightarrow> c \<noteq> dquote \<Longrightarrow> 32 \<le> byte c \<Longrightarrow> utf8_width s = Some n \<Longrightarrow>
    unquote s = map_option ((@) (take n s)) (unquote (drop n s))"
  by (subst unquote.simps) simp

text \<open>The bytes with an escape of two characters.\<close>

definition short_escapes :: "(char \<times> char) list" where
  "short_escapes = [(dquote, dquote), (backslash, backslash), (CHR 0x08, CHR ''b''), (CHR 0x0C, CHR ''f''),
     (CHR 0x0A, CHR ''n''), (CHR 0x0D, CHR ''r''), (CHR 0x09, CHR ''t'')]"

lemma short_escape:
  "(c, e) \<in> set short_escapes \<Longrightarrow> json_ascii c = [backslash, e] \<and> e \<noteq> CHR ''u'' \<and> escaped_char e = Some c"
proof -
  have "list_all (\<lambda>(c, e). json_ascii c = [backslash, e] \<and> e \<noteq> CHR ''u'' \<and> escaped_char e = Some c) short_escapes"
    by code_simp
  then show "(c, e) \<in> set short_escapes \<Longrightarrow> ?thesis" by (auto simp: list_all_iff)
qed

lemma json_ascii_cases:
  obtains (escape) e where "json_ascii c = [backslash, e]" "e \<noteq> CHR ''u''" "escaped_char e = Some c"
  | (unit) "json_ascii c = u_escape [CHR ''0'', CHR ''0'', hex_digit (byte c div 16), hex_digit (byte c mod 16)]"
  | (plain) "json_ascii c = [c]" "c \<noteq> backslash" "c \<noteq> dquote" "32 \<le> byte c"
proof (cases "\<exists>e. (c, e) \<in> set short_escapes")
  case True
  then show ?thesis using short_escape escape by blast
next
  case False
  then have no: "c \<noteq> dquote" "c \<noteq> backslash" "c \<notin> {CHR 0x08, CHR 0x0C, CHR 0x0A, CHR 0x0D, CHR 0x09}"
    by (auto simp: short_escapes_def)
  then have "byte c \<noteq> 8" "byte c \<noteq> 12" "byte c \<noteq> 10" "byte c \<noteq> 13" "byte c \<noteq> 9"
    using byte_inj [of c "CHR 0x08"] byte_inj [of c "CHR 0x0C"] byte_inj [of c "CHR 0x0A"]
      byte_inj [of c "CHR 0x0D"] byte_inj [of c "CHR 0x09"] by simp_all
  with no(1,2) have eq: "json_ascii c = (if byte c < 32 \<or> c = CHR ''<'' \<or> c = CHR ''>'' \<or> c = CHR ''&''
      then u_escape [CHR ''0'', CHR ''0'', hex_digit (byte c div 16), hex_digit (byte c mod 16)] else [c])"
    by (simp add: json_ascii_def)
  show ?thesis
  proof (cases "byte c < 32 \<or> c = CHR ''<'' \<or> c = CHR ''>'' \<or> c = CHR ''&''")
    case True
    then show ?thesis using eq unit by simp
  next
    case False
    then show ?thesis using eq plain no(1,2) by simp
  qed
qed

lemma unquote_json_ascii:
  assumes "byte c < 128"
  shows "unquote (json_ascii c @ r) = map_option ((#) c) (unquote r)"
proof (cases rule: json_ascii_cases [of c])
  case (escape e)
  then show ?thesis by (simp add: unquote_escape)
next
  case unit
  have "byte c div 16 * 16 + byte c mod 16 = byte c" by simp
  then have "hex4 ([CHR ''0'', CHR ''0'', hex_digit (byte c div 16), hex_digit (byte c mod 16)] @ r) = Some (byte c, r)"
    using hex_value_digit [OF byte_nibbles(1)] hex_value_digit [OF byte_nibbles(2)]
    by (simp add: hex_value_def in_range_def)
  from unquote_unit [OF this] show ?thesis using assms unit encode_byte [OF assms] by (simp add: u_escape_def single_append)
next
  case plain
  have "utf8_width (c # r) = Some 1" using assms by (simp add: utf8_width_def)
  with plain show ?thesis using unquote_rune [OF refl, of c r] by (simp add: single_append)
qed

lemma unquote_json_rune:
  assumes "utf8_width s = Some n"
  shows "unquote (json_rune (take n s) @ r) = map_option ((@) (take n s)) (unquote r)"
proof (cases "n = 1")
  case True
  then obtain c where c: "take n s = [c]" using utf8_width_bounds [OF assms] by (cases s) auto
  then have "utf8_width [c] = Some 1" using utf8_width_take [OF assms, of n] True by simp
  then have "byte c < 128" by (auto simp: utf8_width_def split: if_splits)
  then show ?thesis using c by (simp add: json_rune_def unquote_json_ascii single_append)
next
  case False
  have w: "utf8_width (take n s @ r) = Some n"
    using utf8_width_append [OF utf8_width_take [OF assms order_refl]] .
  have len: "length (take n s) = n" using utf8_width_bounds [OF assms] by simp
  have many: "take n s \<noteq> [c]" for c using len False by (auto dest: arg_cong [of _ _ length])
  have sep: "encode_rune 8232 = [CHR 0xE2, CHR 0x80, CHR 0xA8]" "encode_rune 8233 = [CHR 0xE2, CHR 0x80, CHR 0xA9]"
    by (simp_all add: encode_rune_def char_of_eq)
  have special: "unquote (u_escape ''2028'' @ r) = map_option ((@) [CHR 0xE2, CHR 0x80, CHR 0xA8]) (unquote r)"
    "unquote (u_escape ''2029'' @ r) = map_option ((@) [CHR 0xE2, CHR 0x80, CHR 0xA9]) (unquote r)"
    using unquote_unit [of "''2028'' @ r" 8232 r] unquote_unit [of "''2029'' @ r" 8233 r]
    by (simp_all add: u_escape_def hex_value_def in_range_def sep)
  obtain c u where c: "take n s = c # u" using len utf8_width_bounds [OF assms] by (cases "take n s") auto
  have high: "128 \<le> byte c" using utf8_width_high [OF assms False] c by simp
  have "c \<noteq> backslash" "c \<noteq> dquote" "32 \<le> byte c" using high by (auto simp: backslash_def)
  moreover have take_drop: "take n (c # u @ r) = c # u" "drop n (c # u @ r) = r" using c len by auto
  ultimately have "unquote (take n s @ r) = map_option ((@) (take n s)) (unquote r)"
    using unquote_rune [of "take n s @ r" c "u @ r" n] c w len take_drop by simp
  with many special show ?thesis by (auto simp: json_rune_def split: list.split)
qed

lemma unquote_json_chars: "unquote (json_chars s) = Some (to_valid s)"
proof (induction s rule: json_chars.induct)
  case (1 s)
  show ?case
  proof (cases "s = []")
    case True
    then show ?thesis by (simp add: json_chars.simps unquote.simps to_valid_def map_runes.simps)
  next
    case False
    show ?thesis
    proof (cases "utf8_width s")
      case None
      have "encode_rune 65533 = replacement_rune" by (simp add: encode_rune_def replacement_rune_def char_of_eq)
      then have "unquote (u_escape ''fffd'' @ json_chars (tl s)) = Some (replacement_rune @ to_valid (tl s))"
        using unquote_unit [of "''fffd'' @ json_chars (tl s)" 65533 "json_chars (tl s)"] 1(1) [OF False None]
        by (simp add: u_escape_def hex_value_def in_range_def)
      with None False show ?thesis
        by (subst json_chars.simps) (simp add: to_valid_def map_runes.simps [of _ s])
    next
      case (Some n)
      have "to_valid s = take n s @ to_valid (drop n s)"
        unfolding to_valid_def using Some False by (subst map_runes.simps) simp
      moreover have "json_chars s = json_rune (take n s) @ json_chars (drop n s)"
        using Some False by (subst json_chars.simps) simp
      ultimately show ?thesis using unquote_json_rune [OF Some] 1(2) [OF False Some] by simp
    qed
  qed
qed

lemma next_token_string: "next_token (json_string s @ r) = Some (Scalar (JStr (to_valid s)), r)"
  by (simp add: json_string_def next_token_def token_at_def json_space_def string_body_json_chars unquote_json_chars)

lemma parses_scalar: "next_token t = Some (Scalar j, []) \<Longrightarrow> parses lim t j"
  using json_run_step [of Value "[]" t "Scalar j" "[]" lim "Done j" "[]"]
  by (simp add: parses_def complete_def json_step_def value_token_def json_run_done)

lemma parses_string: "parses lim (json_string s) (JStr (to_valid s))"
  using next_token_string [of s "[]"] by (intro parses_scalar) simp

subsection \<open>Numbers\<close>

lemma nat_dec_leading: "n \<noteq> 0 \<Longrightarrow> hd (nat_dec n) \<noteq> CHR ''0''"
proof (induction n rule: nat_dec.induct)
  case (1 n)
  have zero: "byte (CHR ''0'') = 48" by simp
  show ?case
  proof (cases "n < 10")
    case True
    with 1(2) show ?thesis using byte_digit [of n] zero by (subst nat_dec.simps) auto
  next
    case False
    then have "hd (nat_dec (n div 10)) \<noteq> CHR ''0''" using 1 by auto
    with False show ?thesis by (subst nat_dec.simps) simp
  qed
qed

lemma scan_int_nat: "scan_int (nat_dec n) = Some (nat_dec n, [])"
proof (cases "n = 0")
  case True
  have "nat_dec 0 = ''0''" by code_simp
  with True show ?thesis by (simp add: scan_int_def)
next
  case False
  obtain c r where c: "nat_dec n = c # r" by (cases "nat_dec n") auto
  then have all: "list_all is_digit (c # r)" using nat_dec_digits [of n] by simp
  then have "digits_of (c # r) = c # r" "after_digits (c # r) = []"
    by (auto simp: digits_of_def after_digits_def list_all_iff takeWhile_eq_all_conv)
  then show ?thesis using nat_dec_leading [OF False] c all by (simp add: scan_int_def)
qed

lemma scan_number_int: "scan_number (int_dec i) = Some (int_dec i, [])"
proof -
  have last: "scan_fraction [] = Some ([], [])" "scan_exponent [] = Some ([], [])"
    by (simp_all add: scan_fraction_def scan_exponent_def)
  show ?thesis
  proof (cases "i < 0")
    case True
    then have "split_minus (int_dec i) = (''-'', nat_dec (nat (- i)))" by (simp add: int_dec_def split_minus_def)
    with True last scan_int_nat [of "nat (- i)"] show ?thesis by (auto simp: scan_number_iff int_dec_def)
  next
    case False
    obtain c r where c: "nat_dec (nat i) = c # r" by (cases "nat_dec (nat i)") auto
    then have "c \<noteq> CHR ''-''" using nat_dec_digits [of "nat i"] is_digit_not_sign by fastforce
    then have "split_minus (int_dec i) = ([], nat_dec (nat i))" using False c by (simp add: int_dec_def split_minus_def)
    with False last scan_int_nat [of "nat i"] show ?thesis by (auto simp: scan_number_iff int_dec_def)
  qed
qed

text \<open>A number is read as its text.\<close>

lemma parses_number:
  assumes "scan_number t = Some (t, [])"
  shows "parses lim t (JNum t)"
proof (intro parses_scalar)
  obtain c r where c: "t = c # r" using assms by (cases t) (auto simp: scan_number_def split_minus_def scan_int_def)
  have "c = CHR ''-'' \<or> is_digit c"
    using assms unfolding c
    by (auto simp: scan_number_iff split_minus_def scan_int_def is_digit_def in_range_def split: if_splits)
  then have "in_range 45 57 c" by (auto simp: is_digit_def in_range_def)
  then have "\<not> json_space c"
    and "c \<notin> {CHR ''['', CHR '']'', CHR ''{'', CHR ''}'', CHR '','', CHR '':'', dquote, CHR ''t'', CHR ''f'', CHR ''n''}"
    by (auto simp: json_space_def in_range_def)
  then have "\<not> json_space c" "token_at c r = Some (Scalar (JNum t), [])"
    using assms unfolding c by (simp_all add: token_at_def)
  then show "next_token t = Some (Scalar (JNum t), [])" by (simp add: c next_token_def)
qed

lemma parses_int: "parses lim (int_dec i) (JNum (int_dec i))"
  using scan_number_int by (rule parses_number)

lemma parses_literals: "parses lim ''null'' JNull" "parses lim ''true'' (JBool True)" "parses lim ''false'' (JBool False)"
  by (auto simp: next_token_def token_at_def json_space_def literal_def starts_with_def intro!: parses_scalar)

subsection \<open>Objects\<close>

text \<open>The members of an object: the keys as they come back, and the values.\<close>

definition member_parses :: "int \<Rightarrow> string \<times> string \<Rightarrow> string \<times> json \<Rightarrow> bool" where
  "member_parses lim m p \<longleftrightarrow> fst p = to_valid (fst m) \<and> parses lim (snd m) (snd p)"

lemma member_run:
  assumes "member_parses lim m p" and "delimited rest" and "lim + 1 + int (length st) \<le> lim'"
    and "md = Key \<or> md = KeyOrClose"
  shows "json_run lim' (json_member m @ rest) md (InObj kvs k # st) =
    json_run lim' rest (Done (snd p)) (InObj kvs (fst p) # st)"
proof -
  let ?st = "InObj kvs (fst p) # st"
  have "json_run lim' (json_member m @ rest) md (InObj kvs k # st) =
      json_run lim' (CHR '':'' # snd m @ rest) AfterKey ?st"
    using assms(1,4) next_token_string [of "fst m" "CHR '':'' # snd m @ rest"]
    by (intro json_run_step) (auto simp: json_member_def complete_def json_step_def key_token_def member_parses_def)
  also have "\<dots> = json_run lim' (snd m @ rest) Value ?st"
    using json_run_punct(6) by (intro json_run_step) (auto simp: complete_def json_step_def)
  also have "\<dots> = json_run lim' rest (Done (snd p)) ?st"
    using assms by (intro parses_run) (auto simp: member_parses_def)
  finally show ?thesis .
qed

lemma members_run:
  assumes "list_all2 (member_parses lim) ms ps" and "lim + 1 + int (length st) \<le> lim'"
  shows "json_run lim' (concat (map (\<lambda>m. CHR '','' # json_member m) ms) @ CHR ''}'' # rest) (Done v) (InObj kvs k # st) =
    json_run lim' rest (Done (JObj (kvs @ (k, v) # ps))) st"
  using assms(1)
proof (induction ms ps arbitrary: k v kvs rule: list_all2_induct)
  case Nil
  show ?case
    using json_run_step [OF _ json_run_punct(5), of "Done v" "InObj kvs k # st" lim' "Done (JObj (kvs @ [(k, v)]))" st rest]
    by (simp add: complete_def json_step_def)
next
  case (Cons m ms p ps)
  let ?r = "concat (map (\<lambda>m. CHR '','' # json_member m) ms) @ CHR ''}'' # rest"
  have "delimited ?r" by (cases ms) simp_all
  from member_run [OF Cons(1) this assms(2), of Key "kvs @ [(k, v)]" k]
  have "json_run lim' (json_member m @ ?r) Key (InObj (kvs @ [(k, v)]) k # st) =
      json_run lim' rest (Done (JObj (kvs @ (k, v) # p # ps))) st"
    using Cons.IH [of "snd p" "kvs @ [(k, v)]" "fst p"] by simp
  then show ?case
    using json_run_step [OF _ json_run_punct(1), of "Done v" "InObj kvs k # st" lim' Key
        "InObj (kvs @ [(k, v)]) k # st" "json_member m @ ?r"]
    by (simp add: complete_def json_step_def)
qed

lemma parses_object:
  assumes "list_all2 (member_parses lim) ms ps" and "0 \<le> lim"
  shows "parses (lim + 1) (json_object ms) (JObj ps)"
proof -
  have enter: "json_run (lim + 1) (CHR ''{'' # r) Value [] = json_run (lim + 1) r KeyOrClose [InObj [] []]" for r
    using assms(2) json_run_step [OF _ json_run_punct(4), of Value "[]" "lim + 1" KeyOrClose "[InObj [] []]" r]
    by (simp add: complete_def json_step_def value_token_def)
  show ?thesis
  proof (cases ms)
    case Nil
    then show ?thesis
      using assms json_run_step [OF _ json_run_punct(5), of KeyOrClose "[InObj [] []]" "lim + 1" "Done (JObj [])" "[]" "[]"]
      by (simp add: parses_def json_object_def enter complete_def json_step_def json_run_done)
  next
    case (Cons m us)
    then obtain p qs where ps: "ps = p # qs" "member_parses lim m p" "list_all2 (member_parses lim) us qs"
      using assms by (auto simp: list_all2_Cons1)
    let ?r = "concat (map (\<lambda>m. CHR '','' # json_member m) us) @ ''}''"
    have "delimited ?r" by (cases us) simp_all
    from member_run [OF ps(2) this, of "[]" "lim + 1" KeyOrClose "[]" "[]"]
    show ?thesis using members_run [OF ps(3), of "[]" "lim + 1" "[]" "snd p" "[]" "fst p"] Cons ps(1)
      by (simp add: parses_def json_object_def enter join_comma json_run_done o_def)
  qed
qed

end
