(* ===== verification/Go_Net.thy ===== *)
theory Go_Net
  imports Json_Parse
begin

text \<open>
  The parsers of the standard library that body capture calls: \<open>url.ParseQuery\<close> for forms and
  \<open>mime.ParseMediaType\<close> for the content type.
\<close>

section \<open>Cutting\<close>

text \<open>\<open>strings.Cut(s, c)\<close> for a one-byte separator, without the flag.\<close>

definition cut :: "char \<Rightarrow> string \<Rightarrow> string \<times> string" where
  "cut c s = (takeWhile (\<lambda>x. x \<noteq> c) s, drop 1 (dropWhile (\<lambda>x. x \<noteq> c) s))"

definition trim_left :: "string \<Rightarrow> string" where
  "trim_left s = strip_left space_runes s"

section \<open>Forms\<close>

text \<open>\<open>url.QueryUnescape\<close>; None is its error.\<close>

fun query_unescape :: "string \<Rightarrow> string option" where
  "query_unescape [] = Some []"
| "query_unescape (c # s) =
     (if c = CHR ''%'' then
        (case s of
           a # b # r \<Rightarrow>
             (case (hex_value a, hex_value b) of
                (Some x, Some y) \<Rightarrow> map_option (Cons (char_of (16 * x + y))) (query_unescape r)
              | _ \<Rightarrow> None)
         | _ \<Rightarrow> None)
      else map_option (Cons (if c = CHR ''+'' then CHR '' '' else c)) (query_unescape s))"

text \<open>The parts between the ampersands; empty ones are skipped, an error in one fails the whole.\<close>

fun form_pairs :: "string list \<Rightarrow> (string \<times> string) list option" where
  "form_pairs [] = Some []"
| "form_pairs (p # ps) =
     (if CHR '';'' \<in> set p then None
      else if p = [] then form_pairs ps
      else case cut (CHR ''='') p of
        (key, val) \<Rightarrow>
          (case (query_unescape key, query_unescape val) of
             (Some key, Some val) \<Rightarrow> map_option (Cons (key, val)) (form_pairs ps)
           | _ \<Rightarrow> None))"

text \<open>\<open>m[key] = append(m[key], value)\<close>.\<close>

fun add_value :: "string \<times> string \<Rightarrow> (string \<times> string list) list \<Rightarrow> (string \<times> string list) list" where
  "add_value (key, val) [] = [(key, [val])]"
| "add_value (key, val) ((k, vs) # m) =
     (if k = key then (k, vs @ [val]) # m else (k, vs) # add_value (key, val) m)"

text \<open>Without the \<open>urlmaxqueryparams\<close> setting.\<close>

definition maxQueryParams :: nat where
  "maxQueryParams = 10000"

definition parse_query :: "string \<Rightarrow> (string \<times> string list) list option" where
  "parse_query s =
     (let parts = split_on (CHR ''&'') s
      in if maxQueryParams < length parts then None
         else map_option (\<lambda>ps. fold add_value ps []) (form_pairs parts))"

subsection \<open>A form is read back\<close>

lemma split_on_none: "c \<notin> set s \<Longrightarrow> split_on c s = [s]"
  by (induction s) auto

lemma split_on_cons: "c \<notin> set s \<Longrightarrow> split_on c (s @ c # t) = s # split_on c t"
  by (induction s) auto

lemma split_on_join: "ps \<noteq> [] \<Longrightarrow> (\<And>p. p \<in> set ps \<Longrightarrow> c \<notin> set p) \<Longrightarrow> split_on c (join [c] ps) = ps"
proof (induction ps)
  case (Cons p ps)
  then show ?case by (cases ps) (simp_all add: split_on_none split_on_cons)
qed simp

lemma cut_at: "c \<notin> set s \<Longrightarrow> cut c (s @ c # t) = (s, t)"
  by (induction s) (auto simp: cut_def)

text \<open>How a client writes a form (\<open>url.QueryEscape\<close>).\<close>

definition unreserved :: "char \<Rightarrow> bool" where
  "unreserved c \<longleftrightarrow> in_range 48 57 c \<or> in_range 65 90 c \<or> in_range 97 122 c \<or> c \<in> set ''-_.~''"

definition upper_hex :: "nat \<Rightarrow> char" where
  "upper_hex n = (if n < 10 then digit n else char_of (55 + n))"

definition escape_byte :: "char \<Rightarrow> string" where
  "escape_byte c = (if unreserved c then [c] else if c = CHR '' '' then ''+''
     else [CHR ''%'', upper_hex (byte c div 16), upper_hex (byte c mod 16)])"

definition query_escape :: "string \<Rightarrow> string" where
  "query_escape s = concat (map escape_byte s)"

definition form_text :: "(string \<times> string) list \<Rightarrow> string" where
  "form_text ps = join ''&'' (map (\<lambda>(k, v). query_escape k @ CHR ''='' # query_escape v) ps)"

lemma upper_hex_value: "n < 16 \<Longrightarrow> hex_value (upper_hex n) = Some n"
proof -
  assume n: "n < 16"
  show ?thesis
  proof (cases "n < 10")
    case True
    then show ?thesis by (simp add: upper_hex_def hex_value_def in_range_def byte_digit)
  next
    case False
    with n have "byte (char_of (55 + n)) = 55 + n" by (simp add: byte_def)
    with n False show ?thesis by (simp add: upper_hex_def hex_value_def in_range_def)
  qed
qed

lemma byte_split: "char_of (16 * (byte c div 16) + byte c mod 16) = c"
  by (simp add: byte_def)

lemma unescape_byte: "query_unescape (escape_byte c @ s) = map_option (Cons c) (query_unescape s)"
proof -
  have "byte c < 256" by (simp add: byte_def)
  then have h: "byte c div 16 < 16" "byte c mod 16 < 16" by simp_all
  have "unreserved c \<Longrightarrow> c \<noteq> CHR ''%'' \<and> c \<noteq> CHR ''+''"
    by (auto simp: unreserved_def in_range_def byte_def)
  then show ?thesis using upper_hex_value [OF h(1)] upper_hex_value [OF h(2)] byte_split [of c]
    by (simp add: escape_byte_def)
qed

lemma unescape_escape: "query_unescape (query_escape s) = Some s"
  by (induction s) (simp_all add: query_escape_def unescape_byte)

lemma hex_not_special:
  assumes "n < 16"
  shows "upper_hex n \<notin> {CHR ''&'', CHR '';'', CHR ''=''}"
proof -
  have "hex_value (CHR ''&'') = None" "hex_value (CHR '';'') = None" "hex_value (CHR ''='') = None"
    by (simp_all add: hex_value_def in_range_def byte_def)
  with upper_hex_value [OF assms] show ?thesis by auto
qed

lemma escape_plain: "x \<in> set (query_escape s) \<Longrightarrow> x \<notin> {CHR ''&'', CHR '';'', CHR ''=''}"
proof (induction s)
  case (Cons c s)
  have "byte c < 256" by (simp add: byte_def)
  then have h: "byte c div 16 < 16" "byte c mod 16 < 16" by simp_all
  have "unreserved c \<Longrightarrow> c \<notin> {CHR ''&'', CHR '';'', CHR ''=''}"
    by (auto simp: unreserved_def in_range_def byte_def)
  then have "x \<in> set (escape_byte c) \<Longrightarrow> ?case"
    using hex_not_special [OF h(1)] hex_not_special [OF h(2)] by (auto simp: escape_byte_def split: if_splits)
  with Cons show ?case by (auto simp: query_escape_def)
qed (simp add: query_escape_def)

lemma form_pairs_escaped:
  "form_pairs (map (\<lambda>(k, v). query_escape k @ CHR ''='' # query_escape v) ps) = Some ps"
proof (induction ps)
  case (Cons p ps)
  obtain k v where p: "p = (k, v)" by (cases p)
  have "CHR '';'' \<notin> set (query_escape k) \<union> set (query_escape v)" "CHR ''='' \<notin> set (query_escape k)"
    using escape_plain by blast+
  with Cons p show ?case by (simp add: cut_at unescape_escape)
qed simp

lemma parse_form_text:
  assumes "length ps \<le> maxQueryParams"
  shows "parse_query (form_text ps) = Some (fold add_value ps [])"
proof (cases "ps = []")
  case True
  then show ?thesis by (simp add: parse_query_def form_text_def maxQueryParams_def)
next
  case False
  let ?ts = "map (\<lambda>(k, v). query_escape k @ CHR ''='' # query_escape v) ps"
  have "CHR ''&'' \<notin> set t" if "t \<in> set ?ts" for t using that escape_plain by fastforce
  then have "split_on (CHR ''&'') (form_text ps) = ?ts"
    using split_on_join [of ?ts "CHR ''&''"] False by (simp add: form_text_def)
  with assms show ?thesis using form_pairs_escaped [of ps] by (simp add: parse_query_def)
qed

text \<open>What is filed under a name: the values of the pairs of that name, in their order; each name once.\<close>

lemma add_value_map_of:
  "map_of (add_value (k, v) m) x = (if x = k then Some ((case map_of m k of None \<Rightarrow> [] | Some vs \<Rightarrow> vs) @ [v]) else map_of m x)"
  by (induction "(k, v)" m rule: add_value.induct) auto

lemma add_value_keys: "distinct (map fst m) \<Longrightarrow> distinct (map fst (add_value (k, v) m)) \<and>
    set (map fst (add_value (k, v) m)) = insert k (set (map fst m))"
  by (induction "(k, v)" m rule: add_value.induct) auto

lemma form_values:
  "map_of (fold add_value ps m) x =
     (case map snd (filter (\<lambda>p. fst p = x) ps) of
        [] \<Rightarrow> map_of m x
      | vs \<Rightarrow> Some ((case map_of m x of None \<Rightarrow> [] | Some ws \<Rightarrow> ws) @ vs))"
proof (induction ps arbitrary: m)
  case (Cons p ps)
  obtain k v where p: "p = (k, v)" by (cases p)
  show ?case unfolding p using Cons [of "add_value (k, v) m"]
    by (auto simp: add_value_map_of split: list.split)
qed simp

section \<open>Media types\<close>

definition tspecials :: string where
  "tspecials = ''()<>@,;:'' @ [backslash, dquote] @ ''/[]?=''"

definition token_char :: "char \<Rightarrow> bool" where
  "token_char c \<longleftrightarrow> in_range 33 126 c \<and> c \<notin> set tspecials"

definition consume_token :: "string \<Rightarrow> string \<times> string" where
  "consume_token v = (takeWhile token_char v, dropWhile token_char v)"

definition media_type_ok :: "string \<Rightarrow> bool" where
  "media_type_ok s =
     (case consume_token s of
        (typ, rest) \<Rightarrow>
          typ \<noteq> [] \<and>
          (case rest of
             [] \<Rightarrow> True
           | c # rest \<Rightarrow> c = CHR ''/'' \<and>
               (case consume_token rest of (subtype, rest) \<Rightarrow> subtype \<noteq> [] \<and> rest = [])))"

text \<open>The inside of a quoted string and what follows the closing quote; None without one.\<close>

fun quoted_value :: "string \<Rightarrow> (string \<times> string) option" where
  "quoted_value [] = None"
| "quoted_value (c # v) =
     (if c = dquote then Some ([], v)
      else if c = backslash \<and> v \<noteq> [] \<and> hd v \<in> set tspecials
      then map_option (apfst (Cons (hd v))) (quoted_value (tl v))
      else if c = CHR 0x0D \<or> c = CHR 0x0A then None
      else map_option (apfst (Cons c)) (quoted_value v))"

definition consume_value :: "string \<Rightarrow> string \<times> string" where
  "consume_value v =
     (case v of
        [] \<Rightarrow> ([], [])
      | c # r \<Rightarrow> if c \<noteq> dquote then consume_token v
                else (case quoted_value r of None \<Rightarrow> ([], v) | Some p \<Rightarrow> p))"

text \<open>\<open>consumeMediaParam\<close>; None where it answers with an empty key.\<close>

definition consume_media_param :: "(string \<Rightarrow> string) \<Rightarrow> string \<Rightarrow> (string \<times> string \<times> string) option" where
  "consume_media_param lower v =
     (case trim_left v of
        [] \<Rightarrow> None
      | c # rest \<Rightarrow>
        (if c \<noteq> CHR '';'' then None
         else case consume_token (trim_left rest) of
           (param, rest) \<Rightarrow>
             (if param = [] then None
              else case trim_left rest of
                [] \<Rightarrow> None
              | c # rest \<Rightarrow>
                (if c \<noteq> CHR ''='' then None
                 else let rest = trim_left rest
                      in case consume_value rest of
                        (val, rest2) \<Rightarrow>
                          (if val = [] \<and> rest2 = rest then None
                           else Some (to_lower lower param, val, rest2))))))"

lemma trim_left_length: "length (trim_left s) \<le> length s"
  using suffix_length_le [OF strip_left_suffix] by (simp add: trim_left_def)

lemma consume_token_length: "consume_token v = (t, r) \<Longrightarrow> length r \<le> length v"
  by (auto simp: consume_token_def length_dropWhile_le)

lemma quoted_value_length: "quoted_value v = Some (t, r) \<Longrightarrow> length r < length v"
proof (induction v arbitrary: t r rule: quoted_value.induct)
  case (2 c v)
  show ?case
  proof (cases "c \<noteq> dquote \<and> c = backslash \<and> v \<noteq> [] \<and> hd v \<in> set tspecials")
    case True
    with 2(3) obtain t' where "quoted_value (tl v) = Some (t', r)" by auto
    with 2(1) True have "length r < length (tl v)" by blast
    then show ?thesis by simp
  next
    case False
    with 2 show ?thesis by (auto split: if_splits)
  qed
qed simp

lemma consume_value_length: "consume_value v = (t, r) \<Longrightarrow> length r \<le> length v"
  by (auto simp: consume_value_def split: list.splits if_splits option.splits
      dest: consume_token_length quoted_value_length)

lemma consume_media_param_shorter:
  assumes "consume_media_param lower v = Some (k, x, r)"
  shows "length r < length v"
proof -
  obtain c r1 where r1: "trim_left v = c # r1"
    using assms by (auto simp: consume_media_param_def split: list.splits)
  obtain p r2 where r2: "consume_token (trim_left r1) = (p, r2)" by (cases "consume_token (trim_left r1)")
  obtain c' r3 where r3: "trim_left r2 = c' # r3"
    using assms r1 r2 by (auto simp: consume_media_param_def split: list.splits if_splits)
  obtain y r4 where r4: "consume_value (trim_left r3) = (y, r4)" by (cases "consume_value (trim_left r3)")
  have "r = r4" using assms r1 r2 r3 r4 by (auto simp: consume_media_param_def Let_def split: if_splits)
  moreover have "length r4 \<le> length r3" using consume_value_length [OF r4] trim_left_length [of r3] by simp
  moreover have "length r3 < length r2" using trim_left_length [of r2] r3 by simp
  moreover have "length r2 \<le> length r1" using consume_token_length [OF r2] trim_left_length [of r1] by simp
  moreover have "length r1 < length v" using trim_left_length [of v] r1 by simp
  ultimately show ?thesis by simp
qed

text \<open>
  The loop over the parameters: whether it ends without an error.  The parameters only matter for
  the check for a repeated name.  The code keeps those with a star in maps of their own, one for
  each name before the star; the full name decides which, so one map serves.
\<close>

function media_params_ok :: "(string \<Rightarrow> string) \<Rightarrow> (string \<times> string) list \<Rightarrow> string \<Rightarrow> bool" where
  "media_params_ok lower params v =
     (let v = trim_left v
      in if v = [] then True
         else (case consume_media_param lower v of
                 None \<Rightarrow> trim_space v = '';''
               | Some (key, val, rest) \<Rightarrow>
                 (case map_of params key of
                    Some old \<Rightarrow> old = val \<and> media_params_ok lower params rest
                  | None \<Rightarrow> media_params_ok lower ((key, val) # params) rest)))"
  by pat_completeness auto
termination
proof (relation "measure (\<lambda>(lower, params, v). length v)")
  show "wf (measure (\<lambda>(lower :: string \<Rightarrow> string, params :: (string \<times> string) list, v). length v))" by simp
qed (use consume_media_param_shorter trim_left_length in \<open>fastforce intro: less_le_trans\<close>)+

declare media_params_ok.simps [simp del]

text \<open>\<open>mime.ParseMediaType\<close> as far as the caller reads its result; None is an error.\<close>

definition parse_media_type :: "(string \<Rightarrow> string) \<Rightarrow> string \<Rightarrow> string option" where
  "parse_media_type lower v =
     (let base = takeWhile (\<lambda>c. c \<noteq> CHR '';'') v;
          mediatype = trim_space (to_lower lower base)
      in if \<not> media_type_ok mediatype then None
         else if media_params_ok lower [] (drop (length base) v) then Some mediatype
         else None)"

end
