(* ===== verification/Json_Decode.thy ===== *)
theory Json_Decode
  imports Json_Parse
begin

text \<open>
  \<open>json.Unmarshal\<close> and \<open>Decoder.Decode\<close> into the values the SDK reads: \<open>any\<close> (with or without
  \<open>UseNumber\<close>) and structs by the names in their tags.  An error of any member makes the whole call
  fail, which is all its callers look at, so a result is an option.  How a \<open>float64\<close> is printed again is
  data of Go's \<open>strconv\<close>: the argument \<open>fl\<close> takes a decimal to the text of the nearest float.
\<close>

section \<open>Numbers\<close>

text \<open>
  The decimal of a number's text, as \<open>ParseFloat\<close> reads it (digits of the exponent beyond 10000 are
  ignored), and the range of a \<open>float64\<close>: from half a unit above the largest one it is an error.
\<close>

definition exponent_value :: "string \<Rightarrow> int" where
  "exponent_value s =
     (case split_sign s of
        (sign, ds) \<Rightarrow>
          let n = foldl (\<lambda>e c. if e < 10000 then 10 * e + (byte c - 48) else e) 0 ds
          in if sign = ''-'' then - int n else int n)"

definition decimal :: "string \<Rightarrow> nat \<times> int" where
  "decimal t =
     (let t = snd (split_minus t);
          ds = digits_of t;
          r = after_digits t;
          fs = (case r of c # r \<Rightarrow> if c = CHR ''.'' then digits_of r else [] | [] \<Rightarrow> []);
          es = dropWhile (\<lambda>c. c \<noteq> CHR ''e'' \<and> c \<noteq> CHR ''E'') r
      in (digits_value (ds @ fs), (case es of _ # x \<Rightarrow> exponent_value x | [] \<Rightarrow> 0) - int (length fs)))"

definition float_bound :: int where
  "float_bound = (2 ^ 54 - 1) * 2 ^ 970"

definition float_overflows :: "string \<Rightarrow> bool" where
  "float_overflows t =
     (case decimal t of
        (m, e) \<Rightarrow> if 0 \<le> e then float_bound \<le> int m * 10 ^ nat e else float_bound * 10 ^ nat (- e) \<le> int m)"

definition float_number :: "(string \<Rightarrow> string) \<Rightarrow> string \<Rightarrow> gval option" where
  "float_number fl t = (if float_overflows t then None else Some (GOther ''float64'' (Some (fl t))))"

definition use_number :: "string \<Rightarrow> gval option" where
  "use_number t = Some (GOther ''json.Number'' (Some t))"

section \<open>Values\<close>

text \<open>An object becomes a map: of two members with one key the later one stays.\<close>

fun json_any :: "(string \<Rightarrow> gval option) \<Rightarrow> json \<Rightarrow> gval option"
  and json_anys :: "(string \<Rightarrow> gval option) \<Rightarrow> json list \<Rightarrow> gval list option"
  and json_into :: "(string \<Rightarrow> gval option) \<Rightarrow> (string \<times> json) list \<Rightarrow> entries \<Rightarrow> entries option"
where
  "json_any num JNull = Some GNil"
| "json_any num (JBool b) = Some (GBool b)"
| "json_any num (JNum t) = num t"
| "json_any num (JStr s) = Some (GStr s)"
| "json_any num (JArr js) = map_option (\<lambda>vs. GSlice (Some vs)) (json_anys num js)"
| "json_any num (JObj ms) = map_option (\<lambda>kvs. GMap (Some kvs)) (json_into num ms [])"
| "json_anys num [] = Some []"
| "json_anys num (j # js) =
     (case json_any num j of None \<Rightarrow> None | Some v \<Rightarrow> map_option ((#) v) (json_anys num js))"
| "json_into num [] kvs = Some kvs"
| "json_into num ((k, j) # ms) kvs =
     (case json_any num j of None \<Rightarrow> None | Some v \<Rightarrow> json_into num ms (entry_set k v kvs))"

text \<open>\<open>Decoder.Decode\<close> with \<open>UseNumber\<close> into an \<open>any\<close>: the first value of the input.\<close>

definition decode_number_any :: "string \<Rightarrow> gval option" where
  "decode_number_any s = (case json_first s of None \<Rightarrow> None | Some j \<Rightarrow> json_any use_number j)"

section \<open>Structs\<close>

text \<open>
  What decoding into a field does: null leaves a string or an integer alone, and sets a pointer, an
  interface, a map or a slice to nil.
\<close>

definition str_field :: "((string \<Rightarrow> string) \<Rightarrow> 's \<Rightarrow> 's) \<Rightarrow> json \<Rightarrow> 's \<Rightarrow> 's option" where
  "str_field upd j s = (case j of JStr v \<Rightarrow> Some (upd (\<lambda>_. v) s) | JNull \<Rightarrow> Some s | _ \<Rightarrow> None)"

definition num_field :: "(string \<Rightarrow> 'n option) \<Rightarrow> (('n \<Rightarrow> 'n) \<Rightarrow> 's \<Rightarrow> 's) \<Rightarrow> json \<Rightarrow> 's \<Rightarrow> 's option" where
  "num_field read upd j s =
     (case j of JNum t \<Rightarrow> map_option (\<lambda>v. upd (\<lambda>_. v) s) (read t) | JNull \<Rightarrow> Some s | _ \<Rightarrow> None)"

definition ptr_field :: "((int option \<Rightarrow> int option) \<Rightarrow> 's \<Rightarrow> 's) \<Rightarrow> json \<Rightarrow> 's \<Rightarrow> 's option" where
  "ptr_field upd j s =
     (case j of
        JNum t \<Rightarrow> map_option (\<lambda>v. upd (\<lambda>_. Some v) s) (atoi t)
      | JNull \<Rightarrow> Some (upd (\<lambda>_. None) s)
      | _ \<Rightarrow> None)"

definition any_field :: "(string \<Rightarrow> string) \<Rightarrow> ((gval \<Rightarrow> gval) \<Rightarrow> 's \<Rightarrow> 's) \<Rightarrow> json \<Rightarrow> 's \<Rightarrow> 's option" where
  "any_field fl upd j s = map_option (\<lambda>v. upd (\<lambda>_. v) s) (json_any (float_number fl) j)"

definition map_field ::
  "(string \<Rightarrow> string) \<Rightarrow> ('s \<Rightarrow> fields) \<Rightarrow> ((fields \<Rightarrow> fields) \<Rightarrow> 's \<Rightarrow> 's) \<Rightarrow> json \<Rightarrow> 's \<Rightarrow> 's option" where
  "map_field fl get upd j s =
     (case j of
        JObj ms \<Rightarrow> map_option (\<lambda>kvs. upd (\<lambda>_. Some kvs) s) (json_into (float_number fl) ms (entries_of (get s)))
      | JNull \<Rightarrow> Some (upd (\<lambda>_. None) s)
      | _ \<Rightarrow> None)"

text \<open>A member finds its field by the exact name, else by the name without case.\<close>

definition fold_rune :: "string \<Rightarrow> string" where
  "fold_rune r =
     (case r of
        [c] \<Rightarrow> [if in_range 97 122 c then char_of (byte c - 32) else c]
      | _ \<Rightarrow> if r = [CHR 0xC5, CHR 0xBF] then ''S''
            else if r = [CHR 0xE2, CHR 0x84, CHR 0xAA] then ''K''
            else r)"

definition fold_name :: "string \<Rightarrow> string" where
  "fold_name = map_runes fold_rune"

definition find_field :: "(string \<times> 'f) list \<Rightarrow> string \<Rightarrow> 'f option" where
  "find_field table k =
     (case map_of table k of
        Some f \<Rightarrow> Some f
      | None \<Rightarrow> map_option snd (find (\<lambda>(name, _). fold_name name = fold_name k) table))"

fun decode_members ::
  "(string \<times> (json \<Rightarrow> 's \<Rightarrow> 's option)) list \<Rightarrow> (string \<times> json) list \<Rightarrow> 's \<Rightarrow> 's option" where
  "decode_members table [] s = Some s"
| "decode_members table ((k, j) # ms) s =
     (case find_field table k of
        None \<Rightarrow> decode_members table ms s
      | Some f \<Rightarrow> (case f j s of None \<Rightarrow> None | Some s' \<Rightarrow> decode_members table ms s'))"

definition decode_struct ::
  "(string \<times> (json \<Rightarrow> 's \<Rightarrow> 's option)) list \<Rightarrow> json \<Rightarrow> 's \<Rightarrow> 's option" where
  "decode_struct table j s =
     (case j of JObj ms \<Rightarrow> decode_members table ms s | JNull \<Rightarrow> Some s | _ \<Rightarrow> None)"

definition unmarshal ::
  "(string \<times> (json \<Rightarrow> 's \<Rightarrow> 's option)) list \<Rightarrow> 's \<Rightarrow> string \<Rightarrow> 's option" where
  "unmarshal table zero text =
     (case json_parse text of None \<Rightarrow> None | Some j \<Rightarrow> decode_struct table j zero)"

lemma find_field_entry: "distinct (map fst table) \<Longrightarrow> (k, f) \<in> set table \<Longrightarrow> find_field table k = Some f"
  by (simp add: find_field_def map_of_is_SomeI)

section \<open>What the encoder writes is decoded to the same\<close>

text \<open>No number of the value is outside the range of a float.\<close>

fun floats_ok :: "json \<Rightarrow> bool"
  and all_floats_ok :: "json list \<Rightarrow> bool"
  and members_floats_ok :: "(string \<times> json) list \<Rightarrow> bool"
where
  "floats_ok (JNum t) = (\<not> float_overflows t)"
| "floats_ok (JArr js) = all_floats_ok js"
| "floats_ok (JObj ms) = members_floats_ok ms"
| "floats_ok _ = True"
| "all_floats_ok [] = True"
| "all_floats_ok (j # js) = (floats_ok j \<and> all_floats_ok js)"
| "members_floats_ok [] = True"
| "members_floats_ok ((k, j) # ms) = (floats_ok j \<and> members_floats_ok ms)"

lemma json_any_total:
  shows "floats_ok j \<Longrightarrow> \<exists>v. json_any (float_number fl) j = Some v"
    and "all_floats_ok js \<Longrightarrow> \<exists>vs. json_anys (float_number fl) js = Some vs"
    and "members_floats_ok ms \<Longrightarrow> \<exists>kvs'. json_into (float_number fl) ms kvs = Some kvs'"
proof (induction j and js and ms arbitrary: and and kvs rule: floats_ok_all_floats_ok_members_floats_ok.induct)
  case (8 k j ms)
  then obtain v where "json_any (float_number fl) j = Some v" by auto
  with 8(2) [of "entry_set k v kvs"] "8.prems" show ?case by simp
qed (auto simp: float_number_def)

lemma decimal_int: "decimal (int_dec i) = (nat \<bar>i\<bar>, 0)"
proof -
  have all: "digits_of (nat_dec n) = nat_dec n" "after_digits (nat_dec n) = []" for n
    using nat_dec_digits [of n] by (auto simp: digits_of_def after_digits_def list_all_iff takeWhile_eq_all_conv)
  have "snd (split_minus (int_dec i)) = nat_dec (nat \<bar>i\<bar>)"
  proof (cases "i < 0")
    case False
    obtain c r where c: "nat_dec (nat i) = c # r" by (cases "nat_dec (nat i)") auto
    then have "c \<noteq> CHR ''-''" using nat_dec_digits [of "nat i"] is_digit_not_sign by fastforce
    then show ?thesis using False c by (simp add: int_dec_def split_minus_def)
  qed (simp add: int_dec_def split_minus_def)
  then show ?thesis by (simp add: decimal_def all digits_value_nat_dec)
qed

lemma int_in_range:
  assumes "- (2 ^ 64) < i" and "i < 2 ^ 64"
  shows "\<not> float_overflows (int_dec i)"
proof -
  have "(2::int) ^ 64 * 1 \<le> 2 ^ 970 * (2 ^ 54 - 1)"
    by (rule mult_mono, rule power_increasing) simp_all
  then have "(2::int) ^ 64 \<le> float_bound" by (simp only: float_bound_def mult.commute mult_1_right)
  moreover have "\<bar>i\<bar> < 2 ^ 64" using assms by simp
  ultimately show ?thesis by (simp add: float_overflows_def decimal_int)
qed

text \<open>
  A value whose text nests at most \<open>lim\<close> deep, with its numbers in range; for a value of another type
  the text that the encoder made of it is one such value.
\<close>

fun readable :: "int \<Rightarrow> gval \<Rightarrow> bool"
  and all_readable :: "int \<Rightarrow> gval list \<Rightarrow> bool"
  and entries_readable :: "int \<Rightarrow> entries \<Rightarrow> bool"
  and changes_readable :: "int \<Rightarrow> change list \<Rightarrow> bool"
where
  "readable lim (GInt i) = (- (2 ^ 64) < i \<and> i < 2 ^ 64)"
| "readable lim (GOther ty enc) = (case enc of None \<Rightarrow> True | Some t \<Rightarrow> (case json_run lim t Value [] of
     Some (j, []) \<Rightarrow> floats_ok j | _ \<Rightarrow> False))"
| "readable lim (GFields m) = (case m of None \<Rightarrow> True | Some kvs \<Rightarrow> 0 < lim \<and> entries_readable (lim - 1) kvs)"
| "readable lim (GMap m) = (case m of None \<Rightarrow> True | Some kvs \<Rightarrow> 0 < lim \<and> entries_readable (lim - 1) kvs)"
| "readable lim (GSlice m) = (case m of None \<Rightarrow> True | Some vs \<Rightarrow> 0 < lim \<and> all_readable (lim - 1) vs)"
| "readable lim (GStrings m) = (m = None \<or> 0 < lim)"
| "readable lim (GChanges m) = (case m of None \<Rightarrow> True | Some cs \<Rightarrow> 0 < lim \<and> changes_readable (lim - 2) cs)"
| "readable lim _ = True"
| "all_readable lim [] = True"
| "all_readable lim (v # vs) = (readable lim v \<and> all_readable lim vs)"
| "entries_readable lim [] = True"
| "entries_readable lim ((k, v) # kvs) = (readable lim v \<and> entries_readable lim kvs)"
| "changes_readable lim [] = True"
| "changes_readable lim (Change f x y # cs) = (0 \<le> lim \<and> readable lim x \<and> readable lim y \<and> changes_readable lim cs)"

text \<open>The text is one value, and decodes to some \<open>any\<close>.\<close>

definition reads :: "int \<Rightarrow> string \<Rightarrow> json \<Rightarrow> bool" where
  "reads lim t j \<longleftrightarrow> parses lim t j \<and> floats_ok j"

lemma reads_simps [simp]:
  "reads lim ''null'' JNull" "reads lim ''true'' (JBool True)" "reads lim ''false'' (JBool False)"
  "reads lim (json_string s) (JStr (to_valid s))"
  "- (2 ^ 64) < i \<Longrightarrow> i < 2 ^ 64 \<Longrightarrow> reads lim (int_dec i) (JNum (int_dec i))"
  by (simp_all add: reads_def parses_literals parses_string parses_int int_in_range)

lemma reads_array:
  assumes "list_all2 (reads lim) ts js" and "0 \<le> lim"
  shows "reads (lim + 1) (json_array ts) (JArr js)"
proof -
  have "list_all2 (parses lim) ts js" using assms(1) by (auto simp: reads_def elim: list_all2_mono)
  moreover have "all_floats_ok js" using assms(1) by (induction) (auto simp: reads_def)
  ultimately show ?thesis using assms(2) by (simp add: reads_def parses_array)
qed

definition member_reads :: "int \<Rightarrow> string \<times> string \<Rightarrow> string \<times> json \<Rightarrow> bool" where
  "member_reads lim m p \<longleftrightarrow> fst p = to_valid (fst m) \<and> reads lim (snd m) (snd p)"

lemma reads_object:
  assumes "list_all2 (member_reads lim) ms ps" and "0 \<le> lim"
  shows "reads (lim + 1) (json_object ms) (JObj ps)"
proof -
  have "list_all2 (member_parses lim) ms ps"
    using assms(1) by (auto simp: member_reads_def member_parses_def reads_def elim: list_all2_mono)
  moreover have "members_floats_ok ps" using assms(1)
    by (induction rule: list_all2_induct) (auto simp: member_reads_def reads_def)
  ultimately show ?thesis using assms(2) by (simp add: reads_def parses_object)
qed

lemma reads_members: "\<forall>m \<in> set ms. \<exists>j. reads lim (snd m) j \<Longrightarrow> \<exists>ps. list_all2 (member_reads lim) ms ps"
proof (induction ms)
  case (Cons m ms)
  then obtain j ps where "reads lim (snd m) j" "list_all2 (member_reads lim) ms ps" by auto
  then have "list_all2 (member_reads lim) (m # ms) ((to_valid (fst m), j) # ps)" by (simp add: member_reads_def)
  then show ?case by blast
qed (blast intro: list_all2_Nil [THEN iffD2])

lemma reads_map: "0 \<le> lim \<Longrightarrow> \<forall>m \<in> set ms. \<exists>j. reads lim (snd m) j \<Longrightarrow> \<exists>ps. reads (lim + 1) (json_map ms) (JObj ps)"
  using reads_members [of "sort_key fst ms" lim] reads_object unfolding json_map_def by fastforce

lemma reads_change: "0 \<le> lim \<Longrightarrow> reads lim tx x \<Longrightarrow> reads lim ty y \<Longrightarrow>
    \<exists>j. reads (lim + 1) (json_object [(''field'', json_string f), (''old_value'', tx), (''new_value'', ty)]) j"
  using reads_object [of lim "[(''field'', json_string f), (''old_value'', tx), (''new_value'', ty)]"
      "[(to_valid ''field'', JStr (to_valid f)), (to_valid ''old_value'', x), (to_valid ''new_value'', y)]"]
  by (auto simp: member_reads_def)

lemma reads_some:
  "\<exists>j. reads lim ''null'' j" "\<exists>j. reads lim ''true'' j" "\<exists>j. reads lim ''false'' j"
  "\<exists>j. reads lim (json_string s) j" "\<exists>js. list_all2 (reads lim) [] js"
  "- (2 ^ 64) < i \<Longrightarrow> i < 2 ^ 64 \<Longrightarrow> \<exists>j. reads lim (int_dec i) j"
  using reads_simps list_all2_Nil by blast+

lemma json_val_reads:
  shows "json_val v = Some t \<Longrightarrow> readable lim v \<Longrightarrow> \<exists>j. reads lim t j"
    and "json_vals vs = Some ts \<Longrightarrow> all_readable lim vs \<Longrightarrow> \<exists>js. list_all2 (reads lim) ts js"
    and "json_entries kvs = Some ms \<Longrightarrow> entries_readable lim kvs \<Longrightarrow> \<forall>m \<in> set ms. \<exists>j. reads lim (snd m) j"
    and "json_changes cs = Some ts \<Longrightarrow> changes_readable lim cs \<Longrightarrow> \<exists>js. list_all2 (reads (lim + 1)) ts js"
proof (induction v and vs and kvs and cs arbitrary: t lim and ts lim and ms lim and ts lim
    rule: json_val_json_vals_json_entries_json_changes.induct)
  case (6 kvs)
  then obtain ms n where ms: "json_entries kvs = Some ms" "t = json_map ms" and n: "0 \<le> n" "lim = n + 1" "entries_readable n kvs"
    using that [of _ "lim - 1"] by auto
  from 6(1) [OF ms(1) n(3)] show ?case unfolding ms(2) n(2) using reads_map [OF n(1)] by blast
next
  case (8 kvs)
  then obtain ms n where ms: "json_entries kvs = Some ms" "t = json_map ms" and n: "0 \<le> n" "lim = n + 1" "entries_readable n kvs"
    using that [of _ "lim - 1"] by auto
  from 8(1) [OF ms(1) n(3)] show ?case unfolding ms(2) n(2) using reads_map [OF n(1)] by blast
next
  case (10 vs)
  then obtain ts n where ts: "json_vals vs = Some ts" "t = json_array ts" and n: "0 \<le> n" "lim = n + 1" "all_readable n vs"
    using that [of _ "lim - 1"] by auto
  from 10(1) [OF ts(1) n(3)] show ?case unfolding ts(2) n(2) using reads_array [OF _ n(1)] by blast
next
  case (12 ss)
  then obtain n where "lim = n + 1" "0 \<le> n" using that [of "lim - 1"] by auto
  moreover have "list_all2 (reads n) (map json_string ss) (map (\<lambda>s. JStr (to_valid s)) ss)" for n
    by (induction ss) simp_all
  ultimately show ?case using 12 reads_array [of n "map json_string ss"] by auto
next
  case (14 cs)
  then obtain ts where ts: "json_changes cs = Some ts" "t = json_array ts" by auto
  with 14(3) have n: "0 \<le> lim - 1" "changes_readable (lim - 2) cs" by simp_all
  from 14(1) [OF ts(1) n(2)] show ?case unfolding ts(2) using reads_array [OF _ n(1)] by (auto simp: algebra_simps)
next
  case (15 ty enc)
  then show ?case by (auto simp: reads_def parses_def split: option.splits prod.splits list.splits)
next
  case (17 v vs)
  then obtain u us where u: "json_val v = Some u" "json_vals vs = Some us" "ts = u # us"
    by (auto split: option.splits)
  with 17(1) [of u lim] 17(2) [OF u(1,2), of lim] "17.prems"(2) show ?case by (auto simp: list_all2_Cons1)
next
  case (19 k v kvs)
  then obtain u us where u: "json_val v = Some u" "json_entries kvs = Some us" "ms = (k, u) # us"
    by (auto split: option.splits)
  with 19(1) [of u lim] 19(2) [OF u(1,2), of lim] "19.prems"(2) show ?case by simp
next
  case (21 f x y cs)
  then obtain tx ty us where t: "json_val x = Some tx" "json_val y = Some ty" "json_changes cs = Some us"
      "ts = json_object [(''field'', json_string f), (''old_value'', tx), (''new_value'', ty)] # us"
    by (auto split: option.splits)
  with 21 obtain jx jy js where "reads lim tx jx" "reads lim ty jy" "list_all2 (reads (lim + 1)) us js"
    by fastforce
  with t(4) reads_change [of lim tx jx ty jy f] "21.prems"(2) show ?case by (auto simp: list_all2_Cons1)
qed (auto simp: json_bool_def intro: reads_some)

section \<open>A struct field by field\<close>

text \<open>The members of a struct's text, decoded one after the other, take \<open>s\<close> to \<open>s'\<close>.\<close>

definition slots ::
  "(string \<times> (json \<Rightarrow> 's \<Rightarrow> 's option)) list \<Rightarrow> int \<Rightarrow> (string \<times> string) list option list \<Rightarrow> 's \<Rightarrow> 's \<Rightarrow> bool" where
  "slots table lim ms s s' \<longleftrightarrow>
     (\<forall>mss. those ms = Some mss \<longrightarrow>
       (\<exists>ps. list_all2 (member_reads lim) (concat mss) ps \<and> decode_members table ps s = Some s'))"

definition field_at :: "(string \<times> (json \<Rightarrow> 's \<Rightarrow> 's option)) list \<Rightarrow> string \<Rightarrow> (json \<Rightarrow> 's \<Rightarrow> 's option) \<Rightarrow> bool" where
  "field_at table k f \<longleftrightarrow> find_field table k = Some f \<and> to_valid k = k"

lemma decode_members_append:
  "decode_members table (ps @ qs) s =
     (case decode_members table ps s of None \<Rightarrow> None | Some s' \<Rightarrow> decode_members table qs s')"
  by (induction ps arbitrary: s) (auto split: option.split)

lemma slots_Nil: "s = s' \<Longrightarrow> slots table lim [] s s'"
  by (simp add: slots_def)

lemma slots_Cons:
  assumes "\<And>ms. m = Some ms \<Longrightarrow> \<exists>ps. list_all2 (member_reads lim) ms ps \<and> decode_members table ps s = Some s1"
    and "slots table lim rest s1 s'"
  shows "slots table lim (m # rest) s s'"
  unfolding slots_def
proof (intro allI impI)
  fix mss
  assume "those (m # rest) = Some mss"
  then obtain ms mss' where m: "m = Some ms" "those rest = Some mss'" "mss = ms # mss'" by (auto split: option.splits)
  obtain ps where ps: "list_all2 (member_reads lim) ms ps" "decode_members table ps s = Some s1"
    using assms(1) [OF m(1)] by blast
  obtain qs where "list_all2 (member_reads lim) (concat mss') qs" "decode_members table qs s1 = Some s'"
    using assms(2) m(2) by (auto simp: slots_def)
  with ps show "\<exists>ps. list_all2 (member_reads lim) (concat mss) ps \<and> decode_members table ps s = Some s'"
    by (intro exI [of _ "ps @ qs"]) (simp add: m(3) list_all2_appendI decode_members_append)
qed

text \<open>One member, of a field that is there, and none.\<close>

lemma slot_one:
  assumes "field_at table k f" and "\<And>t. m = Some t \<Longrightarrow> \<exists>j. reads lim t j \<and> f j s = Some s1"
    and "slots table lim rest s1 s'"
  shows "slots table lim (map_option (\<lambda>t. [(k, t)]) m # rest) s s'"
proof (rule slots_Cons [OF _ assms(3)])
  fix ms
  assume "map_option (\<lambda>t. [(k, t)]) m = Some ms"
  then obtain t where t: "m = Some t" "ms = [(k, t)]" by auto
  obtain j where "reads lim t j" "f j s = Some s1" using assms(2) [OF t(1)] by blast
  with assms(1) t(2) show "\<exists>ps. list_all2 (member_reads lim) ms ps \<and> decode_members table ps s = Some s1"
    by (intro exI [of _ "[(k, j)]"]) (simp add: member_reads_def field_at_def)
qed

lemma slot_none: "slots table lim rest s s' \<Longrightarrow> slots table lim (Some [] # rest) s s'"
  by (rule slots_Cons) auto

lemma slot_str:
  assumes "field_at table k (str_field upd)" and "slots table lim rest (upd (\<lambda>_. to_valid v) s) s'"
  shows "slots table lim (str_member k v # rest) s s'"
proof -
  have "\<exists>j. reads lim t j \<and> str_field upd j s = Some (upd (\<lambda>_. to_valid v) s)"
    if "Some (json_string v) = Some t" for t
    using that by (intro exI [of _ "JStr (to_valid v)"]) (auto simp: str_field_def)
  from slot_one [OF assms(1) this assms(2), of "Some (json_string v)"] show ?thesis by (simp add: str_member_def)
qed

lemma slot_opt_str:
  assumes "field_at table k (str_field upd)" and "\<And>s. upd (\<lambda>_. get s) s = s" and "get s = []"
    and "slots table lim rest (upd (\<lambda>_. to_valid v) s) s'"
  shows "slots table lim (opt_str_member k v # rest) s s'"
proof (cases "v = []")
  case True
  with assms(2) [of s] assms(3,4) show ?thesis by (simp add: opt_str_member_def slot_none)
next
  case False
  with slot_str [OF assms(1,4)] show ?thesis by (simp add: opt_str_member_def str_member_def)
qed

lemma slot_opt_int:
  assumes "field_at table k (ptr_field upd)" and "\<And>s. upd (\<lambda>_. get s) s = s" and "get s = None"
    and "\<And>i. p = Some i \<Longrightarrow> - (2 ^ 63) \<le> i \<and> i < 2 ^ 63"
    and "slots table lim rest (upd (\<lambda>_. p) s) s'"
  shows "slots table lim (opt_int_member k p # rest) s s'"
proof (cases p)
  case None
  with assms(2) [of s] assms(3,5) show ?thesis by (simp add: opt_int_member_def slot_none)
next
  case (Some i)
  then have i: "- (2 ^ 63) \<le> i" "i < 2 ^ 63" using assms(4) by blast+
  then have "reads lim (int_dec i) (JNum (int_dec i))" by (intro reads_simps) simp_all
  moreover have "ptr_field upd (JNum (int_dec i)) s = Some (upd (\<lambda>_. p) s)"
    using atoi_int_dec [OF i] Some by (simp add: ptr_field_def)
  ultimately show ?thesis
    using slot_one [OF assms(1) _ assms(5), of "Some (int_dec i)" s] Some by (fastforce simp: opt_int_member_def)
qed

text \<open>What JSON makes of an \<open>any\<close>, and of a map in a field of type \<open>Fields\<close>.\<close>

definition any_back :: "(string \<Rightarrow> string) \<Rightarrow> int \<Rightarrow> gval \<Rightarrow> gval \<Rightarrow> bool" where
  "any_back fl lim v w \<longleftrightarrow>
     (if v = GNil then w = GNil
      else \<forall>t. json_val v = Some t \<longrightarrow> (\<exists>j. reads lim t j \<and> json_any (float_number fl) j = Some w))"

definition map_back :: "(string \<Rightarrow> string) \<Rightarrow> int \<Rightarrow> fields \<Rightarrow> fields \<Rightarrow> bool" where
  "map_back fl lim m w \<longleftrightarrow>
     (if entries_of m = [] then w = None
      else \<forall>t. json_val (GFields m) = Some t \<longrightarrow>
        (\<exists>ps kvs. reads lim t (JObj ps) \<and> json_into (float_number fl) ps [] = Some kvs \<and> w = Some kvs))"

lemma any_back_ex: "readable lim v \<Longrightarrow> \<exists>w. any_back fl lim v w"
proof (cases "v = GNil \<or> json_val v = None")
  case False
  assume "readable lim v"
  from False obtain t where t: "json_val v = Some t" by auto
  obtain j where j: "reads lim t j" using json_val_reads(1) [OF t \<open>readable lim v\<close>] by blast
  then obtain w where "json_any (float_number fl) j = Some w" using json_any_total(1) by (auto simp: reads_def)
  with False t j show ?thesis by (auto simp: any_back_def)
qed (auto simp: any_back_def)

lemma map_back_ex: "readable lim (GFields m) \<Longrightarrow> \<exists>w. map_back fl lim m w"
proof (cases "entries_of m = [] \<or> json_val (GFields m) = None")
  case False
  assume "readable lim (GFields m)"
  with False obtain kvs ms n where m: "m = Some kvs" "json_entries kvs = Some ms" "0 \<le> n" "lim = n + 1" "entries_readable n kvs"
    using that [of _ _ "lim - 1"] by (cases m) auto
  obtain ps where ps: "reads lim (json_map ms) (JObj ps)"
    using reads_map [OF m(3)] json_val_reads(3) [OF m(2,5)] m(4) by blast
  then have "members_floats_ok ps" by (simp add: reads_def)
  from json_any_total(3) [OF this] obtain kvs' where "json_into (float_number fl) ps [] = Some kvs'" by blast
  with ps m False show ?thesis by (auto simp: map_back_def)
qed (auto simp: map_back_def)

lemma slot_any:
  assumes "any_back fl lim v w" and "field_at table k (any_field fl upd)" and "\<And>s. upd (\<lambda>_. get s) s = s"
    and "get s = GNil" and "slots table lim rest (upd (\<lambda>_. w) s) s'"
  shows "slots table lim (opt_any_member k v # rest) s s'"
proof (cases "v = GNil")
  case True
  with assms(1,4,5) assms(3) [of s] show ?thesis by (simp add: opt_any_member_def slot_none any_back_def)
next
  case False
  then have "\<exists>j. reads lim t j \<and> any_field fl upd j s = Some (upd (\<lambda>_. w) s)" if "json_val v = Some t" for t
    using that assms(1) by (auto simp: any_back_def any_field_def)
  from slot_one [OF assms(2) this assms(5)] False show ?thesis by (simp add: opt_any_member_def)
qed

lemma slot_map:
  assumes "map_back fl lim m w" and "field_at table k (map_field fl get upd)" and "\<And>s. upd (\<lambda>_. get s) s = s"
    and "get s = None" and "slots table lim rest (upd (\<lambda>_. w) s) s'"
  shows "slots table lim (opt_fields_member k m # rest) s s'"
proof (cases "entries_of m = []")
  case True
  with assms(1,4,5) assms(3) [of s] show ?thesis by (simp add: opt_fields_member_def slot_none map_back_def)
next
  case False
  then have "\<exists>j. reads lim t j \<and> map_field fl get upd j s = Some (upd (\<lambda>_. w) s)"
    if "json_val (GFields m) = Some t" for t
    using that assms(1,4) by (force simp: map_back_def map_field_def simp del: json_val.simps)
  from slot_one [OF assms(2) this assms(5)] False show ?thesis by (simp add: opt_fields_member_def del: json_val.simps)
qed

text \<open>The text of a struct is decoded to what its slots make of the zero value.\<close>

lemma unmarshal_slots:
  assumes "those ms = Some mss" and "slots table (maxNestingDepth - 1) ms zero s"
  shows "unmarshal table zero (json_object (concat mss)) = Some s"
proof -
  obtain ps where ps: "list_all2 (member_reads (maxNestingDepth - 1)) (concat mss) ps" "decode_members table ps zero = Some s"
    using assms by (auto simp: slots_def)
  have "0 \<le> maxNestingDepth - 1" "maxNestingDepth - 1 + 1 = maxNestingDepth" by (simp_all add: maxNestingDepth_def)
  with reads_object [OF ps(1)] parses_parse have "json_parse (json_object (concat mss)) = Some (JObj ps)"
    by (simp add: reads_def)
  with ps(2) show ?thesis by (simp add: unmarshal_def decode_struct_def)
qed

end
