(* ===== verification/Json_Canonical.thy ===== *)
theory Json_Canonical
  imports Json_Decode
begin

text \<open>
  What becomes of a JSON text that is decoded into an \<open>any\<close> with \<open>UseNumber\<close> and encoded again, as
  the recorders do with payloads and bodies: the same value, in which every object has its members
  in the order of their keys, and of two members with one key the later one.
\<close>

section \<open>What the reader produces\<close>

subsection \<open>Strings are valid UTF-8\<close>

lemma valid_utf8_Nil [simp]: "valid_utf8 []"
  by (simp add: valid_utf8.simps)

lemma valid_utf8_rune: "utf8_width u = Some (length u) \<Longrightarrow> valid_utf8 u"
  by (subst valid_utf8.simps) simp

lemma byte_char_of: "m < 256 \<Longrightarrow> byte (char_of m) = m"
  by (simp add: byte_def)

lemma valid_two: "in_range 194 223 a \<Longrightarrow> cont_byte b \<Longrightarrow> valid_utf8 [a, b]"
  by (rule valid_utf8_rune) (simp add: utf8_width_def in_range_def)

lemma valid_three:
  "in_range 224 239 a \<Longrightarrow> in_range (if byte a = 224 then 160 else 128) (if byte a = 237 then 159 else 191) b \<Longrightarrow>
     cont_byte c \<Longrightarrow> valid_utf8 [a, b, c]"
  by (rule valid_utf8_rune) (auto simp: utf8_width_def in_range_def split: if_splits)

lemma valid_four:
  "in_range 240 244 a \<Longrightarrow> in_range (if byte a = 240 then 144 else 128) (if byte a = 244 then 143 else 191) b \<Longrightarrow>
     cont_byte c \<Longrightarrow> cont_byte d \<Longrightarrow> valid_utf8 [a, b, c, d]"
  by (rule valid_utf8_rune) (auto simp: utf8_width_def in_range_def split: if_splits)

lemma cont_char_of: "cont_byte (char_of (128 + n mod 64))" for n :: nat
proof -
  have "n mod 64 < 64" by simp
  then have "128 + n mod 64 < 256" "128 + n mod 64 \<le> 191" by linarith+
  then show ?thesis by (simp add: cont_byte_def in_range_def byte_char_of)
qed

lemma valid_replacement: "valid_utf8 replacement_rune"
  by (rule valid_utf8_rune) (simp add: replacement_rune_def utf8_width_def in_range_def cont_byte_def byte_def)

lemma valid_encode_rune: "valid_utf8 (encode_rune n)"
proof -
  consider "n < 128" | "128 \<le> n" "n < 2048" | "55296 \<le> n \<and> n < 57344 \<or> 1114112 \<le> n"
    | "2048 \<le> n" "n < 65536" "\<not> (55296 \<le> n \<and> n < 57344)" | "65536 \<le> n" "n < 1114112" by linarith
  then show ?thesis
  proof cases
    case 1
    then show ?thesis by (simp add: encode_rune_def) (simp add: valid_utf8_rune utf8_width_def byte_def)
  next
    case 2
    then have "194 \<le> 192 + n div 64" "192 + n div 64 \<le> 223" by linarith+
    then have "in_range 194 223 (char_of (192 + n div 64))" by (simp add: in_range_def byte_char_of)
    with 2 show ?thesis by (simp add: encode_rune_def valid_two cont_char_of)
  next
    case 3
    then show ?thesis by (auto simp: encode_rune_def valid_replacement)
  next
    case 4
    define q where "q = n div 4096"
    define r where "r = n div 64 mod 64"
    have "q < 16" "r < 64" using 4 by (simp_all add: q_def r_def)
    moreover have "n div 64 = 64 * q + r" using div_mult2_eq [of n 64 64] by (simp add: q_def r_def)
    moreover have "q = 13 \<Longrightarrow> n < 57344" unfolding q_def by linarith
    then have "q = 13 \<Longrightarrow> n < 55296" using 4(3) by linarith
    ultimately have "q = 0 \<Longrightarrow> 32 \<le> r" "q = 13 \<Longrightarrow> r < 32" "q < 16" "r < 64" using 4(1) by linarith+
    then have "in_range 224 239 (char_of (224 + q))"
      "in_range (if byte (char_of (224 + q)) = 224 then 160 else 128) (if byte (char_of (224 + q)) = 237 then 159 else 191)
         (char_of (128 + r))"
      by (auto simp: in_range_def byte_char_of)
    with 4 show ?thesis by (simp add: encode_rune_def valid_replacement valid_three cont_char_of q_def r_def)
  next
    case 5
    define q where "q = n div 262144"
    define r where "r = n div 4096 mod 64"
    have "q < 5" "r < 64" using 5 by (simp_all add: q_def r_def)
    moreover have "n div 4096 = 64 * q + r" using div_mult2_eq [of n 4096 64] by (simp add: q_def r_def)
    then have "q = 0 \<Longrightarrow> 16 \<le> r" "q = 4 \<Longrightarrow> r < 16" using 5 by linarith+
    ultimately have "in_range 240 244 (char_of (240 + q))"
      "in_range (if byte (char_of (240 + q)) = 240 then 144 else 128) (if byte (char_of (240 + q)) = 244 then 143 else 191)
         (char_of (128 + r))"
      by (auto simp: in_range_def byte_char_of)
    with 5 show ?thesis by (simp add: encode_rune_def valid_four cont_char_of q_def r_def)
  qed
qed

lemma valid_take_rune: "utf8_width s = Some n \<Longrightarrow> valid_utf8 (take n s)"
  using utf8_width_take [of s n n] utf8_width_bounds [of s n] by (intro valid_utf8_rune) (simp add: min_def)

lemma valid_escaped: "escaped_char e = Some x \<Longrightarrow> valid_utf8 [x]"
  by (rule valid_utf8_rune) (auto simp: escaped_char_def utf8_width_def byte_def backslash_def split: if_splits)

lemma unquote_valid: "unquote s = Some u \<Longrightarrow> valid_utf8 u"
proof (induction s arbitrary: u rule: unquote.induct)
  case (1 s)
  show ?case
  proof (cases s)
    case (Cons c r)
    note s = this
    show ?thesis
    proof (cases "c = backslash")
      case True
      then obtain e r' where r: "r = e # r'" using "1.prems" s by (subst (asm) unquote.simps) (auto split: list.splits)
      show ?thesis
      proof (cases "e = CHR ''u''")
        case u: True
        then obtain n q where h: "hex4 r' = Some (n, q)"
          using "1.prems" s True r by (subst (asm) unquote.simps) (auto split: option.splits)
        then obtain w where "unquote (snd (code_unit n q)) = Some w" "u = encode_rune (fst (code_unit n q)) @ w"
          using "1.prems" s True r u by (subst (asm) unquote.simps) (auto simp: Let_def)
        with "1.IH"(1) [OF s True r u h] show ?thesis by (simp add: valid_utf8_append valid_encode_rune)
      next
        case False
        then obtain x w where "escaped_char e = Some x" "unquote r' = Some w" "u = [x] @ w"
          using "1.prems" s True r by (subst (asm) unquote.simps) (auto split: option.splits)
        with "1.IH"(2) [OF s True r False] show ?thesis using valid_utf8_append valid_escaped by blast
      qed
    next
      case False
      then have c: "\<not> (c = dquote \<or> byte c < 32)" using "1.prems" s by (subst (asm) unquote.simps) auto
      show ?thesis
      proof (cases "utf8_width s")
        case None
        then obtain w where "unquote r = Some w" "u = replacement_rune @ w"
          using "1.prems" s False c by (subst (asm) unquote.simps) auto
        with "1.IH"(3) [OF s False c None] show ?thesis by (simp add: valid_utf8_append valid_replacement)
      next
        case (Some n)
        then obtain w where "unquote (drop n s) = Some w" "u = take n s @ w"
          using "1.prems" s False c by (subst (asm) unquote.simps) auto
        with "1.IH"(4) [OF s False c Some] show ?thesis using valid_utf8_append valid_take_rune [OF Some] by blast
      qed
    qed
  qed (use "1.prems" in \<open>simp add: unquote.simps\<close>)
qed

subsection \<open>Numbers are read whole\<close>

lemma digits_of_append: "digits_of s @ after_digits s = s"
  by (simp add: digits_of_def after_digits_def)

lemma digits_of_whole: "digits_of (digits_of s) = digits_of s" "after_digits (digits_of s) = []"
  by (simp_all add: digits_of_def after_digits_def dropWhile_eq_Nil_conv) (metis set_takeWhileD)

lemma digits_then: "t = [] \<or> \<not> is_digit (hd t) \<Longrightarrow> digits_of (digits_of s @ t) = digits_of s \<and> after_digits (digits_of s @ t) = t"
proof -
  assume t: "t = [] \<or> \<not> is_digit (hd t)"
  have all: "\<forall>x \<in> set (takeWhile is_digit s). is_digit x" by (auto dest: set_takeWhileD)
  have "takeWhile is_digit t = []" "dropWhile is_digit t = t" using t by (cases t; simp)+
  then show ?thesis using all
    by (simp add: digits_of_def after_digits_def takeWhile_append2 dropWhile_append2)
qed

lemma scan_exponent_whole:
  assumes "scan_exponent s = Some (e, r)"
  shows "scan_exponent e = Some (e, []) \<and> (e = [] \<or> hd e \<in> {CHR ''e'', CHR ''E''})"
proof (cases "e = []")
  case False
  obtain c u where s: "s = c # u" using assms False by (cases s) (auto simp: scan_exponent_def)
  obtain sg v where v: "split_sign u = (sg, v)" by (cases "split_sign u")
  have c: "c = CHR ''e'' \<or> c = CHR ''E''" and e: "digits_of v \<noteq> []" "e = c # sg @ digits_of v"
    using assms False s v by (auto simp: scan_exponent_def split: if_splits)
  obtain d w where d: "digits_of v = d # w" "is_digit d"
    using e(1) by (cases v) (auto simp: digits_of_def split: if_splits)
  have "split_sign (sg @ digits_of v) = (sg, digits_of v)"
    using v d is_digit_not_sign [OF d(2)] by (cases u) (auto simp: split_sign_def split: if_splits)
  then show ?thesis using c e digits_then [of "[]" v] by (auto simp: scan_exponent_def)
qed (simp add: scan_exponent_def)

lemma scan_fraction_whole:
  assumes "scan_fraction s = Some (f, r)" and "e = [] \<or> hd e \<in> {CHR ''e'', CHR ''E''}"
  shows "scan_fraction (f @ e) = Some (f, e) \<and> (f @ e = [] \<or> \<not> is_digit (hd (f @ e)))"
proof -
  have e: "e = [] \<or> \<not> is_digit (hd e) \<and> hd e \<noteq> CHR ''.''"
    using assms(2) by (auto simp: is_digit_def in_range_def byte_def)
  show ?thesis
  proof (cases "f = []")
    case True
    with e show ?thesis by (cases e) (auto simp: scan_fraction_def)
  next
    case False
    then obtain u where "digits_of u \<noteq> []" "f = CHR ''.'' # digits_of u"
      using assms(1) by (auto simp: scan_fraction_def split: list.splits if_splits)
    with digits_then [of e u] e show ?thesis by (auto simp: scan_fraction_def is_digit_def in_range_def byte_def)
  qed
qed

lemma scan_int_whole:
  assumes "scan_int s = Some (i, r)" and "t = [] \<or> \<not> is_digit (hd t)"
  shows "scan_int (i @ t) = Some (i, t) \<and> i \<noteq> [] \<and> hd i \<noteq> CHR ''-''"
proof -
  obtain c u where s: "s = c # u" using assms(1) by (cases s) (auto simp: scan_int_def)
  show ?thesis
  proof (cases "c = CHR ''0''")
    case True
    then have "i = [c]" using assms(1) s by (simp add: scan_int_def)
    with True show ?thesis by (simp add: scan_int_def)
  next
    case False
    then have i: "is_digit c" "i = digits_of s" using assms(1) s by (auto simp: scan_int_def split: if_splits)
    then obtain w where w: "i = c # w" using s by (simp add: digits_of_def)
    have "digits_of (c # w @ t) = c # w" "after_digits (c # w @ t) = t"
      using digits_then [OF assms(2), of s] unfolding i(2) [symmetric] w by simp_all
    then show ?thesis using False i(1) is_digit_not_sign [OF i(1)] by (simp add: scan_int_def w)
  qed
qed

lemma scan_number_whole:
  assumes "scan_number s = Some (t, r)"
  shows "scan_number t = Some (t, [])"
proof -
  obtain sg u i v f w e where p: "split_minus s = (sg, u)" "scan_int u = Some (i, v)"
      "scan_fraction v = Some (f, w)" "scan_exponent w = Some (e, r)" "t = sg @ i @ f @ e"
    using assms by (auto simp: scan_number_iff)
  note e = scan_exponent_whole [OF p(4)]
  note f = scan_fraction_whole [OF p(3) conjunct2 [OF e]]
  note i = scan_int_whole [OF p(2) conjunct2 [OF f]]
  have "split_minus t = (sg, i @ f @ e)"
    using p(1,5) i by (cases s; cases i) (auto simp: split_minus_def split: if_splits)
  then show ?thesis unfolding scan_number_iff using e f i p(5) by blast
qed

subsection \<open>The value of a text\<close>

text \<open>Strings in UTF-8, numbers as JSON writes them, and a nesting of at most \<open>lim\<close>.\<close>

fun proper_json :: "int \<Rightarrow> json \<Rightarrow> bool"
  and all_proper_json :: "int \<Rightarrow> json list \<Rightarrow> bool"
  and members_proper_json :: "int \<Rightarrow> (string \<times> json) list \<Rightarrow> bool"
where
  "proper_json lim (JStr s) = valid_utf8 s"
| "proper_json lim (JNum t) = (scan_number t = Some (t, []))"
| "proper_json lim (JArr js) = (0 < lim \<and> all_proper_json (lim - 1) js)"
| "proper_json lim (JObj ms) = (0 < lim \<and> members_proper_json (lim - 1) ms)"
| "proper_json lim _ = True"
| "all_proper_json lim [] = True"
| "all_proper_json lim (j # js) = (proper_json lim j \<and> all_proper_json lim js)"
| "members_proper_json lim [] = True"
| "members_proper_json lim ((k, j) # ms) = (valid_utf8 k \<and> proper_json lim j \<and> members_proper_json lim ms)"

lemma all_proper_append: "all_proper_json lim (js @ ks) \<longleftrightarrow> all_proper_json lim js \<and> all_proper_json lim ks"
  by (induction js) auto

lemma members_proper_append:
  "members_proper_json lim (ms @ ns) \<longleftrightarrow> members_proper_json lim ms \<and> members_proper_json lim ns"
  by (induction ms) auto

text \<open>The automaton only ever holds such values, each with the nesting that is left at its place.\<close>

fun frames_ok :: "int \<Rightarrow> frame list \<Rightarrow> bool" where
  "frames_ok lim [] = True"
| "frames_ok lim (InArr vs # st) =
     (int (length st) < lim \<and> all_proper_json (lim - int (length st) - 1) vs \<and> frames_ok lim st)"
| "frames_ok lim (InObj kvs k # st) =
     (int (length st) < lim \<and> members_proper_json (lim - int (length st) - 1) kvs \<and> valid_utf8 k \<and> frames_ok lim st)"

definition automaton_ok :: "int \<Rightarrow> mode \<Rightarrow> frame list \<Rightarrow> bool" where
  "automaton_ok lim m st \<longleftrightarrow> frames_ok lim st \<and>
     (\<forall>v. m = Done v \<longrightarrow> proper_json (lim - int (length st)) v) \<and> (m \<in> {ElemOrClose, KeyOrClose} \<longrightarrow> st \<noteq> [])"

lemma next_token_proper: "next_token s = Some (Scalar v, r) \<Longrightarrow> proper_json lim v"
  by (auto simp: next_token_def token_at_def literal_def dest: unquote_valid scan_number_whole
      split: list.splits if_split_asm option.splits)

lemma value_token_ok:
  "value_token lim t st = Some (m, st') \<Longrightarrow> frames_ok lim st \<Longrightarrow> (\<forall>v. t = Scalar v \<longrightarrow> proper_json (lim - int (length st)) v) \<Longrightarrow>
     automaton_ok lim m st'"
  by (auto simp: value_token_def automaton_ok_def split: token.splits if_splits)

lemma key_token_ok:
  "key_token t st = Some (m, st') \<Longrightarrow> frames_ok lim st \<Longrightarrow> (\<forall>v l. t = Scalar v \<longrightarrow> proper_json l v) \<Longrightarrow> automaton_ok lim m st'"
  by (auto simp: key_token_def automaton_ok_def split: token.splits json.splits list.splits frame.splits)

lemma done_token_ok:
  "done_token v t st = Some (m, st') \<Longrightarrow> automaton_ok lim (Done v) st \<Longrightarrow> automaton_ok lim m st'"
  by (cases "(v, t, st)" rule: done_token.cases)
    (auto simp: automaton_ok_def all_proper_append members_proper_append algebra_simps)

lemma json_step_ok:
  assumes "json_step lim t m st = Some (m', st')" and "automaton_ok lim m st" and "\<forall>v l. t = Scalar v \<longrightarrow> proper_json l v"
  shows "automaton_ok lim m' st'"
proof -
  have fr: "frames_ok lim st" using assms(2) by (simp add: automaton_ok_def)
  note tok = value_token_ok [OF _ fr, of t m' st'] key_token_ok [OF _ fr, of t m' st'] done_token_ok [of _ t st m' st' lim]
  have closed: "frames_ok lim (tl st) \<and> int (length (tl st)) < lim" if "m \<in> {ElemOrClose, KeyOrClose}"
  proof -
    have "st \<noteq> []" using assms(2) that by (auto simp: automaton_ok_def)
    then obtain f fs where "st = f # fs" by (cases st) auto
    with fr show ?thesis by (cases f) auto
  qed
  show ?thesis
  proof (cases m)
    case (Done v)
    then show ?thesis using assms tok(3) by (simp add: json_step_def)
  next
    case AfterKey
    then show ?thesis using assms(1) fr by (auto simp: json_step_def automaton_ok_def split: if_splits)
  qed (use assms tok closed in \<open>auto simp: json_step_def automaton_ok_def split: if_splits\<close>)
qed

lemma json_run_proper: "json_run lim s m st = Some (v, r) \<Longrightarrow> automaton_ok lim m st \<Longrightarrow> proper_json lim v"
proof (induction rule: json_run_induct)
  case complete
  then show ?case by (simp add: automaton_ok_def)
next
  case (step s m st t u m' st')
  then show ?case using json_step_ok [OF step(3) step(6)] next_token_proper by blast
qed

lemma json_first_proper: "json_first s = Some j \<Longrightarrow> proper_json maxNestingDepth j"
  using json_run_proper [of maxNestingDepth s Value "[]"] by (auto simp: json_first_def automaton_ok_def)

section \<open>Decoded and encoded again\<close>

fun canonical_json :: "json \<Rightarrow> json"
  and canonical_elements :: "json list \<Rightarrow> json list"
  and canonical_members :: "(string \<times> json) list \<Rightarrow> (string \<times> json) list \<Rightarrow> (string \<times> json) list"
where
  "canonical_json (JArr js) = JArr (canonical_elements js)"
| "canonical_json (JObj ms) = JObj (sort_key fst (canonical_members ms []))"
| "canonical_json j = j"
| "canonical_elements [] = []"
| "canonical_elements (j # js) = canonical_json j # canonical_elements js"
| "canonical_members [] acc = acc"
| "canonical_members ((k, j) # ms) acc = canonical_members ms (entry_set k (canonical_json j) acc)"

lemma canonical_elements_map: "canonical_elements js = map canonical_json js"
  by (induction js) simp_all

lemma canonical_members_map_of:
  "map_of (canonical_members ms acc) k = (case map_of (rev ms) k of None \<Rightarrow> map_of acc k | Some j \<Rightarrow> Some (canonical_json j))"
  by (induction ms arbitrary: acc) (auto simp: map_of_entry_set map_add_def split: option.splits)

lemma distinct_entry_set: "distinct (map fst kvs) \<Longrightarrow> distinct (map fst (entry_set k v kvs))"
  using keys_entry_set [of k v] by (induction k v kvs rule: entry_set.induct) (auto simp: image_iff)

lemma canonical_members_distinct: "distinct (map fst acc) \<Longrightarrow> distinct (map fst (canonical_members ms acc))"
  by (induction ms arbitrary: acc) (auto simp: distinct_entry_set)

lemma map_of_permuted:
  assumes "mset xs = mset ys" and "distinct (map fst ys)"
  shows "map_of xs = map_of ys"
proof -
  have "mset (map fst xs) = mset (map fst ys)" using arg_cong [OF assms(1), of "image_mset fst"] by simp
  then have "distinct (map fst xs)" using assms(2) mset_eq_imp_distinct_iff by blast
  moreover have "set xs = set ys" using assms(1) by (rule mset_eq_setD)
  ultimately show ?thesis using assms(2) by (simp add: map_of_inject_set)
qed

text \<open>The member of an object under a key, of several the last.\<close>

definition json_member_at :: "json \<Rightarrow> string \<Rightarrow> json option" where
  "json_member_at j k = (case j of JObj ms \<Rightarrow> map_of (rev ms) k | _ \<Rightarrow> None)"

lemma canonical_member_at: "json_member_at (canonical_json j) k = map_option canonical_json (json_member_at j k)"
proof (cases j)
  case (JObj ms)
  have d: "distinct (map fst (canonical_members ms []))" by (rule canonical_members_distinct) simp
  then have "map_of (rev (sort_key fst (canonical_members ms []))) = map_of (canonical_members ms [])"
    by (intro map_of_permuted) simp_all
  with JObj show ?thesis by (simp add: json_member_at_def canonical_members_map_of split: option.split)
qed (simp_all add: json_member_at_def)

definition entry_parses :: "int \<Rightarrow> string \<times> gval \<Rightarrow> string \<times> json \<Rightarrow> bool" where
  "entry_parses lim e p \<longleftrightarrow> fst e = fst p \<and> valid_utf8 (fst p) \<and> (\<exists>t. json_val (snd e) = Some t \<and> parses lim t (snd p))"

lemma entry_set_parses:
  "list_all2 (entry_parses lim) kvs acc \<Longrightarrow> entry_parses lim (k, v) (k, j) \<Longrightarrow>
     list_all2 (entry_parses lim) (entry_set k v kvs) (entry_set k j acc)"
proof (induction kvs acc rule: list_all2_induct)
  case (Cons e kvs p acc)
  moreover have "fst e = fst p" using Cons(1) by (simp add: entry_parses_def)
  ultimately show ?case by (cases e; cases p) auto
qed simp

lemma sort_key_list_all2:
  "list_all2 R xs ys \<Longrightarrow> (\<And>x y. R x y \<Longrightarrow> fst x = fst y) \<Longrightarrow> list_all2 R (sort_key fst xs) (sort_key fst ys)"
  for xs :: "(string \<times> 'a) list" and ys :: "(string \<times> 'b) list"
proof (induction xs ys rule: list_all2_induct)
  case (Cons x xs y ys)
  have ins: "list_all2 R us vs \<Longrightarrow> list_all2 R (insort_key fst x us) (insort_key fst y vs)" for us vs
    by (induction us vs rule: list_all2_induct) (use Cons(1,4) in auto)
  with Cons show ?case by simp
qed simp

lemma entries_parse:
  "list_all2 (entry_parses lim) kvs acc \<Longrightarrow> \<exists>ms. json_entries kvs = Some ms \<and>
     list_all2 (\<lambda>m p. fst m = fst p \<and> member_parses lim m p) ms acc"
  by (induction kvs acc rule: list_all2_induct)
    (auto simp: entry_parses_def member_parses_def to_valid_id)

lemma parses_valid_string: "valid_utf8 s \<Longrightarrow> parses lim (json_string s) (JStr s)"
  using parses_string [of lim s] by (simp add: to_valid_id)

lemma decoded_encodes:
  shows "json_any use_number j = Some v \<Longrightarrow> proper_json lim j \<Longrightarrow> \<exists>t. json_val v = Some t \<and> parses lim t (canonical_json j)"
    and "json_anys use_number js = Some vs \<Longrightarrow> all_proper_json lim js \<Longrightarrow>
      \<exists>ts. json_vals vs = Some ts \<and> list_all2 (parses lim) ts (canonical_elements js)"
    and "json_into use_number ms kvs = Some kvs' \<Longrightarrow> members_proper_json lim ms \<Longrightarrow> list_all2 (entry_parses lim) kvs acc \<Longrightarrow>
      list_all2 (entry_parses lim) kvs' (canonical_members ms acc)"
proof (induction j and js and ms acc arbitrary: v lim and vs lim and kvs kvs' lim
    rule: canonical_json_canonical_elements_canonical_members.induct)
  case (1 js)
  then obtain vs where vs: "json_anys use_number js = Some vs" "v = GSlice (Some vs)" by auto
  have n: "0 \<le> lim - 1" "all_proper_json (lim - 1) js" using "1.prems"(2) by simp_all
  from 1(1) [OF vs(1) n(2)] parses_array [OF _ n(1)] show ?case by (auto simp: vs(2))
next
  case (2 ms)
  then obtain kvs where kvs: "json_into use_number ms [] = Some kvs" "v = GMap (Some kvs)" by auto
  have n: "0 \<le> lim - 1" "members_proper_json (lim - 1) ms" using "2.prems"(2) by simp_all
  have "list_all2 (entry_parses (lim - 1)) kvs (canonical_members ms [])" using 2(1) [OF kvs(1) n(2)] by simp
  from entries_parse [OF this] obtain es where es: "json_entries kvs = Some es"
    and R: "list_all2 (\<lambda>m p. fst m = fst p \<and> member_parses (lim - 1) m p) es (canonical_members ms [])" by blast
  have "list_all2 (\<lambda>m p. fst m = fst p \<and> member_parses (lim - 1) m p)
      (sort_key fst es) (sort_key fst (canonical_members ms []))"
    by (rule sort_key_list_all2 [OF R]) simp
  then have "list_all2 (member_parses (lim - 1)) (sort_key fst es) (sort_key fst (canonical_members ms []))"
    by (auto elim: list_all2_mono)
  from parses_object [OF this n(1)] show ?case using es by (simp add: kvs(2) json_map_def)
next
  case (5 j js)
  then obtain w ws where "json_any use_number j = Some w" "json_anys use_number js = Some ws" "vs = w # ws"
    by (auto split: option.splits)
  with 5 show ?case by fastforce
next
  case (7 k j ms acc)
  then obtain w where w: "json_any use_number j = Some w" "json_into use_number ms (entry_set k w kvs) = Some kvs'"
    by (auto split: option.splits)
  with 7 have "entry_parses lim (k, w) (k, canonical_json j)" by (auto simp: entry_parses_def)
  from 7(2) [OF w(2)] "7.prems"(2) entry_set_parses [OF "7.prems"(3) this] show ?case by simp
qed (auto simp: parses_literals parses_valid_string use_number_def parses_number json_bool_def)

lemma use_number_some: "\<exists>v. use_number t = Some v"
  by (simp add: use_number_def)

lemma use_number_total:
  shows "\<exists>v. json_any use_number j = Some v" and "\<exists>vs. json_anys use_number js = Some vs"
    and "\<exists>kvs'. json_into use_number ms kvs = Some kvs'"
proof (induction j and js and ms arbitrary: and and kvs rule: floats_ok_all_floats_ok_members_floats_ok.induct)
  case (8 k j ms)
  then obtain v where "json_any use_number j = Some v" by auto
  with 8(2) [of "entry_set k v kvs"] show ?case by simp
qed (auto simp: use_number_some)

text \<open>Every JSON text is decoded, its value is encoded, and the text is the canonical form of the first.\<close>

lemma decode_number_roundtrip:
  assumes "json_first s = Some j"
  shows "\<exists>v t. decode_number_any s = Some v \<and> json_val v = Some t \<and> json_parse t = Some (canonical_json j)"
proof -
  obtain v where v: "json_any use_number j = Some v" using use_number_total(1) by blast
  from decoded_encodes(1) [OF v json_first_proper [OF assms]] obtain t where
    "json_val v = Some t" "parses maxNestingDepth t (canonical_json j)" by blast
  with v assms parses_parse show ?thesis by (auto simp: decode_number_any_def)
qed

lemma json_parse_first: "json_parse s = Some j \<Longrightarrow> json_first s = Some j"
  by (auto simp: json_parse_def json_first_def split: option.splits if_splits)

end
