(* ===== verification/Event_Decode.thy ===== *)
theory Event_Decode
  imports Json_Decode
begin

text \<open>
  \<open>json.Unmarshal\<close> into an \<open>Event\<close> of \<open>logcenter/types.go\<close>, by the names in the struct's tags, and the
  round trip: what the outbox writes it can read again.
\<close>

definition event_table :: "(string \<Rightarrow> string) \<Rightarrow> (string \<times> (json \<Rightarrow> event \<Rightarrow> event option)) list" where
  "event_table fl =
    [(''event_id'', str_field ev_EventID_update),
     (''idempotency_key'', str_field ev_IdempotencyKey_update),
     (''event_type'', str_field ev_EventType_update),
     (''occurred_at'', str_field ev_OccurredAt_update),
     (''environment'', str_field ev_Environment_update),
     (''service'', str_field ev_Service_update),
     (''service_version'', str_field ev_ServiceVersion_update),
     (''classification'', str_field ev_Classification_update),
     (''retention_hint'', str_field ev_RetentionHint_update),
     (''request_id'', str_field ev_RequestID_update),
     (''trace_id'', str_field ev_TraceID_update),
     (''span_id'', str_field ev_SpanID_update),
     (''parent_span_id'', str_field ev_ParentSpanID_update),
     (''user_id'', str_field ev_UserID_update),
     (''tenant_id'', str_field ev_TenantID_update),
     (''operation'', str_field ev_Operation_update),
     (''status'', str_field ev_Status_update),
     (''method'', str_field ev_Method_update),
     (''path'', str_field ev_Path_update),
     (''route_template'', str_field ev_RouteTemplate_update),
     (''kind'', str_field ev_Kind_update),
     (''name'', str_field ev_Name_update),
     (''level'', str_field ev_Level_update),
     (''message'', str_field ev_Message_update),
     (''error_code'', str_field ev_ErrorCode_update),
     (''error_message'', str_field ev_ErrorMessage_update),
     (''error_type'', str_field ev_ErrorType_update),
     (''severity'', str_field ev_Severity_update),
     (''fingerprint'', str_field ev_Fingerprint_update),
     (''stack_trace'', str_field ev_StackTrace_update),
     (''http_status'', ptr_field ev_HTTPStatus_update),
     (''duration_ms'', ptr_field ev_DurationMS_update),
     (''started_at'', str_field ev_StartedAt_update),
     (''finished_at'', str_field ev_FinishedAt_update),
     (''actor_type'', str_field ev_ActorType_update),
     (''actor_id'', str_field ev_ActorID_update),
     (''action'', str_field ev_Action_update),
     (''entity_type'', str_field ev_EntityType_update),
     (''entity_id'', str_field ev_EntityID_update),
     (''field_name'', str_field ev_FieldName_update),
     (''changes'', any_field fl ev_Changes_update),
     (''old_value'', any_field fl ev_OldValue_update),
     (''new_value'', any_field fl ev_NewValue_update),
     (''reason'', str_field ev_Reason_update),
     (''metadata'', map_field fl ev_Metadata ev_Metadata_update),
     (''data'', map_field fl ev_Data ev_Data_update)]"

definition unmarshal_event :: "(string \<Rightarrow> string) \<Rightarrow> string \<Rightarrow> event option" where
  "unmarshal_event fl = unmarshal (event_table fl) empty_event"


text \<open>The event as it comes back: strings of valid UTF-8 are the same, \<open>any\<close> values are what JSON makes of them.\<close>

definition valid_strings :: "event \<Rightarrow> event" where
  "valid_strings e = e\<lparr>
     ev_EventID := to_valid (ev_EventID e), ev_IdempotencyKey := to_valid (ev_IdempotencyKey e),
     ev_EventType := to_valid (ev_EventType e), ev_OccurredAt := to_valid (ev_OccurredAt e),
     ev_Environment := to_valid (ev_Environment e), ev_Service := to_valid (ev_Service e),
     ev_ServiceVersion := to_valid (ev_ServiceVersion e), ev_Classification := to_valid (ev_Classification e),
     ev_RetentionHint := to_valid (ev_RetentionHint e), ev_RequestID := to_valid (ev_RequestID e),
     ev_TraceID := to_valid (ev_TraceID e), ev_SpanID := to_valid (ev_SpanID e),
     ev_ParentSpanID := to_valid (ev_ParentSpanID e), ev_UserID := to_valid (ev_UserID e),
     ev_TenantID := to_valid (ev_TenantID e), ev_Operation := to_valid (ev_Operation e),
     ev_Status := to_valid (ev_Status e), ev_Method := to_valid (ev_Method e), ev_Path := to_valid (ev_Path e),
     ev_RouteTemplate := to_valid (ev_RouteTemplate e), ev_Kind := to_valid (ev_Kind e),
     ev_Name := to_valid (ev_Name e), ev_Level := to_valid (ev_Level e), ev_Message := to_valid (ev_Message e),
     ev_ErrorCode := to_valid (ev_ErrorCode e), ev_ErrorMessage := to_valid (ev_ErrorMessage e),
     ev_ErrorType := to_valid (ev_ErrorType e), ev_Severity := to_valid (ev_Severity e),
     ev_Fingerprint := to_valid (ev_Fingerprint e), ev_StackTrace := to_valid (ev_StackTrace e),
     ev_StartedAt := to_valid (ev_StartedAt e), ev_FinishedAt := to_valid (ev_FinishedAt e),
     ev_ActorType := to_valid (ev_ActorType e), ev_ActorID := to_valid (ev_ActorID e),
     ev_Action := to_valid (ev_Action e), ev_EntityType := to_valid (ev_EntityType e),
     ev_EntityID := to_valid (ev_EntityID e), ev_FieldName := to_valid (ev_FieldName e),
     ev_Reason := to_valid (ev_Reason e)\<rparr>"

definition event_readable :: "event \<Rightarrow> bool" where
  "event_readable e \<longleftrightarrow>
     (\<forall>v \<in> {ev_Changes e, ev_OldValue e, ev_NewValue e, GFields (ev_Metadata e), GFields (ev_Data e)}.
        readable (maxNestingDepth - 1) v) \<and>
     (\<forall>p \<in> {ev_HTTPStatus e, ev_DurationMS e}. \<forall>i. p = Some i \<longrightarrow> - (2 ^ 63) \<le> i \<and> i < 2 ^ 63)"

lemma event_field_at: "list_all (\<lambda>(k, f). field_at (event_table fl) k f) (event_table fl)"
proof -
  have "distinct (map fst (event_table fl))" by (simp add: event_table_def)
  moreover have "list_all (list_all (\<lambda>c. byte c < 128)) (map fst (event_table fl))"
    by (simp add: event_table_def)
  ultimately show ?thesis
    by (auto simp: list_all_iff field_at_def intro: find_field_entry to_valid_ascii [unfolded list_all_iff])
qed

lemma event_self:
  fixes s :: event
  shows
    "ev_EventID_update (\<lambda>_. ev_EventID s) s = s"
    "ev_IdempotencyKey_update (\<lambda>_. ev_IdempotencyKey s) s = s"
    "ev_EventType_update (\<lambda>_. ev_EventType s) s = s"
    "ev_OccurredAt_update (\<lambda>_. ev_OccurredAt s) s = s"
    "ev_Environment_update (\<lambda>_. ev_Environment s) s = s" "ev_Service_update (\<lambda>_. ev_Service s) s = s"
    "ev_ServiceVersion_update (\<lambda>_. ev_ServiceVersion s) s = s"
    "ev_Classification_update (\<lambda>_. ev_Classification s) s = s"
    "ev_RetentionHint_update (\<lambda>_. ev_RetentionHint s) s = s"
    "ev_RequestID_update (\<lambda>_. ev_RequestID s) s = s" "ev_TraceID_update (\<lambda>_. ev_TraceID s) s = s"
    "ev_SpanID_update (\<lambda>_. ev_SpanID s) s = s" "ev_ParentSpanID_update (\<lambda>_. ev_ParentSpanID s) s = s"
    "ev_UserID_update (\<lambda>_. ev_UserID s) s = s" "ev_TenantID_update (\<lambda>_. ev_TenantID s) s = s"
    "ev_Operation_update (\<lambda>_. ev_Operation s) s = s" "ev_Status_update (\<lambda>_. ev_Status s) s = s"
    "ev_Method_update (\<lambda>_. ev_Method s) s = s" "ev_Path_update (\<lambda>_. ev_Path s) s = s"
    "ev_RouteTemplate_update (\<lambda>_. ev_RouteTemplate s) s = s" "ev_Kind_update (\<lambda>_. ev_Kind s) s = s"
    "ev_Name_update (\<lambda>_. ev_Name s) s = s" "ev_Level_update (\<lambda>_. ev_Level s) s = s"
    "ev_Message_update (\<lambda>_. ev_Message s) s = s" "ev_ErrorCode_update (\<lambda>_. ev_ErrorCode s) s = s"
    "ev_ErrorMessage_update (\<lambda>_. ev_ErrorMessage s) s = s"
    "ev_ErrorType_update (\<lambda>_. ev_ErrorType s) s = s" "ev_Severity_update (\<lambda>_. ev_Severity s) s = s"
    "ev_Fingerprint_update (\<lambda>_. ev_Fingerprint s) s = s"
    "ev_StackTrace_update (\<lambda>_. ev_StackTrace s) s = s"
    "ev_HTTPStatus_update (\<lambda>_. ev_HTTPStatus s) s = s"
    "ev_DurationMS_update (\<lambda>_. ev_DurationMS s) s = s"
    "ev_StartedAt_update (\<lambda>_. ev_StartedAt s) s = s"
    "ev_FinishedAt_update (\<lambda>_. ev_FinishedAt s) s = s"
    "ev_ActorType_update (\<lambda>_. ev_ActorType s) s = s" "ev_ActorID_update (\<lambda>_. ev_ActorID s) s = s"
    "ev_Action_update (\<lambda>_. ev_Action s) s = s" "ev_EntityType_update (\<lambda>_. ev_EntityType s) s = s"
    "ev_EntityID_update (\<lambda>_. ev_EntityID s) s = s" "ev_FieldName_update (\<lambda>_. ev_FieldName s) s = s"
    "ev_Changes_update (\<lambda>_. ev_Changes s) s = s" "ev_OldValue_update (\<lambda>_. ev_OldValue s) s = s"
    "ev_NewValue_update (\<lambda>_. ev_NewValue s) s = s" "ev_Reason_update (\<lambda>_. ev_Reason s) s = s"
    "ev_Metadata_update (\<lambda>_. ev_Metadata s) s = s" "ev_Data_update (\<lambda>_. ev_Data s) s = s"
  by simp_all

lemma empty_event_fields [simp]:
  "ev_EventID empty_event = []"
  "ev_IdempotencyKey empty_event = []"
  "ev_EventType empty_event = []"
  "ev_OccurredAt empty_event = []"
  "ev_Environment empty_event = []"
  "ev_Service empty_event = []"
  "ev_ServiceVersion empty_event = []"
  "ev_Classification empty_event = []"
  "ev_RetentionHint empty_event = []"
  "ev_RequestID empty_event = []"
  "ev_TraceID empty_event = []"
  "ev_SpanID empty_event = []"
  "ev_ParentSpanID empty_event = []"
  "ev_UserID empty_event = []"
  "ev_TenantID empty_event = []"
  "ev_Operation empty_event = []"
  "ev_Status empty_event = []"
  "ev_Method empty_event = []"
  "ev_Path empty_event = []"
  "ev_RouteTemplate empty_event = []"
  "ev_Kind empty_event = []"
  "ev_Name empty_event = []"
  "ev_Level empty_event = []"
  "ev_Message empty_event = []"
  "ev_ErrorCode empty_event = []"
  "ev_ErrorMessage empty_event = []"
  "ev_ErrorType empty_event = []"
  "ev_Severity empty_event = []"
  "ev_Fingerprint empty_event = []"
  "ev_StackTrace empty_event = []"
  "ev_HTTPStatus empty_event = None"
  "ev_DurationMS empty_event = None"
  "ev_StartedAt empty_event = []"
  "ev_FinishedAt empty_event = []"
  "ev_ActorType empty_event = []"
  "ev_ActorID empty_event = []"
  "ev_Action empty_event = []"
  "ev_EntityType empty_event = []"
  "ev_EntityID empty_event = []"
  "ev_FieldName empty_event = []"
  "ev_Changes empty_event = GNil"
  "ev_OldValue empty_event = GNil"
  "ev_NewValue empty_event = GNil"
  "ev_Reason empty_event = []"
  "ev_Metadata empty_event = None"
  "ev_Data empty_event = None"
  by (simp_all add: empty_event_def)

lemma event_slots:
  assumes T: "T = event_table fl" and e: "event_readable e"
    and "any_back fl n (ev_Changes e) cs" and "any_back fl n (ev_OldValue e) old"
    and "any_back fl n (ev_NewValue e) new" and "map_back fl n (ev_Metadata e) md" and "map_back fl n (ev_Data e) da"
    and s: "s = (valid_strings e)\<lparr>ev_Changes := cs, ev_OldValue := old, ev_NewValue := new, ev_Metadata := md, ev_Data := da\<rparr>"
  shows "slots T n (event_members e) empty_event s"
proof -
  have "list_all (\<lambda>(k, f). field_at T k f) (event_table fl)" using event_field_at by (simp add: T)
  then have at: "list_all (\<lambda>(k, f). field_at T k f) (event_table fl) \<and> True" by simp
  have ints: "\<And>i. ev_HTTPStatus e = Some i \<Longrightarrow> - (2 ^ 63) \<le> i \<and> i < 2 ^ 63"
    "\<And>i. ev_DurationMS e = Some i \<Longrightarrow> - (2 ^ 63) \<le> i \<and> i < 2 ^ 63"
    using e by (auto simp: event_readable_def)
  show ?thesis
    using at assms(3-7) unfolding event_members_def event_table_def list.pred_inject prod.case
    by (elim conjE)
      (((rule slot_str, assumption) | (rule slot_opt_str, assumption, rule event_self, simp (no_asm))
        | (rule slot_opt_int, assumption, rule event_self, simp (no_asm), erule ints)
        | (rule slot_any, assumption, assumption, rule event_self, simp (no_asm))
        | (rule slot_map, assumption, assumption, rule event_self, simp (no_asm)))+,
       rule slots_Nil, rule event.equality; simp (no_asm) only: s, simp (no_asm) add: valid_strings_def)
qed

text \<open>
  What the encoder writes for an event is decoded again, to the same event up to what JSON does to it:
  the strings are made valid UTF-8, and the values of type \<open>any\<close> are the generic ones.
\<close>

lemma event_back:
  assumes "json_event e = Some t" and "event_readable e"
  shows "\<exists>cs old new md da.
    any_back fl (maxNestingDepth - 1) (ev_Changes e) cs \<and> any_back fl (maxNestingDepth - 1) (ev_OldValue e) old \<and>
    any_back fl (maxNestingDepth - 1) (ev_NewValue e) new \<and>
    map_back fl (maxNestingDepth - 1) (ev_Metadata e) md \<and> map_back fl (maxNestingDepth - 1) (ev_Data e) da \<and>
    unmarshal_event fl t = Some ((valid_strings e)
      \<lparr>ev_Changes := cs, ev_OldValue := old, ev_NewValue := new, ev_Metadata := md, ev_Data := da\<rparr>)"
proof -
  let ?n = "maxNestingDepth - 1"
  obtain mss where mss: "those (event_members e) = Some mss" "t = json_object (concat mss)"
    using assms(1) by (auto simp: json_event_def)
  have "readable ?n v" if "v \<in> {ev_Changes e, ev_OldValue e, ev_NewValue e, GFields (ev_Metadata e), GFields (ev_Data e)}" for v
    using assms(2) that unfolding event_readable_def by blast
  then obtain cs old new md da where w: "any_back fl ?n (ev_Changes e) cs" "any_back fl ?n (ev_OldValue e) old"
      "any_back fl ?n (ev_NewValue e) new" "map_back fl ?n (ev_Metadata e) md" "map_back fl ?n (ev_Data e) da"
    using any_back_ex [of ?n] map_back_ex [of ?n] by (metis insertCI)
  from unmarshal_slots [OF mss(1) event_slots [OF refl assms(2) w refl]] w
  show ?thesis unfolding unmarshal_event_def mss(2) by blast
qed

text \<open>The same as a relation between an event and what is read back, and the plain case.\<close>

definition echoes :: "(string \<Rightarrow> string) \<Rightarrow> event \<Rightarrow> event \<Rightarrow> bool" where
  "echoes fl e e' \<longleftrightarrow>
     any_back fl (maxNestingDepth - 1) (ev_Changes e) (ev_Changes e') \<and>
     any_back fl (maxNestingDepth - 1) (ev_OldValue e) (ev_OldValue e') \<and>
     any_back fl (maxNestingDepth - 1) (ev_NewValue e) (ev_NewValue e') \<and>
     map_back fl (maxNestingDepth - 1) (ev_Metadata e) (ev_Metadata e') \<and>
     map_back fl (maxNestingDepth - 1) (ev_Data e) (ev_Data e') \<and>
     e' = (valid_strings e)\<lparr>ev_Changes := ev_Changes e', ev_OldValue := ev_OldValue e',
       ev_NewValue := ev_NewValue e', ev_Metadata := ev_Metadata e', ev_Data := ev_Data e'\<rparr>"

lemma event_echoes:
  assumes "json_event e = Some t" and "event_readable e"
  shows "\<exists>e'. unmarshal_event fl t = Some e' \<and> echoes fl e e'"
  using event_back [OF assms, of fl] unfolding echoes_def by force

lemma echoes_plain:
  assumes "echoes fl e e'" and "valid_strings e = e"
    and "ev_Changes e = GNil" "ev_OldValue e = GNil" "ev_NewValue e = GNil" "ev_Metadata e = None" "ev_Data e = None"
  shows "e' = e"
proof -
  have "ev_Changes e' = GNil" "ev_OldValue e' = GNil" "ev_NewValue e' = GNil" "ev_Metadata e' = None" "ev_Data e' = None"
    using assms by (simp_all add: echoes_def any_back_def map_back_def)
  with assms show ?thesis unfolding echoes_def by simp
qed

end
