(* ===== verification/Sdk_Config.thy ===== *)
theory Sdk_Config
  imports Events
begin

text \<open>
  \<open>logcenter/config.go\<close>, \<open>logcenter/env.go\<close> and the configuration structs of
  \<open>logcenter/hooks.go\<close> and \<open>logcenter/tamper.go\<close>.  Durations are nanoseconds.  Go's \<open>int\<close>
  fields are HOL integers: the code only compares them, except where \<open>wrap64\<close> says so.
  Callbacks are user code: a hook is present or absent, and an HTTP client is the default one
  or a custom one.
\<close>

section \<open>Configuration\<close>

datatype http_client = DefaultClient | CustomClient nat

record hooks =
  hk_OnEventDropped :: bool
  hk_OnEventTruncated :: bool
  hk_OnBatchFailed :: bool
  hk_OnEventRejected :: bool
  hk_OnErrorChanged :: bool

definition no_hooks :: hooks where
  "no_hooks = \<lparr>hk_OnEventDropped = False, hk_OnEventTruncated = False, hk_OnBatchFailed = False,
     hk_OnEventRejected = False, hk_OnErrorChanged = False\<rparr>"

record tamper_config =
  tc_Enabled :: bool
  tc_ChainID :: string
  tc_Secret :: string
  tc_StatePath :: string
  tc_MetadataKey :: string
  tc_EventTypes :: "string list option"
  tc_Classifications :: "string list option"

definition no_tamper_config :: tamper_config where
  "no_tamper_config = \<lparr>tc_Enabled = False, tc_ChainID = [], tc_Secret = [], tc_StatePath = [],
     tc_MetadataKey = [], tc_EventTypes = None, tc_Classifications = None\<rparr>"

record config =
  cfg_Enabled :: "bool option"
  cfg_Endpoint :: string
  cfg_APIKey :: string
  cfg_Environment :: string
  cfg_Service :: string
  cfg_Version :: string
  cfg_Timeout :: int
  cfg_SendTimeout :: int
  cfg_FlushTimeout :: int
  cfg_CloseTimeout :: int
  cfg_BufferSize :: int
  cfg_BatchSize :: int
  cfg_FlushInterval :: int
  cfg_RetryAttempts :: int
  cfg_HTTPClient :: "http_client option"
  cfg_Source :: fields
  cfg_Hooks :: hooks
  cfg_OutboxPath :: string
  cfg_TamperEvidence :: tamper_config
  cfg_SensitiveKeyFragments :: "string list option"
  cfg_MaxStringBytes :: int
  cfg_MaxMetadataBytes :: int
  cfg_MaxDataBytes :: int
  cfg_MaxAuditValueBytes :: int
  cfg_MaxEventBytes :: int
  cfg_MaxBatchBytes :: int

definition empty_config :: config where
  "empty_config = \<lparr>
     cfg_Enabled = None,
     cfg_Endpoint = [],
     cfg_APIKey = [],
     cfg_Environment = [],
     cfg_Service = [],
     cfg_Version = [],
     cfg_Timeout = 0,
     cfg_SendTimeout = 0,
     cfg_FlushTimeout = 0,
     cfg_CloseTimeout = 0,
     cfg_BufferSize = 0,
     cfg_BatchSize = 0,
     cfg_FlushInterval = 0,
     cfg_RetryAttempts = 0,
     cfg_HTTPClient = None,
     cfg_Source = None,
     cfg_Hooks = no_hooks,
     cfg_OutboxPath = [],
     cfg_TamperEvidence = no_tamper_config,
     cfg_SensitiveKeyFragments = None,
     cfg_MaxStringBytes = 0,
     cfg_MaxMetadataBytes = 0,
     cfg_MaxDataBytes = 0,
     cfg_MaxAuditValueBytes = 0,
     cfg_MaxEventBytes = 0,
     cfg_MaxBatchBytes = 0\<rparr>"

definition SdkVersion :: string where "SdkVersion = ''0.1.0''"

definition DefaultMaxStringBytes :: int where "DefaultMaxStringBytes = 0"
definition DefaultMaxMetadataBytes :: int where "DefaultMaxMetadataBytes = 1024 * 1024"
definition DefaultMaxDataBytes :: int where "DefaultMaxDataBytes = 5 * 1024 * 1024"
definition DefaultMaxAuditValueBytes :: int where "DefaultMaxAuditValueBytes = 1024 * 1024"
definition DefaultMaxEventBytes :: int where "DefaultMaxEventBytes = 5 * 1024 * 1024"
definition DefaultMaxBatchBytes :: int where "DefaultMaxBatchBytes = 20 * 1024 * 1024"
definition MaxJSONValueBytes :: int where "MaxJSONValueBytes = DefaultMaxEventBytes"

lemmas max_bytes_defs =
  DefaultMaxStringBytes_def DefaultMaxMetadataBytes_def DefaultMaxDataBytes_def
  DefaultMaxAuditValueBytes_def DefaultMaxEventBytes_def DefaultMaxBatchBytes_def
  MaxJSONValueBytes_def

definition second_ns :: int where "second_ns = 1000000000"

definition isEnabled :: "config \<Rightarrow> bool" where
  "isEnabled c \<longleftrightarrow> cfg_Enabled c = None \<or> cfg_Enabled c = Some True"

text \<open>\<open>runtime.Version()\<close> is the argument \<open>rt\<close>.\<close>

definition defaultSource :: "string \<Rightarrow> fields" where
  "defaultSource rt = Some
     [(''sdk'', GStr ''logcenter-go''), (''sdk_version'', GStr SdkVersion), (''runtime'', GStr rt)]"

text \<open>
  \<open>Config.normalized\<close>: the local names are the assigned fields that later assignments read.
\<close>

definition normalized :: "string \<Rightarrow> config \<Rightarrow> config" where
  "normalized rt c =
    (let timeout = (if cfg_Timeout c \<le> 0 then 2 * second_ns else cfg_Timeout c);
         send_timeout = (if cfg_SendTimeout c \<le> 0 then timeout else cfg_SendTimeout c);
         buffer_size = (if cfg_BufferSize c \<le> 0 then 1000 else cfg_BufferSize c);
         batch_size = (if cfg_BatchSize c \<le> 0 then 100 else cfg_BatchSize c);
         batch_size = (if batch_size > buffer_size then buffer_size else batch_size)
     in c\<lparr>
       cfg_Endpoint := trim_right CHR ''/'' (trim_space (cfg_Endpoint c)),
       cfg_Environment :=
         (if trim_space (cfg_Environment c) = [] then ''development'' else cfg_Environment c),
       cfg_Service := (if trim_space (cfg_Service c) = [] then ''go-service'' else cfg_Service c),
       cfg_Timeout := timeout,
       cfg_SendTimeout := send_timeout,
       cfg_BufferSize := buffer_size,
       cfg_BatchSize := batch_size,
       cfg_FlushInterval := (if cfg_FlushInterval c \<le> 0 then second_ns else cfg_FlushInterval c),
       cfg_RetryAttempts := (if cfg_RetryAttempts c < 0 then 0 else cfg_RetryAttempts c),
       cfg_HTTPClient := (if cfg_HTTPClient c = None then Some DefaultClient else cfg_HTTPClient c),
       cfg_Source := (if cfg_Source c = None then defaultSource rt else cfg_Source c),
       cfg_MaxStringBytes :=
         (if cfg_MaxStringBytes c \<le> 0 then DefaultMaxStringBytes else cfg_MaxStringBytes c),
       cfg_MaxMetadataBytes :=
         (if cfg_MaxMetadataBytes c \<le> 0 then DefaultMaxMetadataBytes else cfg_MaxMetadataBytes c),
       cfg_MaxDataBytes :=
         (if cfg_MaxDataBytes c \<le> 0 then DefaultMaxDataBytes else cfg_MaxDataBytes c),
       cfg_MaxAuditValueBytes :=
         (if cfg_MaxAuditValueBytes c \<le> 0 then DefaultMaxAuditValueBytes
          else cfg_MaxAuditValueBytes c),
       cfg_MaxEventBytes :=
         (if cfg_MaxEventBytes c \<le> 0 then DefaultMaxEventBytes else cfg_MaxEventBytes c),
       cfg_MaxBatchBytes :=
         (if cfg_MaxBatchBytes c \<le> 0 then DefaultMaxBatchBytes else cfg_MaxBatchBytes c)\<rparr>)"

text \<open>What normalisation leaves in every field.\<close>

lemma normalized_fields [norm_simps]:
  "cfg_Enabled (normalized rt c) = cfg_Enabled c"
  "cfg_Endpoint (normalized rt c) = trim_right CHR ''/'' (trim_space (cfg_Endpoint c))"
  "cfg_APIKey (normalized rt c) = cfg_APIKey c"
  "cfg_Environment (normalized rt c) = (if trim_space (cfg_Environment c) = [] then ''development'' else cfg_Environment c)"
  "cfg_Service (normalized rt c) = (if trim_space (cfg_Service c) = [] then ''go-service'' else cfg_Service c)"
  "cfg_Version (normalized rt c) = cfg_Version c"
  "cfg_Timeout (normalized rt c) = (if cfg_Timeout c \<le> 0 then 2 * second_ns else cfg_Timeout c)"
  "cfg_SendTimeout (normalized rt c) = (if cfg_SendTimeout c \<le> 0 then cfg_Timeout (normalized rt c) else cfg_SendTimeout c)"
  "cfg_FlushTimeout (normalized rt c) = cfg_FlushTimeout c"
  "cfg_CloseTimeout (normalized rt c) = cfg_CloseTimeout c"
  "cfg_BufferSize (normalized rt c) = (if cfg_BufferSize c \<le> 0 then 1000 else cfg_BufferSize c)"
  "cfg_BatchSize (normalized rt c) = min (if cfg_BatchSize c \<le> 0 then 100 else cfg_BatchSize c) (cfg_BufferSize (normalized rt c))"
  "cfg_FlushInterval (normalized rt c) = (if cfg_FlushInterval c \<le> 0 then second_ns else cfg_FlushInterval c)"
  "cfg_RetryAttempts (normalized rt c) = max 0 (cfg_RetryAttempts c)"
  "cfg_HTTPClient (normalized rt c) = (if cfg_HTTPClient c = None then Some DefaultClient else cfg_HTTPClient c)"
  "cfg_Source (normalized rt c) = (if cfg_Source c = None then defaultSource rt else cfg_Source c)"
  "cfg_Hooks (normalized rt c) = cfg_Hooks c"
  "cfg_OutboxPath (normalized rt c) = cfg_OutboxPath c"
  "cfg_TamperEvidence (normalized rt c) = cfg_TamperEvidence c"
  "cfg_SensitiveKeyFragments (normalized rt c) = cfg_SensitiveKeyFragments c"
  "cfg_MaxStringBytes (normalized rt c) = (if cfg_MaxStringBytes c \<le> 0 then DefaultMaxStringBytes else cfg_MaxStringBytes c)"
  "cfg_MaxMetadataBytes (normalized rt c) = (if cfg_MaxMetadataBytes c \<le> 0 then DefaultMaxMetadataBytes else cfg_MaxMetadataBytes c)"
  "cfg_MaxDataBytes (normalized rt c) = (if cfg_MaxDataBytes c \<le> 0 then DefaultMaxDataBytes else cfg_MaxDataBytes c)"
  "cfg_MaxAuditValueBytes (normalized rt c) = (if cfg_MaxAuditValueBytes c \<le> 0 then DefaultMaxAuditValueBytes else cfg_MaxAuditValueBytes c)"
  "cfg_MaxEventBytes (normalized rt c) = (if cfg_MaxEventBytes c \<le> 0 then DefaultMaxEventBytes else cfg_MaxEventBytes c)"
  "cfg_MaxBatchBytes (normalized rt c) = (if cfg_MaxBatchBytes c \<le> 0 then DefaultMaxBatchBytes else cfg_MaxBatchBytes c)"
  by (simp_all add: normalized_def Let_def min_def)

section \<open>What a normalised configuration guarantees\<close>

definition config_ok :: "config \<Rightarrow> bool" where
  "config_ok c \<longleftrightarrow>
     \<not> ends_with (cfg_Endpoint c) ''/'' \<and> \<not> blank (cfg_Environment c) \<and> \<not> blank (cfg_Service c) \<and>
     0 < cfg_Timeout c \<and> 0 < cfg_SendTimeout c \<and> 0 < cfg_FlushInterval c \<and>
     0 < cfg_BatchSize c \<and> cfg_BatchSize c \<le> cfg_BufferSize c \<and> 0 \<le> cfg_RetryAttempts c \<and>
     cfg_HTTPClient c \<noteq> None \<and> cfg_Source c \<noteq> None \<and> 0 \<le> cfg_MaxStringBytes c \<and>
     0 < cfg_MaxMetadataBytes c \<and> 0 < cfg_MaxDataBytes c \<and> 0 < cfg_MaxAuditValueBytes c \<and>
     0 < cfg_MaxEventBytes c \<and> 0 < cfg_MaxBatchBytes c"

lemma trim_right_no_slash: "\<not> ends_with (trim_right c s) [c]"
proof
  assume "ends_with (trim_right c s) [c]"
  then have "take 1 (dropWhile (\<lambda>b. b = c) (rev s)) = [c]"
    by (simp add: trim_right_def ends_with_def starts_with_def)
  then have "dropWhile (\<lambda>b. b = c) (rev s) \<noteq> [] \<and> hd (dropWhile (\<lambda>b. b = c) (rev s)) = c"
    by (cases "dropWhile (\<lambda>b. b = c) (rev s)") auto
  then show False using hd_dropWhile [of "\<lambda>b. b = c" "rev s"] by blast
qed

lemma trim_right_idem: "trim_right c (trim_right c s) = trim_right c s"
  by (simp add: trim_right_def dropWhile_idem)

lemma config_default_strings: "\<not> blank ''development''" "\<not> blank ''go-service''"
  by code_simp+

lemma normalized_ok: "config_ok (normalized rt c)"
  by (auto simp: config_ok_def norm_simps trim_right_no_slash blank_def second_ns_def
      max_bytes_defs defaultSource_def config_default_strings [unfolded blank_def])

lemma normalized_fixed:
  assumes "config_ok c"
  shows "normalized rt c = c\<lparr>cfg_Endpoint := trim_right CHR ''/'' (trim_space (cfg_Endpoint c))\<rparr>"
proof -
  have "cfg_MaxStringBytes c \<le> 0 \<Longrightarrow> cfg_MaxStringBytes c = DefaultMaxStringBytes"
    using assms by (simp add: config_ok_def max_bytes_defs)
  then show ?thesis
    using assms by (intro config.equality) (auto simp: normalized_def Let_def config_ok_def blank_def)
qed

text \<open>
  C33: whatever a caller puts into a \<open>Config\<close>, the normalised one is usable: a positive \<open>Timeout\<close>,
  \<open>SendTimeout\<close> and \<open>FlushInterval\<close>, a positive batch size that fits the buffer, no negative retry
  count, positive payload ceilings (0, no ceiling, only for strings), a non-blank environment and
  service, a source and an HTTP client, and an endpoint that does not end in a slash.
  \<open>FlushTimeout\<close> and \<open>CloseTimeout\<close>, where zero or less means no timeout of its own, the API key, the
  switch, the outbox path and the tamper settings stay as they were given.
\<close>

theorem normalized_config_ok:
  "config_ok (normalized rt c) \<and>
   cfg_FlushTimeout (normalized rt c) = cfg_FlushTimeout c \<and>
   cfg_CloseTimeout (normalized rt c) = cfg_CloseTimeout c \<and>
   cfg_APIKey (normalized rt c) = cfg_APIKey c \<and> cfg_Enabled (normalized rt c) = cfg_Enabled c \<and>
   cfg_OutboxPath (normalized rt c) = cfg_OutboxPath c \<and>
   cfg_TamperEvidence (normalized rt c) = cfg_TamperEvidence c"
  using normalized_ok by (simp add: norm_simps)

text \<open>
  Normalising twice changes at most the endpoint; every other field is a fixed point.
\<close>

theorem normalized_idem:
  "normalized rt (normalized rt c) =
     (normalized rt c)\<lparr>cfg_Endpoint := trim_right CHR ''/'' (trim_space (cfg_Endpoint (normalized rt c)))\<rparr>"
  by (rule normalized_fixed) (rule normalized_ok)

end
