(* ===== verification/Env_Config.thy ===== *)
theory Env_Config
  imports Sdk_Config Go_Duration
begin

text \<open>
  \<open>logcenter/env.go\<close>: configuration from environment variables.  The environment is the
  argument \<open>lookup\<close>, as \<open>configFromLookup\<close> takes it; None is a variable that is not set.
  \<open>ul\<close> is the lower-case table.
\<close>

type_synonym lookup = "string \<Rightarrow> string option"

datatype env_error = NotBoolean string | NotInteger string | NotDuration string

fun envString :: "lookup \<Rightarrow> string list \<Rightarrow> string option" where
  "envString lookup [] = None"
| "envString lookup (name # names) =
     (case lookup name of
        None \<Rightarrow> envString lookup names
      | Some v \<Rightarrow> (let v = trim_space v in if v \<noteq> [] then Some v else envString lookup names))"

text \<open>The callers that ignore the second result: a missing variable is the empty string.\<close>

definition envText :: "lookup \<Rightarrow> string list \<Rightarrow> string" where
  "envText lookup names = (case envString lookup names of None \<Rightarrow> [] | Some v \<Rightarrow> v)"

definition envList :: "lookup \<Rightarrow> string \<Rightarrow> string list option" where
  "envList lookup name =
     (case envString lookup [name] of
        None \<Rightarrow> None
      | Some v \<Rightarrow> Some (filter (\<lambda>p. p \<noteq> []) (map trim_space (split_on CHR '','' v))))"

definition envInt :: "lookup \<Rightarrow> string \<Rightarrow> env_error + int" where
  "envInt lookup name =
     (case envString lookup [name] of
        None \<Rightarrow> Inr 0
      | Some v \<Rightarrow> (case atoi v of None \<Rightarrow> Inl (NotInteger name) | Some i \<Rightarrow> Inr i))"

definition envDuration :: "lookup \<Rightarrow> string \<Rightarrow> env_error + int" where
  "envDuration lookup name =
     (case envString lookup [name] of
        None \<Rightarrow> Inr 0
      | Some v \<Rightarrow> (case parse_duration v of None \<Rightarrow> Inl (NotDuration name) | Some d \<Rightarrow> Inr d))"

definition env_true_words :: "string list" where
  "env_true_words = [''1'', ''t'', ''true'', ''y'', ''yes'', ''on'', ''enabled'']"

definition env_false_words :: "string list" where
  "env_false_words = [''0'', ''f'', ''false'', ''n'', ''no'', ''off'', ''disabled'']"

definition parseEnvBool :: "(string \<Rightarrow> string) \<Rightarrow> string \<Rightarrow> string \<Rightarrow> env_error + bool" where
  "parseEnvBool ul name v =
     (let w = to_lower ul (trim_space v)
      in if w \<in> set env_true_words then Inr True
         else if w \<in> set env_false_words then Inr False
         else Inl (NotBoolean name))"

text \<open>A boolean variable: None when it is not set.\<close>

definition envBool :: "(string \<Rightarrow> string) \<Rightarrow> lookup \<Rightarrow> string \<Rightarrow> env_error + bool option" where
  "envBool ul lookup name =
     (case envString lookup [name] of
        None \<Rightarrow> Inr None
      | Some v \<Rightarrow> res_bind (parseEnvBool ul name v) (\<lambda>b. Inr (Some b)))"

definition configFromLookup ::
  "(string \<Rightarrow> string) \<Rightarrow> lookup \<Rightarrow> env_error + config" where
  "configFromLookup ul lookup =
     res_bind (envBool ul lookup ''LOGCENTER_ENABLED'') (\<lambda>enabled.
     res_bind (envBool ul lookup ''LOGCENTER_TAMPER_EVIDENCE_ENABLED'') (\<lambda>tamper_enabled.
     res_bind (envDuration lookup ''LOGCENTER_TIMEOUT'') (\<lambda>timeout.
     res_bind (envDuration lookup ''LOGCENTER_SEND_TIMEOUT'') (\<lambda>send_timeout.
     res_bind (envDuration lookup ''LOGCENTER_FLUSH_TIMEOUT'') (\<lambda>flush_timeout.
     res_bind (envDuration lookup ''LOGCENTER_CLOSE_TIMEOUT'') (\<lambda>close_timeout.
     res_bind (envInt lookup ''LOGCENTER_BUFFER_SIZE'') (\<lambda>buffer_size.
     res_bind (envInt lookup ''LOGCENTER_BATCH_SIZE'') (\<lambda>batch_size.
     res_bind (envDuration lookup ''LOGCENTER_FLUSH_INTERVAL'') (\<lambda>flush_interval.
     res_bind (envInt lookup ''LOGCENTER_RETRY_ATTEMPTS'') (\<lambda>retry_attempts.
     res_bind (envInt lookup ''LOGCENTER_MAX_STRING_BYTES'') (\<lambda>max_string.
     res_bind (envInt lookup ''LOGCENTER_MAX_METADATA_BYTES'') (\<lambda>max_metadata.
     res_bind (envInt lookup ''LOGCENTER_MAX_DATA_BYTES'') (\<lambda>max_data.
     res_bind (envInt lookup ''LOGCENTER_MAX_AUDIT_VALUE_BYTES'') (\<lambda>max_audit.
     res_bind (envInt lookup ''LOGCENTER_MAX_EVENT_BYTES'') (\<lambda>max_event.
     res_bind (envInt lookup ''LOGCENTER_MAX_BATCH_BYTES'') (\<lambda>max_batch.
     Inr (empty_config\<lparr>
       cfg_Enabled := enabled,
       cfg_Endpoint := envText lookup [''LOGCENTER_ENDPOINT''],
       cfg_APIKey := envText lookup [''LOGCENTER_API_KEY''],
       cfg_Environment := envText lookup [''LOGCENTER_ENVIRONMENT'', ''APP_ENV''],
       cfg_Service := envText lookup [''LOGCENTER_SERVICE''],
       cfg_Version := envText lookup [''LOGCENTER_VERSION''],
       cfg_OutboxPath := envText lookup [''LOGCENTER_OUTBOX_PATH''],
       cfg_TamperEvidence := \<lparr>
         tc_Enabled = (tamper_enabled = Some True),
         tc_ChainID = envText lookup [''LOGCENTER_TAMPER_EVIDENCE_CHAIN_ID''],
         tc_Secret = envText lookup [''LOGCENTER_TAMPER_EVIDENCE_SECRET''],
         tc_StatePath = envText lookup [''LOGCENTER_TAMPER_EVIDENCE_STATE_PATH''],
         tc_MetadataKey = envText lookup [''LOGCENTER_TAMPER_EVIDENCE_METADATA_KEY''],
         tc_EventTypes = envList lookup ''LOGCENTER_TAMPER_EVIDENCE_EVENT_TYPES'',
         tc_Classifications = envList lookup ''LOGCENTER_TAMPER_EVIDENCE_CLASSIFICATIONS''\<rparr>,
       cfg_SensitiveKeyFragments := envList lookup ''LOGCENTER_SENSITIVE_KEY_FRAGMENTS'',
       cfg_Timeout := timeout,
       cfg_SendTimeout := send_timeout,
       cfg_FlushTimeout := flush_timeout,
       cfg_CloseTimeout := close_timeout,
       cfg_BufferSize := buffer_size,
       cfg_BatchSize := batch_size,
       cfg_FlushInterval := flush_interval,
       cfg_RetryAttempts := retry_attempts,
       cfg_MaxStringBytes := max_string,
       cfg_MaxMetadataBytes := max_metadata,
       cfg_MaxDataBytes := max_data,
       cfg_MaxAuditValueBytes := max_audit,
       cfg_MaxEventBytes := max_event,
       cfg_MaxBatchBytes := max_batch\<rparr>)))))))))))))))))"

section \<open>Facts\<close>

lemma envString_trimmed: "envString lookup names = Some v \<Longrightarrow> v \<noteq> [] \<and> trim_space v = v"
  by (induction lookup names rule: envString.induct) (auto simp: Let_def split: option.splits if_splits)

lemma envText_trimmed: "trim_space (envText lookup names) = envText lookup names"
  using envString_trimmed by (auto simp: envText_def split: option.splits)

lemma envList_clean:
  "envList lookup name = Some vs \<Longrightarrow> p \<in> set vs \<Longrightarrow> p \<noteq> [] \<and> trim_space p = p"
  by (auto simp: envList_def split: option.splits)

text \<open>The result of one 64-bit variable: missing or blank is 0, else what \<open>Atoi\<close> says.\<close>

lemma envInt_Inr:
  "envInt lookup name = Inr i \<longleftrightarrow>
     (envString lookup [name] = None \<and> i = 0 \<or>
      (\<exists>v. envString lookup [name] = Some v \<and> atoi v = Some i))"
  by (auto simp: envInt_def split: option.splits)

lemma atoi_digits_range: "atoi_digits neg s = Some i \<Longrightarrow> - (2 ^ 63) \<le> i \<and> i < 2 ^ 63"
  unfolding atoi_digits_def Let_def by (metis option.distinct(1) option.inject)

lemma atoi_range: "atoi s = Some i \<Longrightarrow> - (2 ^ 63) \<le> i \<and> i < 2 ^ 63"
  unfolding atoi_def by (auto split: list.splits if_splits dest: atoi_digits_range)

end
