(* ===== verification/Event_Queue.thy ===== *)
theory Event_Queue
  imports Events
begin

text \<open>
  \<open>logcenter/queue.go\<close>: the bounded in-memory buffer.  The mutex makes each operation
  atomic, so an operation is a function from the queue to its result and the new queue.
  The locale \<open>lossy_buffer\<close> is the contract the client relies on; it is interpreted on
  \<open>push\<close> and \<open>drain\<close> at the end.
\<close>

section \<open>The code\<close>

record event_queue =
  q_events :: "event list"
  q_capacity :: int

record push_result =
  pr_queued :: bool
  pr_dropped :: "event option"
  pr_dropReason :: string

definition newEventQueue :: "int \<Rightarrow> event_queue" where
  "newEventQueue capacity = \<lparr>q_events = [], q_capacity = capacity\<rparr>"

definition isDroppable :: "event \<Rightarrow> bool" where
  "isDroppable e \<longleftrightarrow>
     ev_EventType e = EventTypeLogEvent \<and> (ev_Level e = LevelDebug \<or> ev_Level e = LevelInfo)"

text \<open>The loop of \<open>indexOfDroppable\<close>; None is the code's -1.\<close>

fun index_from :: "nat \<Rightarrow> string \<Rightarrow> event list \<Rightarrow> nat option" where
  "index_from i level [] = None"
| "index_from i level (e # es) =
     (if ev_EventType e = EventTypeLogEvent \<and> ev_Level e = level then Some i
      else index_from (Suc i) level es)"

definition indexOfDroppable :: "event_queue \<Rightarrow> string \<Rightarrow> nat option" where
  "indexOfDroppable q level = index_from 0 level (q_events q)"

definition replace_at :: "nat \<Rightarrow> event \<Rightarrow> event_queue \<Rightarrow> push_result \<times> event_queue" where
  "replace_at i e q =
     (\<lparr>pr_queued = True, pr_dropped = Some (q_events q ! i), pr_dropReason = ''buffer_replaced''\<rparr>,
      q\<lparr>q_events := (q_events q)[i := e]\<rparr>)"

definition push :: "event \<Rightarrow> event_queue \<Rightarrow> push_result \<times> event_queue" where
  "push e q =
     (if int (length (q_events q)) < q_capacity q then
        (\<lparr>pr_queued = True, pr_dropped = None, pr_dropReason = []\<rparr>,
         q\<lparr>q_events := q_events q @ [e]\<rparr>)
      else if isDroppable e then
        (\<lparr>pr_queued = False, pr_dropped = Some e, pr_dropReason = ''buffer_full''\<rparr>, q)
      else
        (case indexOfDroppable q LevelDebug of
           Some i \<Rightarrow> replace_at i e q
         | None \<Rightarrow>
           (case indexOfDroppable q LevelInfo of
              Some i \<Rightarrow> replace_at i e q
            | None \<Rightarrow>
              (\<lparr>pr_queued = False, pr_dropped = Some e, pr_dropReason = ''buffer_full''\<rparr>, q))))"

definition drain :: "int \<Rightarrow> event_queue \<Rightarrow> event list \<times> event_queue" where
  "drain n q =
     (if q_events q = [] then ([], q)
      else
        (let k = (if n \<le> 0 \<or> n > int (length (q_events q)) then length (q_events q) else nat n)
         in (take k (q_events q), q\<lparr>q_events := drop k (q_events q)\<rparr>)))"

definition queue_len :: "event_queue \<Rightarrow> nat" where
  "queue_len q = length (q_events q)"

section \<open>The eviction search\<close>

abbreviation log_of :: "string \<Rightarrow> event \<Rightarrow> bool" where
  "log_of level e \<equiv> ev_EventType e = EventTypeLogEvent \<and> ev_Level e = level"

lemma index_from_Some:
  "index_from i level es = Some j \<Longrightarrow>
     \<exists>xs v ys. es = xs @ v # ys \<and> j = i + length xs \<and> log_of level v \<and> (\<forall>x \<in> set xs. \<not> log_of level x)"
proof (induction i level es rule: index_from.induct)
  case (2 i level e es)
  show ?case
  proof (cases "log_of level e")
    case True
    with 2 show ?thesis by (intro exI [of _ "[]"] exI [of _ e] exI [of _ es]) simp
  next
    case False
    then have "index_from (Suc i) level es = Some j" using "2.prems" by (auto split: if_splits)
    then obtain xs v ys where "es = xs @ v # ys" "j = Suc i + length xs" "log_of level v"
        "\<forall>x \<in> set xs. \<not> log_of level x"
      using "2.IH" [OF False] by blast
    with False show ?thesis by (intro exI [of _ "e # xs"] exI [of _ v] exI [of _ ys]) auto
  qed
qed simp

lemma index_from_None:
  "index_from i level es = None \<longleftrightarrow> (\<forall>e \<in> set es. \<not> log_of level e)"
  by (induction i level es rule: index_from.induct) auto

lemma indexOfDroppable_Some:
  assumes "indexOfDroppable q level = Some i"
  obtains xs v ys where "q_events q = xs @ v # ys" "i = length xs" "log_of level v"
    "\<forall>x \<in> set xs. \<not> log_of level x"
  using index_from_Some [of 0 level "q_events q" i] assms by (auto simp: indexOfDroppable_def)

lemma indexOfDroppable_None:
  "indexOfDroppable q LevelDebug = None \<Longrightarrow> indexOfDroppable q LevelInfo = None \<Longrightarrow>
     e \<in> set (q_events q) \<Longrightarrow> \<not> isDroppable e"
  by (auto simp: indexOfDroppable_def index_from_None isDroppable_def)

text \<open>
  The four outcomes of a push.  The victim of a replacement is a debug event if there is one,
  else an info event, the oldest of its level either way.
\<close>

inductive push_outcome :: "event \<Rightarrow> event_queue \<Rightarrow> push_result \<Rightarrow> event_queue \<Rightarrow> bool" where
  room: "int (length (q_events q)) < q_capacity q \<Longrightarrow>
     push_outcome e q \<lparr>pr_queued = True, pr_dropped = None, pr_dropReason = []\<rparr>
       (q\<lparr>q_events := q_events q @ [e]\<rparr>)"
| refused: "\<not> int (length (q_events q)) < q_capacity q \<Longrightarrow>
     isDroppable e \<or> (\<forall>x \<in> set (q_events q). \<not> isDroppable x) \<Longrightarrow>
     push_outcome e q \<lparr>pr_queued = False, pr_dropped = Some e, pr_dropReason = ''buffer_full''\<rparr> q"
| replaced: "\<not> int (length (q_events q)) < q_capacity q \<Longrightarrow> \<not> isDroppable e \<Longrightarrow>
     q_events q = xs @ v # ys \<Longrightarrow> isDroppable v \<Longrightarrow>
     (\<forall>x \<in> set xs. isDroppable x \<longrightarrow> ev_Level v = LevelDebug \<and> ev_Level x = LevelInfo) \<Longrightarrow>
     (ev_Level v = LevelInfo \<longrightarrow> (\<forall>x \<in> set ys. isDroppable x \<longrightarrow> ev_Level x = LevelInfo)) \<Longrightarrow>
     push_outcome e q
       \<lparr>pr_queued = True, pr_dropped = Some v, pr_dropReason = ''buffer_replaced''\<rparr>
       (q\<lparr>q_events := xs @ e # ys\<rparr>)"

inductive_cases push_outcomeE: "push_outcome e q r q'"

lemma levels_distinct [simp]: "LevelDebug \<noteq> LevelInfo" "LevelInfo \<noteq> LevelDebug"
  by (simp_all add: level_defs)

lemma replace_at_outcome:
  assumes full: "\<not> int (length (q_events q)) < q_capacity q" and e: "\<not> isDroppable e"
    and i: "indexOfDroppable q level = Some i"
    and level: "level = LevelDebug \<or> level = LevelInfo \<and> indexOfDroppable q LevelDebug = None"
  shows "push_outcome e q (fst (replace_at i e q)) (snd (replace_at i e q))"
proof -
  obtain xs v ys where q: "q_events q = xs @ v # ys" and "i = length xs"
    and v: "log_of level v" and xs: "\<forall>x \<in> set xs. \<not> log_of level x"
    using i by (rule indexOfDroppable_Some)
  have none: "level = LevelInfo \<Longrightarrow> \<forall>x \<in> set (q_events q). \<not> log_of LevelDebug x"
    using level by (auto simp: indexOfDroppable_def index_from_None)
  have "push_outcome e q
      \<lparr>pr_queued = True, pr_dropped = Some v, pr_dropReason = ''buffer_replaced''\<rparr>
      (q\<lparr>q_events := xs @ e # ys\<rparr>)"
  proof (rule push_outcome.replaced [OF full e q])
    show "isDroppable v" using v level by (auto simp: isDroppable_def)
    show "\<forall>x \<in> set xs. isDroppable x \<longrightarrow> ev_Level v = LevelDebug \<and> ev_Level x = LevelInfo"
      using level
    proof
      assume "level = LevelDebug"
      with xs v show ?thesis by (auto simp: isDroppable_def)
    next
      assume "level = LevelInfo \<and> indexOfDroppable q LevelDebug = None"
      with xs none q show ?thesis by (auto simp: isDroppable_def)
    qed
    show "ev_Level v = LevelInfo \<longrightarrow> (\<forall>x \<in> set ys. isDroppable x \<longrightarrow> ev_Level x = LevelInfo)"
      using none q v level by (auto simp: isDroppable_def)
  qed
  then show ?thesis by (simp add: replace_at_def q \<open>i = length xs\<close>)
qed

lemma push_refines:
  assumes "push e q = (r, q')"
  shows "push_outcome e q r q'"
proof (cases "int (length (q_events q)) < q_capacity q \<or> isDroppable e")
  case True
  with assms show ?thesis
    by (auto simp: push_def split: if_splits intro: push_outcome.intros)
next
  case False
  show ?thesis
  proof (cases "indexOfDroppable q LevelDebug")
    case (Some i)
    with False assms replace_at_outcome [of q e LevelDebug i] show ?thesis
      by (simp add: push_def)
  next
    case debug: None
    show ?thesis
    proof (cases "indexOfDroppable q LevelInfo")
      case (Some i)
      with debug False assms replace_at_outcome [of q e LevelInfo i] show ?thesis
        by (simp add: push_def)
    next
      case None
      with debug False assms indexOfDroppable_None [OF debug None] show ?thesis
        by (auto simp: push_def intro!: push_outcome.refused)
    qed
  qed
qed

section \<open>The contract\<close>

text \<open>
  What the client needs of its buffer: a push accounts for every event (kept, or handed back
  as dropped), stays within the capacity, drops nothing while there is room, and gives up an
  event that is not expendable only when nothing expendable is left; a drain takes a
  non-empty prefix of at most the asked length.
\<close>

locale lossy_buffer =
  fixes put :: "'a \<Rightarrow> 'q \<Rightarrow> bool \<times> 'a option \<times> 'q"
    and take_some :: "int \<Rightarrow> 'q \<Rightarrow> 'a list \<times> 'q"
    and contents :: "'q \<Rightarrow> 'a list"
    and room :: "'q \<Rightarrow> nat"
    and expendable :: "'a \<Rightarrow> bool"
  assumes put_accounts: "put x q = (ok, d, q') \<Longrightarrow>
      mset (contents q') + mset (case d of None \<Rightarrow> [] | Some y \<Rightarrow> [y]) = add_mset x (mset (contents q))"
    and put_ok: "put x q = (ok, d, q') \<Longrightarrow>
      (if ok then x \<in> set (contents q') else d = Some x \<and> contents q' = contents q)"
    and put_room: "put x q = (ok, d, q') \<Longrightarrow> room q' = room q"
    and put_append: "put x q = (ok, d, q') \<Longrightarrow> length (contents q) < room q \<Longrightarrow>
      ok \<and> d = None \<and> contents q' = contents q @ [x]"
    and put_full: "put x q = (ok, d, q') \<Longrightarrow> \<not> length (contents q) < room q \<Longrightarrow> d \<noteq> None"
    and put_spares: "put x q = (ok, Some y, q') \<Longrightarrow> \<not> expendable y \<Longrightarrow>
      y = x \<and> \<not> ok \<and> (\<forall>z \<in> set (contents q'). \<not> expendable z)"
    and take_prefix: "take_some n q = (xs, q') \<Longrightarrow> contents q = xs @ contents q' \<and> room q' = room q"
    and take_progress: "take_some n q = (xs, q') \<Longrightarrow> contents q \<noteq> [] \<Longrightarrow> xs \<noteq> []"
    and take_at_most: "take_some n q = (xs, q') \<Longrightarrow> 0 < n \<Longrightarrow> int (length xs) \<le> n"

text \<open>A run of pushes with what was dropped, and the loop that drains batch by batch.\<close>

fun put_all :: "('a \<Rightarrow> 'q \<Rightarrow> bool \<times> 'a option \<times> 'q) \<Rightarrow> 'a list \<Rightarrow> 'q \<Rightarrow> 'a list \<times> 'q" where
  "put_all put [] q = ([], q)"
| "put_all put (x # xs) q =
     (case put x q of (ok, d, q') \<Rightarrow>
        (case put_all put xs q' of (ds, q'') \<Rightarrow> ((case d of None \<Rightarrow> ds | Some y \<Rightarrow> y # ds), q'')))"

fun take_all :: "(int \<Rightarrow> 'q \<Rightarrow> 'a list \<times> 'q) \<Rightarrow> nat \<Rightarrow> int \<Rightarrow> 'q \<Rightarrow> ('a list list \<times> 'q) option" where
  "take_all tk 0 n q = None"
| "take_all tk (Suc fuel) n q =
     (case tk n q of (xs, q') \<Rightarrow>
        if xs = [] then Some ([], q')
        else map_option (\<lambda>(bs, q''). (xs # bs, q'')) (take_all tk fuel n q'))"

context lossy_buffer
begin

lemma put_bounded:
  assumes "put x q = (ok, d, q')" and "length (contents q) \<le> room q"
  shows "length (contents q') \<le> room q'"
proof (cases "length (contents q) < room q")
  case True
  with assms put_append put_room show ?thesis by fastforce
next
  case False
  with assms put_full obtain y where d: "d = Some y" by blast
  have "size (mset (contents q')) + 1 = size (mset (contents q)) + 1"
    using put_accounts [OF assms(1)] d by (metis size_add_mset add_mset_add_single
        mset.simps option.simps(5) Suc_eq_plus1 add_mset_commute)
  with assms put_room [OF assms(1)] show ?thesis by simp
qed

lemma put_all_room: "put_all put xs q = (ds, q') \<Longrightarrow> room q' = room q"
  by (induction xs arbitrary: q ds q') (fastforce split: prod.splits option.splits dest: put_room)+

lemma put_all_bounded:
  "put_all put xs q = (ds, q') \<Longrightarrow> length (contents q) \<le> room q \<Longrightarrow> length (contents q') \<le> room q'"
  by (induction xs arbitrary: q ds q') (fastforce split: prod.splits option.splits dest: put_bounded)+

lemma put_all_accounts:
  "put_all put xs q = (ds, q') \<Longrightarrow> mset (contents q') + mset ds = mset xs + mset (contents q)"
proof (induction xs arbitrary: q ds q')
  case (Cons x xs)
  obtain ok d q1 where p: "put x q = (ok, d, q1)" by (cases "put x q") auto
  obtain ds1 where r: "put_all put xs q1 = (ds1, q')"
    and ds: "ds = (case d of None \<Rightarrow> ds1 | Some y \<Rightarrow> y # ds1)"
    using Cons.prems p by (auto split: prod.splits)
  show ?case
    using Cons.IH [OF r] put_accounts [OF p] ds by (cases d) (auto simp: ac_simps)
qed simp

lemma take_all_total:
  "length (contents q) < fuel \<Longrightarrow>
     \<exists>bs q'. take_all take_some fuel n q = Some (bs, q') \<and> contents q' = [] \<and>
       concat bs = contents q \<and> [] \<notin> set bs \<and> room q' = room q"
proof (induction fuel arbitrary: q)
  case (Suc fuel)
  obtain xs q1 where t: "take_some n q = (xs, q1)" by (cases "take_some n q") auto
  have pre: "contents q = xs @ contents q1" "room q1 = room q" using take_prefix [OF t] by simp_all
  show ?case
  proof (cases "xs = []")
    case True
    with pre take_progress [OF t] have "contents q = []" "contents q1 = []" by auto
    with True t pre show ?thesis by simp
  next
    case False
    then have "length (contents q1) < fuel" using Suc.prems pre by (cases xs) auto
    then obtain bs q' where "take_all take_some fuel n q1 = Some (bs, q')" "contents q' = []"
        "concat bs = contents q1" "[] \<notin> set bs" "room q' = room q1"
      using Suc.IH by blast
    with t pre False show ?thesis by (auto simp: t)
  qed
qed simp

end

section \<open>The SDK's queue meets the contract\<close>

definition put_event :: "event \<Rightarrow> event_queue \<Rightarrow> bool \<times> event option \<times> event_queue" where
  "put_event e q = (case push e q of (r, q') \<Rightarrow> (pr_queued r, pr_dropped r, q'))"

lemma put_event_outcome:
  "put_event e q = (ok, d, q') \<Longrightarrow> \<exists>r. push_outcome e q r q' \<and> ok = pr_queued r \<and> d = pr_dropped r"
  by (auto simp: put_event_def split: prod.splits dest: push_refines)

lemma drain_prefix: "drain n q = (es, q') \<Longrightarrow> q_events q = es @ q_events q' \<and> q_capacity q' = q_capacity q"
  by (auto simp: drain_def Let_def split: if_splits)

interpretation evq: lossy_buffer put_event drain q_events "\<lambda>q. nat (q_capacity q)" isDroppable
proof unfold_locales
  fix x :: event and q ok d q' assume "put_event x q = (ok, d, q')"
  then show "mset (q_events q') + mset (case d of None \<Rightarrow> [] | Some y \<Rightarrow> [y]) = add_mset x (mset (q_events q))"
    by (auto dest!: put_event_outcome elim!: push_outcomeE)
next
  fix x :: event and q ok d q' assume "put_event x q = (ok, d, q')"
  then show "if ok then x \<in> set (q_events q') else d = Some x \<and> q_events q' = q_events q"
    by (auto dest!: put_event_outcome elim!: push_outcomeE)
next
  fix x :: event and q ok d q' assume "put_event x q = (ok, d, q')"
  then show "nat (q_capacity q') = nat (q_capacity q)"
    by (auto dest!: put_event_outcome elim!: push_outcomeE)
next
  fix x :: event and q ok d q'
  assume "put_event x q = (ok, d, q')" "length (q_events q) < nat (q_capacity q)"
  then show "ok \<and> d = None \<and> q_events q' = q_events q @ [x]"
    by (auto dest!: put_event_outcome elim!: push_outcomeE)
next
  fix x :: event and q ok d q'
  assume "put_event x q = (ok, d, q')" "\<not> length (q_events q) < nat (q_capacity q)"
  then show "d \<noteq> None"
    by (auto dest!: put_event_outcome elim!: push_outcomeE)
next
  fix x :: event and q ok y q'
  assume "put_event x q = (ok, Some y, q')" "\<not> isDroppable y"
  then show "y = x \<and> \<not> ok \<and> (\<forall>z \<in> set (q_events q'). \<not> isDroppable z)"
    by (auto dest!: put_event_outcome elim!: push_outcomeE)
next
  fix n q es q' assume "drain n q = (es, q')"
  then show "q_events q = es @ q_events q' \<and> nat (q_capacity q') = nat (q_capacity q)"
    by (auto dest: drain_prefix)
next
  fix n q es q' assume "drain n q = (es, q')" "q_events q \<noteq> []"
  then show "es \<noteq> []" by (auto simp: drain_def Let_def split: if_splits)
next
  fix n :: int and q es q' assume "drain n q = (es, q')" "0 < n"
  then show "int (length es) \<le> n" by (auto simp: drain_def Let_def split: if_splits)
qed

section \<open>Properties\<close>

lemma index_from_append:
  "\<forall>x \<in> set xs. \<not> log_of level x \<Longrightarrow> log_of level v \<Longrightarrow>
     index_from i level (xs @ v # ys) = Some (i + length xs)"
  by (induction xs arbitrary: i) auto

lemma outcome_is_push:
  assumes "push_outcome e q r q'"
  shows "push e q = (r, q')"
  using assms
proof cases
  case (replaced xs v ys)
  have all: "q_events q = xs @ v # ys" by (rule replaced(5))
  have lv: "log_of LevelDebug v \<or> log_of LevelInfo v"
    using replaced(6) by (auto simp: isDroppable_def)
  have len: "(q_events q)[length xs := e] = xs @ e # ys" "q_events q ! length xs = v"
    using all by simp_all
  show ?thesis
  proof (cases "log_of LevelDebug v")
    case True
    then have "\<forall>x \<in> set xs. \<not> log_of LevelDebug x"
      using replaced(7) by (auto simp: isDroppable_def)
    then have "indexOfDroppable q LevelDebug = Some (length xs)"
      using index_from_append [of xs LevelDebug v 0 ys] True all by (simp add: indexOfDroppable_def)
    with replaced len show ?thesis by (simp add: push_def replace_at_def)
  next
    case False
    then have info: "log_of LevelInfo v" using lv by blast
    have "\<forall>x \<in> set xs. \<not> log_of LevelInfo x"
      using replaced(7) info by (auto simp: isDroppable_def)
    then have "indexOfDroppable q LevelInfo = Some (length xs)"
      using index_from_append [of xs LevelInfo v 0 ys] info all by (simp add: indexOfDroppable_def)
    moreover have "indexOfDroppable q LevelDebug = None"
      using replaced(7,8) info all
      by (auto simp: indexOfDroppable_def index_from_None isDroppable_def)
    ultimately show ?thesis using replaced len by (simp add: push_def replace_at_def)
  qed
next
  case refused
  then have "isDroppable e \<or> (indexOfDroppable q LevelDebug = None \<and> indexOfDroppable q LevelInfo = None)"
    by (auto simp: indexOfDroppable_def index_from_None isDroppable_def)
  with refused show ?thesis by (auto simp: push_def)
qed (simp add: push_def)

text \<open>
  C13: \<open>push\<close> implements the declarative relation \<open>push_outcome\<close> exactly: an event is
  appended while there is room; into a full buffer a debug or info log is refused, any other
  event takes the slot of the oldest buffered debug log, failing that of the oldest info log,
  and is refused only when the buffer holds neither.
\<close>

theorem push_iff_outcome: "push e q = (r, q') \<longleftrightarrow> push_outcome e q r q'"
  using push_refines outcome_is_push by blast

text \<open>
  C12: no event is lost without a trace and the buffer never outgrows its capacity: after any
  sequence of pushes into a fresh queue, what is buffered together with what the pushes handed
  back as dropped is exactly what was pushed.
\<close>

theorem queue_history:
  assumes "0 \<le> capacity" and "put_all put_event es (newEventQueue capacity) = (dropped, q)"
  shows "mset (q_events q) + mset dropped = mset es \<and> int (queue_len q) \<le> capacity"
proof
  show "mset (q_events q) + mset dropped = mset es"
    using evq.put_all_accounts [OF assms(2)] by (simp add: newEventQueue_def)
  show "int (queue_len q) \<le> capacity"
    using evq.put_all_bounded [OF assms(2)] evq.put_all_room [OF assms(2)] assms(1)
    by (simp add: newEventQueue_def queue_len_def)
qed

definition log_event :: "string \<Rightarrow> string \<Rightarrow> event" where
  "log_event level name =
     empty_event\<lparr>ev_EventID := name, ev_EventType := EventTypeLogEvent, ev_Level := level\<rparr>"

lemma queue_history_witness:
  "\<exists>q dropped. put_all put_event [log_event LevelInfo ''a'', log_event LevelDebug ''b'', log_event LevelError ''c'']
       (newEventQueue 2) = (dropped, q) \<and>
     dropped = [log_event LevelDebug ''b''] \<and> int (queue_len q) \<le> 2"
proof -
  let ?q = "\<lparr>q_events = [log_event LevelInfo ''a'', log_event LevelError ''c''], q_capacity = 2\<rparr>"
  have run: "put_all put_event [log_event LevelInfo ''a'', log_event LevelDebug ''b'', log_event LevelError ''c'']
      (newEventQueue 2) = ([log_event LevelDebug ''b''], ?q)"
    by code_simp
  show ?thesis using queue_history [OF _ run] run by auto
qed

text \<open>
  Draining a queue batch by batch with \<open>drain\<close> ends and hands out every buffered event once,
  in order, in non-empty batches; one step more than there are events is enough.
\<close>

theorem drain_loop_complete:
  assumes "length (q_events q) < fuel"
  shows "\<exists>bs q'. take_all drain fuel n q = Some (bs, q') \<and> q_events q' = [] \<and>
    concat bs = q_events q \<and> [] \<notin> set bs"
  using evq.take_all_total [OF assms] by blast

lemma drain_loop_complete_witness:
  "\<exists>bs q'. take_all drain 3 1 (snd (push empty_event (newEventQueue 4))) = Some (bs, q') \<and>
     concat bs = [empty_event]"
  using drain_loop_complete [of "snd (push empty_event (newEventQueue 4))" 3 1]
  by (auto simp: push_def newEventQueue_def)

end
