(* ===== verification/Sdk_Errors.thy ===== *)
theory Sdk_Errors
  imports Json_Decode
begin

text \<open>
  The errors of the SDK and the API's batch response: \<open>BatchResponse\<close> and \<open>EventError\<close> of
  \<open>logcenter/types.go\<close>, \<open>httpError\<close>, \<open>rejectedEventsError\<close>, \<open>isRetryable\<close> and
  \<open>eventDropReason\<close> of \<open>logcenter/client.go\<close>, \<open>ErrInvalidEvent\<close> of \<open>logcenter/validation.go\<close>.
  \<open>InvalidEvent\<close> is every error that wraps \<open>ErrInvalidEvent\<close>; \<open>PlainError\<close> is an error of the
  library or of \<open>fmt.Errorf\<close> that the code never inspects beyond its text.
\<close>

record event_error =
  ee_Index :: int
  ee_EventID :: string
  ee_Code :: string
  ee_Message :: string

record batch_response =
  br_BatchID :: string
  br_Received :: int
  br_Accepted :: int
  br_Duplicated :: int
  br_Rejected :: int
  br_Errors :: "event_error list"

text \<open>
  \<open>json.Unmarshal\<close> of a response body.  The elements of \<open>errors\<close> are decoded one by one, over the
  elements that an earlier member of the same name has left.
\<close>

definition event_error_table :: "(string \<times> (json \<Rightarrow> event_error \<Rightarrow> event_error option)) list" where
  "event_error_table =
    [(''index'', num_field atoi ee_Index_update),
     (''event_id'', str_field ee_EventID_update),
     (''code'', str_field ee_Code_update),
     (''message'', str_field ee_Message_update)]"

definition zero_event_error :: event_error where
  "zero_event_error = \<lparr>ee_Index = 0, ee_EventID = [], ee_Code = [], ee_Message = []\<rparr>"

fun decode_errors :: "json list \<Rightarrow> event_error list \<Rightarrow> event_error list option" where
  "decode_errors [] old = Some []"
| "decode_errors (j # js) old =
     (case decode_struct event_error_table j (case old of [] \<Rightarrow> zero_event_error | e # _ \<Rightarrow> e) of
        None \<Rightarrow> None
      | Some e \<Rightarrow> map_option ((#) e) (decode_errors js (tl old)))"

definition errors_field :: "json \<Rightarrow> batch_response \<Rightarrow> batch_response option" where
  "errors_field j r =
     (case j of
        JArr js \<Rightarrow> map_option (\<lambda>es. r\<lparr>br_Errors := es\<rparr>) (decode_errors js (br_Errors r))
      | JNull \<Rightarrow> Some (r\<lparr>br_Errors := []\<rparr>)
      | _ \<Rightarrow> None)"

definition response_table :: "(string \<times> (json \<Rightarrow> batch_response \<Rightarrow> batch_response option)) list" where
  "response_table =
    [(''batch_id'', str_field br_BatchID_update),
     (''received'', num_field atoi br_Received_update),
     (''accepted'', num_field atoi br_Accepted_update),
     (''duplicated'', num_field atoi br_Duplicated_update),
     (''rejected'', num_field atoi br_Rejected_update),
     (''errors'', errors_field)]"

definition empty_response :: batch_response where
  "empty_response = \<lparr>br_BatchID = [], br_Received = 0, br_Accepted = 0, br_Duplicated = 0, br_Rejected = 0,
     br_Errors = []\<rparr>"

definition unmarshal_response :: "string \<Rightarrow> batch_response option" where
  "unmarshal_response = unmarshal response_table empty_response"

section \<open>Errors\<close>

datatype go_error =
    InvalidEvent string
  | ClientClosed
  | HttpError int string
  | RejectedEvents "event_error list" int
  | CanceledError
  | DeadlineExceeded
  | PlainError string

definition httpError_text :: "int \<Rightarrow> string \<Rightarrow> string" where
  "httpError_text statusCode body =
     (if body = [] then ''logcenter ingest failed with status '' @ int_dec statusCode
      else ''logcenter ingest failed with status '' @ int_dec statusCode @ '': '' @ body)"

definition rejectedEventsError_text :: "event_error list \<Rightarrow> int \<Rightarrow> string" where
  "rejectedEventsError_text errors rejected =
     (case errors of
        e # _ \<Rightarrow>
          if ee_Message e \<noteq> [] then
            ''logcenter ingest rejected '' @ int_dec rejected @ '' event(s): '' @ ee_Message e
          else ''logcenter ingest rejected '' @ int_dec rejected @ '' event(s)''
      | [] \<Rightarrow> ''logcenter ingest rejected '' @ int_dec rejected @ '' event(s)'')"

text \<open>\<open>err.Error()\<close>.\<close>

fun error_text :: "go_error \<Rightarrow> string" where
  "error_text (InvalidEvent why) = ''invalid logcenter event: '' @ why"
| "error_text ClientClosed = ''logcenter client is closed''"
| "error_text (HttpError code body) = httpError_text code body"
| "error_text (RejectedEvents errors rejected) = rejectedEventsError_text errors rejected"
| "error_text CanceledError = ''context canceled''"
| "error_text DeadlineExceeded = ''context deadline exceeded''"
| "error_text (PlainError msg) = msg"

text \<open>\<open>errors.As(err, &httpErr)\<close> succeeds on an \<open>httpError\<close> only; everything else is retryable.\<close>

fun isRetryable :: "go_error \<Rightarrow> bool" where
  "isRetryable (HttpError code body) = (code = 429 \<or> code \<ge> 500)"
| "isRetryable _ = True"

fun eventDropReason :: "go_error \<Rightarrow> string" where
  "eventDropReason (InvalidEvent why) = ''validation''"
| "eventDropReason _ = ''payload_limit''"

end
