(* ===== verification/Limiter.thy ===== *)
theory Limiter
  imports Sdk_Config Sdk_Errors
begin

text \<open>
  \<open>logcenter/limit.go\<close>: truncation of strings at rune boundaries and the payload ceilings of
  metadata, data and audit values.
\<close>

section \<open>The code\<close>

record limiter =
  lm_maxStringBytes :: int
  lm_maxMetadataBytes :: int
  lm_maxDataBytes :: int
  lm_maxAuditValueBytes :: int
  lm_maxEventBytes :: int

definition newLimiter :: "config \<Rightarrow> limiter" where
  "newLimiter c = \<lparr>
     lm_maxStringBytes = cfg_MaxStringBytes c,
     lm_maxMetadataBytes = cfg_MaxMetadataBytes c,
     lm_maxDataBytes = cfg_MaxDataBytes c,
     lm_maxAuditValueBytes = cfg_MaxAuditValueBytes c,
     lm_maxEventBytes = cfg_MaxEventBytes c\<rparr>"

definition truncatedSuffix :: string where
  "truncatedSuffix = ''...[TRUNCATED]''"

text \<open>
  The loop \<open>for index := range value\<close> of \<open>validStringPrefix\<close>: \<open>index\<close> is the start of the
  next rune, \<open>s\<close> what is left of the value, \<open>end\<close> the last rune start seen.
\<close>

function prefix_end :: "nat \<Rightarrow> nat \<Rightarrow> nat \<Rightarrow> string \<Rightarrow> nat" where
  "prefix_end maxBytes index end s =
     (if s = [] then end
      else if index > maxBytes then end
      else prefix_end maxBytes (index + rune_width s) index (drop (rune_width s) s))"
  by pat_completeness auto
termination
  by (relation "measure (\<lambda>(_, _, _, s). length s)") auto

declare prefix_end.simps [simp del]

definition validStringPrefix :: "string \<Rightarrow> int \<Rightarrow> string" where
  "validStringPrefix value maxBytes =
     (if maxBytes \<le> 0 then []
      else if int (length value) \<le> maxBytes then value
      else take (prefix_end (nat maxBytes) 0 0 value) value)"

definition truncateStringBytes :: "string \<Rightarrow> int \<Rightarrow> string" where
  "truncateStringBytes value maxBytes =
     (if maxBytes \<le> 0 \<or> int (length value) \<le> maxBytes then value
      else if maxBytes \<le> int (length truncatedSuffix) then validStringPrefix value maxBytes
      else validStringPrefix value (maxBytes - int (length truncatedSuffix)) @ truncatedSuffix)"

definition limit_string :: "limiter \<Rightarrow> string \<Rightarrow> string" where
  "limit_string l value = truncateStringBytes value (lm_maxStringBytes l)"

text \<open>\<open>limitValue\<close> with its loops; \<open>limit_entries\<close> is the loop of \<open>limitFieldsMap\<close>.\<close>

fun limit_value :: "limiter \<Rightarrow> gval \<Rightarrow> gval"
  and limit_values :: "limiter \<Rightarrow> gval list \<Rightarrow> gval list"
  and limit_entries :: "limiter \<Rightarrow> entries \<Rightarrow> entries \<Rightarrow> entries"
  and limit_changes :: "limiter \<Rightarrow> change list \<Rightarrow> change list"
where
  "limit_value l (GStr s) = GStr (limit_string l s)"
| "limit_value l (GMap None) = GFields (Some [])"
| "limit_value l (GMap (Some kvs)) = GFields (Some (limit_entries l kvs []))"
| "limit_value l (GFields None) = GFields (Some [])"
| "limit_value l (GFields (Some kvs)) = GFields (Some (limit_entries l kvs []))"
| "limit_value l (GSlice None) = GSlice (Some [])"
| "limit_value l (GSlice (Some vs)) = GSlice (Some (limit_values l vs))"
| "limit_value l (GStrings None) = GStrings (Some [])"
| "limit_value l (GStrings (Some ss)) = GStrings (Some (map (limit_string l) ss))"
| "limit_value l (GChanges None) = GChanges (Some [])"
| "limit_value l (GChanges (Some cs)) = GChanges (Some (limit_changes l cs))"
| "limit_value l GNil = GNil"
| "limit_value l (GBool b) = GBool b"
| "limit_value l (GInt i) = GInt i"
| "limit_value l (GOther ty enc) = GOther ty enc"
| "limit_values l [] = []"
| "limit_values l (v # vs) = limit_value l v # limit_values l vs"
| "limit_entries l [] limited = limited"
| "limit_entries l ((k, v) # kvs) limited =
     limit_entries l kvs (entry_set (limit_string l k) (limit_value l v) limited)"
| "limit_changes l [] = []"
| "limit_changes l (Change f x y # cs) =
     Change (limit_string l f) (limit_value l x) (limit_value l y) # limit_changes l cs"

definition jsonSize :: "gval \<Rightarrow> int" where
  "jsonSize v =
     (if v = GNil then 0
      else case json_val v of None \<Rightarrow> MaxJSONValueBytes + 1 | Some t \<Rightarrow> int (length t))"

definition truncation_placeholder :: "string \<Rightarrow> gval" where
  "truncation_placeholder field =
     GFields (Some [(''_truncated'', GBool True), (''_truncated_field'', GStr field)])"

definition limitJSONValue :: "limiter \<Rightarrow> string \<Rightarrow> gval \<Rightarrow> int \<Rightarrow> gval" where
  "limitJSONValue l field v maxBytes =
     (if v = GNil then GNil
      else
        (let limited = limit_value l v
         in if jsonSize limited \<le> maxBytes then limited
            else if jsonSize (truncation_placeholder field) \<le> maxBytes
            then truncation_placeholder field
            else GNil))"

text \<open>The type assertions \<open>limited.(Fields)\<close>.\<close>

definition as_fields :: "gval \<Rightarrow> fields option" where
  "as_fields v = (case v of GFields m \<Rightarrow> Some m | _ \<Rightarrow> None)"

definition limitFields :: "limiter \<Rightarrow> string \<Rightarrow> fields \<Rightarrow> int \<Rightarrow> fields" where
  "limitFields l field m maxBytes =
     (if m = None then None
      else case as_fields (limit_value l (GFields m)) of
          None \<Rightarrow> None
        | Some m1 \<Rightarrow>
          (case as_fields (limitJSONValue l field (GFields m1) maxBytes) of
             None \<Rightarrow> None
           | Some m2 \<Rightarrow> m2))"

text \<open>The assignments of \<open>limitEvent\<close>, then its check of the whole event.\<close>

definition limit_fields_of :: "limiter \<Rightarrow> event \<Rightarrow> event" where
  "limit_fields_of l e = e\<lparr>
       ev_IdempotencyKey := limit_string l (ev_IdempotencyKey e),
       ev_ServiceVersion := limit_string l (ev_ServiceVersion e),
       ev_Classification := limit_string l (ev_Classification e),
       ev_RetentionHint := limit_string l (ev_RetentionHint e),
       ev_UserID := limit_string l (ev_UserID e),
       ev_TenantID := limit_string l (ev_TenantID e),
       ev_Operation := limit_string l (ev_Operation e),
       ev_Method := limit_string l (ev_Method e),
       ev_Path := limit_string l (ev_Path e),
       ev_RouteTemplate := limit_string l (ev_RouteTemplate e),
       ev_Kind := limit_string l (ev_Kind e),
       ev_Name := limit_string l (ev_Name e),
       ev_Message := limit_string l (ev_Message e),
       ev_ErrorCode := limit_string l (ev_ErrorCode e),
       ev_ErrorMessage := limit_string l (ev_ErrorMessage e),
       ev_ErrorType := limit_string l (ev_ErrorType e),
       ev_Severity := limit_string l (ev_Severity e),
       ev_Fingerprint := limit_string l (ev_Fingerprint e),
       ev_StackTrace := limit_string l (ev_StackTrace e),
       ev_ActorType := limit_string l (ev_ActorType e),
       ev_ActorID := limit_string l (ev_ActorID e),
       ev_Action := limit_string l (ev_Action e),
       ev_EntityType := limit_string l (ev_EntityType e),
       ev_EntityID := limit_string l (ev_EntityID e),
       ev_FieldName := limit_string l (ev_FieldName e),
       ev_Reason := limit_string l (ev_Reason e),
       ev_Metadata := limitFields l ''metadata'' (ev_Metadata e) (lm_maxMetadataBytes l),
       ev_Data := limitFields l ''data'' (ev_Data e) (lm_maxDataBytes l),
       ev_Changes := limitJSONValue l ''changes'' (ev_Changes e) (lm_maxAuditValueBytes l),
       ev_OldValue := limitJSONValue l ''old_value'' (ev_OldValue e) (lm_maxAuditValueBytes l),
       ev_NewValue := limitJSONValue l ''new_value'' (ev_NewValue e) (lm_maxAuditValueBytes l)\<rparr>"

definition limitEvent :: "limiter \<Rightarrow> event \<Rightarrow> event \<times> go_error option" where
  "limitEvent l e0 =
     (let e = limit_fields_of l e0
      in if lm_maxEventBytes l > 0 then
           (case json_event e of
              None \<Rightarrow> (e, Some (InvalidEvent ''event must be valid JSON''))
            | Some encoded \<Rightarrow>
                if int (length encoded) > lm_maxEventBytes l then
                  (e, Some (InvalidEvent
                    (''event exceeds max_event_bytes: limit_bytes='' @ int_dec (lm_maxEventBytes l) @
                     '' actual_bytes='' @ int_dec (int (length encoded)))))
                else (e, None))
         else (e, None))"

section \<open>Truncation\<close>

lemma prefix_end_le:
  "end \<le> maxBytes \<Longrightarrow> prefix_end maxBytes index end s \<le> maxBytes"
proof (induction maxBytes index "end" s rule: prefix_end.induct)
  case (1 maxBytes index "end" s)
  then show ?case by (subst prefix_end.simps) simp
qed

lemma length_validStringPrefix: "0 \<le> n \<Longrightarrow> int (length (validStringPrefix s n)) \<le> n"
  using prefix_end_le [of 0 "nat n" 0 s] by (auto simp: validStringPrefix_def)

lemma validStringPrefix_prefix: "prefix (validStringPrefix s n) s"
  by (auto simp: validStringPrefix_def take_is_prefix)

text \<open>The loop stops at the last rune that begins within the bound.\<close>

lemma prefix_end_last:
  assumes "t = drop index v" and "rune_start v index" and "rune_start v end" and "end \<le> n"
    and "n < length v" and "\<And>j. rune_start v j \<Longrightarrow> j < index \<Longrightarrow> j \<le> end"
  shows "rune_start v (prefix_end n index end t) \<and> prefix_end n index end t \<le> n \<and>
    (\<forall>j. rune_start v j \<and> j \<le> n \<longrightarrow> j \<le> prefix_end n index end t)"
  using assms
proof (induction n index "end" t rule: prefix_end.induct)
  case (1 n index "end" t)
  show ?case
  proof (cases "t = [] \<or> n < index")
    case True
    then have "n < index" using "1.prems"(1,5) by auto
    with True "1.prems" show ?thesis by (subst (1 2 3) prefix_end.simps) (auto intro: le_less_trans)
  next
    case False
    let ?w = "rune_width t"
    have i: "index < length v" "index \<le> n" "t \<noteq> []" "\<not> n < index" using False "1.prems"(1) by auto
    note next_start = rune_start_next [OF "1.prems"(2) i(1), folded "1.prems"(1)]
    have "j \<le> index" if "rune_start v j" "j < index + ?w" for j
      using next_start(3) [OF that(1)] that(2) by (cases "index \<le> j") auto
    moreover have "drop ?w t = drop (index + ?w) v" by (simp add: "1.prems"(1) add.commute)
    ultimately show ?thesis
      using "1.IH" [OF i(3,4)] next_start(1) "1.prems" i by (subst (1 2 3) prefix_end.simps) simp
  qed
qed

text \<open>The longest prefix of whole runes within a bound.\<close>

definition longest_prefix :: "string \<Rightarrow> int \<Rightarrow> string \<Rightarrow> bool" where
  "longest_prefix s n p \<longleftrightarrow>
     (\<exists>k. p = take k s \<and> rune_start s k \<and> int k \<le> n \<and> (\<forall>j. rune_start s j \<and> int j \<le> n \<longrightarrow> j \<le> k))"

lemma longest_validStringPrefix:
  assumes "0 < n" and "n < int (length s)"
  shows "longest_prefix s n (validStringPrefix s n)"
  using prefix_end_last [of s 0 s 0 "nat n"] assms
  by (auto simp: longest_prefix_def validStringPrefix_def nat_less_iff le_nat_iff
      intro!: exI [of _ "prefix_end (nat n) 0 0 s"])

lemma truncate_bound: "0 < n \<Longrightarrow> int (length (truncateStringBytes s n)) \<le> n"
  using length_validStringPrefix [of n s]
    length_validStringPrefix [of "n - int (length truncatedSuffix)" s]
  by (auto simp: truncateStringBytes_def)

lemma truncate_short: "n \<le> 0 \<or> int (length s) \<le> n \<Longrightarrow> truncateStringBytes s n = s"
  by (auto simp: truncateStringBytes_def)

lemma truncate_idem: "truncateStringBytes (truncateStringBytes s n) n = truncateStringBytes s n"
  using truncate_bound [of n s] by (cases "0 < n") (simp_all add: truncate_short)

lemma limit_string_idem [simp]: "limit_string l (limit_string l s) = limit_string l s"
  by (simp add: limit_string_def truncate_idem)

section \<open>Truncation keeps UTF-8 well formed\<close>

lemma valid_utf8_prefix_end:
  "valid_utf8 s \<Longrightarrow> valid_utf8 v \<Longrightarrow> index = length v \<Longrightarrow> start \<le> index \<Longrightarrow> valid_utf8 (take start v) \<Longrightarrow>
     valid_utf8 (take (prefix_end maxBytes index start s) (v @ s))"
proof (induction maxBytes index start s arbitrary: v rule: prefix_end.induct)
  case (1 maxBytes index start s)
  show ?case
  proof (cases "s = [] \<or> index > maxBytes")
    case True
    with 1 show ?thesis by (subst prefix_end.simps) auto
  next
    case False
    then obtain n where n: "utf8_width s = Some n" "valid_utf8 (drop n s)"
      using "1.prems"(1) by (subst (asm) valid_utf8.simps) (auto split: option.splits)
    then have w: "rune_width s = n" "n \<le> length s" "1 \<le> n"
      using utf8_width_bounds by (auto simp: rune_width_def)
    have "valid_utf8 (take n s)"
      using utf8_width_take [OF n(1) order_refl] w by (subst valid_utf8.simps) (simp add: valid_utf8.simps [of "[]"])
    then have "valid_utf8 (v @ take n s)" using "1.prems"(2) by (rule valid_utf8_append [rotated])
    moreover have "index + rune_width s = length (v @ take n s)" using w "1.prems"(3) by simp
    ultimately have "valid_utf8 (take (prefix_end maxBytes (index + rune_width s) index (drop (rune_width s) s))
        ((v @ take n s) @ drop (rune_width s) s))"
      using 1 False n w by (intro "1.IH") auto
    with False w show ?thesis by (subst prefix_end.simps) simp
  qed
qed

lemma valid_validStringPrefix: "valid_utf8 s \<Longrightarrow> valid_utf8 (validStringPrefix s n)"
  using valid_utf8_prefix_end [of s "[]" 0 0 "nat n"]
  by (auto simp: validStringPrefix_def valid_utf8.simps [of "[]"])

lemma valid_truncatedSuffix: "valid_utf8 truncatedSuffix"
  by code_simp

lemma truncate_valid: "valid_utf8 s \<Longrightarrow> valid_utf8 (truncateStringBytes s n)"
  by (auto simp: truncateStringBytes_def valid_validStringPrefix valid_utf8_append valid_truncatedSuffix)

section \<open>Values\<close>

text \<open>Every string inside a value, keys included, has at most \<open>n\<close> bytes.\<close>

fun strings_within :: "int \<Rightarrow> gval \<Rightarrow> bool"
  and values_within :: "int \<Rightarrow> gval list \<Rightarrow> bool"
  and entries_within :: "int \<Rightarrow> entries \<Rightarrow> bool"
  and changes_within :: "int \<Rightarrow> change list \<Rightarrow> bool"
where
  "strings_within n (GStr s) = (int (length s) \<le> n)"
| "strings_within n (GMap (Some kvs)) = entries_within n kvs"
| "strings_within n (GFields (Some kvs)) = entries_within n kvs"
| "strings_within n (GSlice (Some vs)) = values_within n vs"
| "strings_within n (GStrings (Some ss)) = list_all (\<lambda>s. int (length s) \<le> n) ss"
| "strings_within n (GChanges (Some cs)) = changes_within n cs"
| "strings_within n _ = True"
| "values_within n [] = True"
| "values_within n (v # vs) = (strings_within n v \<and> values_within n vs)"
| "entries_within n [] = True"
| "entries_within n ((k, v) # kvs) =
     (int (length k) \<le> n \<and> strings_within n v \<and> entries_within n kvs)"
| "changes_within n [] = True"
| "changes_within n (Change f x y # cs) =
     (int (length f) \<le> n \<and> strings_within n x \<and> strings_within n y \<and> changes_within n cs)"

lemma entries_within_set:
  "entries_within n kvs \<Longrightarrow> int (length k) \<le> n \<Longrightarrow> strings_within n v \<Longrightarrow>
     entries_within n (entry_set k v kvs)"
  by (induction k v kvs rule: entry_set.induct) auto

lemma limit_string_bound: "0 < lm_maxStringBytes l \<Longrightarrow> int (length (limit_string l s)) \<le> lm_maxStringBytes l"
  by (simp add: limit_string_def truncate_bound)

lemma limit_within:
  assumes "0 < lm_maxStringBytes l"
  shows "strings_within (lm_maxStringBytes l) (limit_value l v)"
    and "values_within (lm_maxStringBytes l) (limit_values l vs)"
    and "entries_within (lm_maxStringBytes l) limited \<Longrightarrow>
           entries_within (lm_maxStringBytes l) (limit_entries l kvs limited)"
    and "changes_within (lm_maxStringBytes l) (limit_changes l cs)"
  using assms
  by (induction l v and l vs and l kvs limited and l cs
      rule: limit_value_limit_values_limit_entries_limit_changes.induct)
    (auto simp: limit_string_bound entries_within_set list_all_iff)

text \<open>Limiting a second time changes nothing, whatever keys the first pass merged.\<close>

definition settled :: "limiter \<Rightarrow> entries \<Rightarrow> bool" where
  "settled l kvs \<longleftrightarrow> entries_ok kvs \<and>
     (\<forall>(k, v) \<in> set kvs. limit_string l k = k \<and> limit_value l v = v)"

lemma settled_set:
  assumes "settled l kvs" and "limit_string l k = k" and "limit_value l v = v"
  shows "settled l (entry_set k v kvs)"
proof -
  have "set (entry_set k v kvs) \<subseteq> insert (k, v) (set kvs)"
    by (induction k v kvs rule: entry_set.induct) auto
  with assms show ?thesis
    by (auto simp: settled_def entries_ok_entry_set)
qed

lemma limit_entries_settled:
  "settled l kvs \<Longrightarrow> fst ` set kvs \<inter> fst ` set acc = {} \<Longrightarrow> limit_entries l kvs acc = acc @ kvs"
proof (induction kvs arbitrary: acc)
  case (Cons kv kvs)
  obtain k v where kv: "kv = (k, v)" by (cases kv)
  have st: "settled l kvs" "limit_string l k = k" "limit_value l v = v" "k \<notin> fst ` set kvs"
    using Cons.prems(1) by (auto simp: settled_def entries_ok_def kv)
  have "k \<notin> fst ` set acc" using Cons.prems(2) by (auto simp: kv)
  then have e: "entry_set k v acc = acc @ [(k, v)]" by (rule entry_set_fresh)
  have "fst ` set kvs \<inter> fst ` set (acc @ [(k, v)]) = {}"
    using Cons.prems(2) st(4) by (auto simp: kv)
  then show ?case using Cons.IH [OF st(1)] by (simp add: kv st e)
qed simp

lemma limit_idem_all:
  shows "limit_value l (limit_value l v) = limit_value l v"
    and "limit_values l (limit_values l vs) = limit_values l vs"
    and "settled l limited \<Longrightarrow> settled l (limit_entries l kvs limited)"
    and "limit_changes l (limit_changes l cs) = limit_changes l cs"
proof (induction l v and l vs and l kvs limited and l cs
    rule: limit_value_limit_values_limit_entries_limit_changes.induct)
  case (3 l kvs)
  then show ?case by (simp add: limit_entries_settled settled_def entries_ok_def)
next
  case (5 l kvs)
  then show ?case by (simp add: limit_entries_settled settled_def entries_ok_def)
next
  case (19 l k v kvs limited)
  then show ?case by (simp add: settled_set)
qed (simp_all add: settled_def entries_ok_def)

lemmas limit_value_idem [simp] = limit_idem_all(1)

section \<open>Events\<close>

text \<open>The string fields that \<open>limitEvent\<close> cuts; \<open>uncut_strings\<close> below has the others.\<close>

definition limited_strings :: "event \<Rightarrow> string list" where
  "limited_strings e =
    [ev_IdempotencyKey e, ev_ServiceVersion e, ev_Classification e, ev_RetentionHint e, ev_UserID e,
     ev_TenantID e, ev_Operation e, ev_Method e, ev_Path e, ev_RouteTemplate e, ev_Kind e, ev_Name e,
     ev_Message e, ev_ErrorCode e, ev_ErrorMessage e, ev_ErrorType e, ev_Severity e, ev_Fingerprint e,
     ev_StackTrace e, ev_ActorType e, ev_ActorID e, ev_Action e, ev_EntityType e, ev_EntityID e,
     ev_FieldName e, ev_Reason e]"

text \<open>Within a ceiling: nil, or no longer than the ceiling once encoded.\<close>

definition json_within :: "int \<Rightarrow> gval \<Rightarrow> bool" where
  "json_within n v \<longleftrightarrow> v = GNil \<or> v = GFields None \<or> jsonSize v \<le> n"

lemma limitJSONValue_within: "json_within n (limitJSONValue l field v n)"
  by (simp add: limitJSONValue_def json_within_def Let_def)

lemma limitFields_within: "json_within n (GFields (limitFields l field m n))"
  by (cases m) (auto simp: limitFields_def as_fields_def limitJSONValue_def json_within_def Let_def
      truncation_placeholder_def)

lemma limited_strings_map:
  "limited_strings (limit_fields_of l e) = map (limit_string l) (limited_strings e)"
  by (simp add: limited_strings_def limit_fields_of_def)

lemma limit_fields_of_payload [stage_simps]:
  "ev_Metadata (limit_fields_of l e) = limitFields l ''metadata'' (ev_Metadata e) (lm_maxMetadataBytes l)"
  "ev_Data (limit_fields_of l e) = limitFields l ''data'' (ev_Data e) (lm_maxDataBytes l)"
  "ev_Changes (limit_fields_of l e) = limitJSONValue l ''changes'' (ev_Changes e) (lm_maxAuditValueBytes l)"
  "ev_OldValue (limit_fields_of l e) = limitJSONValue l ''old_value'' (ev_OldValue e) (lm_maxAuditValueBytes l)"
  "ev_NewValue (limit_fields_of l e) = limitJSONValue l ''new_value'' (ev_NewValue e) (lm_maxAuditValueBytes l)"
  by (simp_all add: limit_fields_of_def)

lemma limit_fields_of_frame [stage_simps]:
  "ev_EventID (limit_fields_of l e) = ev_EventID e"
  "ev_EventType (limit_fields_of l e) = ev_EventType e"
  "ev_Level (limit_fields_of l e) = ev_Level e"
  "ev_Status (limit_fields_of l e) = ev_Status e"
  by (simp_all add: limit_fields_of_def)

lemma fst_limitEvent: "fst (limitEvent l e) = limit_fields_of l e"
  by (simp add: limitEvent_def Let_def split: option.splits)

lemma limitEvent_ok:
  "0 < lm_maxEventBytes l \<Longrightarrow> snd (limitEvent l e) = None \<longleftrightarrow>
     (\<exists>t. json_event (limit_fields_of l e) = Some t \<and> int (length t) \<le> lm_maxEventBytes l)"
  by (auto simp: limitEvent_def Let_def split: option.splits)

lemma limitFields_values_within:
  assumes "0 < lm_maxStringBytes l" and "16 \<le> lm_maxStringBytes l" and "length field \<le> 16"
  shows "strings_within (lm_maxStringBytes l) (GFields (limitFields l field m n))"
  using assms limit_within(1) [OF assms(1), of "GFields (Some (limit_entries l (the m) []))"]
  by (cases m) (auto simp: limitFields_def as_fields_def limitJSONValue_def Let_def truncation_placeholder_def)

section \<open>Values below every ceiling\<close>

text \<open>Every map inside a value has each key once and no map or slice inside it is nil.\<close>

fun proper :: "gval \<Rightarrow> bool"
  and propers :: "gval list \<Rightarrow> bool"
  and proper_entries :: "entries \<Rightarrow> bool"
  and proper_changes :: "change list \<Rightarrow> bool"
where
  "proper (GMap m) = (case m of None \<Rightarrow> False | Some kvs \<Rightarrow> entries_ok kvs \<and> proper_entries kvs)"
| "proper (GFields m) = (case m of None \<Rightarrow> False | Some kvs \<Rightarrow> entries_ok kvs \<and> proper_entries kvs)"
| "proper (GSlice m) = (case m of None \<Rightarrow> False | Some vs \<Rightarrow> propers vs)"
| "proper (GStrings m) = (m \<noteq> None)"
| "proper (GChanges m) = (case m of None \<Rightarrow> False | Some cs \<Rightarrow> proper_changes cs)"
| "proper _ = True"
| "propers [] = True"
| "propers (v # vs) = (proper v \<and> propers vs)"
| "proper_entries [] = True"
| "proper_entries ((k, v) # kvs) = (proper v \<and> proper_entries kvs)"
| "proper_changes [] = True"
| "proper_changes (Change f x y # cs) = (proper x \<and> proper y \<and> proper_changes cs)"

lemma json_entries_append:
  "json_entries (xs @ ys) =
     (case json_entries xs of None \<Rightarrow> None | Some ts \<Rightarrow> map_option ((@) ts) (json_entries ys))"
proof (induction xs)
  case Nil
  show ?case by (cases "json_entries ys") simp_all
next
  case (Cons kv xs)
  then show ?case by (cases kv; cases "json_entries ys") (auto split: option.splits)
qed

lemma limit_string_off [simp]: "lm_maxStringBytes l \<le> 0 \<Longrightarrow> limit_string l s = s"
  by (simp add: limit_string_def truncate_short)

lemma limit_json_same:
  assumes "lm_maxStringBytes l \<le> 0"
  shows "proper v \<Longrightarrow> json_val (limit_value l v) = json_val v"
    and "propers vs \<Longrightarrow> json_vals (limit_values l vs) = json_vals vs"
    and "proper_entries kvs \<Longrightarrow> entries_ok (acc @ kvs) \<Longrightarrow>
      json_entries (limit_entries l kvs acc) = json_entries (acc @ kvs)"
    and "proper_changes cs \<Longrightarrow> json_changes (limit_changes l cs) = json_changes cs"
  using assms
proof (induction l v and l vs and l kvs acc and l cs
    rule: limit_value_limit_values_limit_entries_limit_changes.induct)
  case (19 l k v kvs acc)
  then have "k \<notin> fst ` set acc" by (auto simp: entries_ok_def)
  then have e: "entry_set k (limit_value l v) acc = acc @ [(k, limit_value l v)]"
    by (rule entry_set_fresh)
  have "entries_ok ((acc @ [(k, limit_value l v)]) @ kvs)"
    using 19 by (simp add: entries_ok_def)
  then have "json_entries (limit_entries l ((k, v) # kvs) acc) =
      json_entries ((acc @ [(k, limit_value l v)]) @ kvs)"
    using 19 by (simp add: e del: append_assoc)
  also have "\<dots> = json_entries (acc @ (k, v) # kvs)"
    using 19 by (simp add: json_entries_append split: option.split)
  finally show ?case .
qed (auto simp: json_entries_append comp_def cong: option.case_cong)

section \<open>Properties\<close>

lemma limited_strings_bound:
  "0 < lm_maxStringBytes l \<Longrightarrow>
     \<forall>s \<in> set (limited_strings (limit_fields_of l e)). int (length s) \<le> lm_maxStringBytes l"
  by (simp add: limited_strings_map limit_string_bound)

text \<open>The string fields that \<open>limitEvent\<close> does not cut, whatever the ceiling.\<close>

definition uncut_strings :: "event \<Rightarrow> string list" where
  "uncut_strings e =
    [ev_EventID e, ev_EventType e, ev_OccurredAt e, ev_Environment e, ev_Service e, ev_RequestID e,
     ev_TraceID e, ev_SpanID e, ev_ParentSpanID e, ev_Status e, ev_Level e, ev_StartedAt e, ev_FinishedAt e]"

lemma uncut_strings_kept: "uncut_strings (limit_fields_of l e) = uncut_strings e"
  by (simp add: uncut_strings_def limit_fields_of_def)

text \<open>
  C32: what \<open>limitEvent\<close> accepts.  Metadata, data and the three audit values are nil or encode
  within their own ceilings, in every configuration.  With a \<open>MaxStringBytes\<close> above zero the 26
  fields of \<open>limited_strings\<close> are within it; the ids of request, trace and span, the event's id,
  service, environment and the other fields of \<open>uncut_strings\<close> stay as they are, whatever their
  length.  With a \<open>MaxEventBytes\<close> above zero the JSON of the whole event exists and is within it.
\<close>

theorem limitEvent_ceilings:
  assumes "limitEvent l e = (e', None)"
  shows "json_within (lm_maxMetadataBytes l) (GFields (ev_Metadata e')) \<and>
    json_within (lm_maxDataBytes l) (GFields (ev_Data e')) \<and>
    (\<forall>v \<in> {ev_Changes e', ev_OldValue e', ev_NewValue e'}. json_within (lm_maxAuditValueBytes l) v) \<and>
    (0 < lm_maxStringBytes l \<longrightarrow>
       (\<forall>s \<in> set (limited_strings e'). int (length s) \<le> lm_maxStringBytes l)) \<and>
    uncut_strings e' = uncut_strings e \<and>
    (0 < lm_maxEventBytes l \<longrightarrow>
       (\<exists>t. json_event e' = Some t \<and> int (length t) \<le> lm_maxEventBytes l))"
proof -
  have e': "e' = limit_fields_of l e" using fst_limitEvent [of l e] assms by simp
  show ?thesis
    using limitEvent_ok [of l e] assms limited_strings_bound [of l e]
    by (simp add: e' stage_simps limitFields_within limitJSONValue_within uncut_strings_kept)
qed

definition tight_limiter :: limiter where
  "tight_limiter = \<lparr>lm_maxStringBytes = 16, lm_maxMetadataBytes = 60, lm_maxDataBytes = 20,
     lm_maxAuditValueBytes = 60, lm_maxEventBytes = 400\<rparr>"

lemma limitEvent_ceilings_witness:
  "\<exists>e'. limitEvent tight_limiter (empty_event\<lparr>ev_Message := ''a rather long message''\<rparr>) = (e', None) \<and>
     ev_Message e' = ''a ...[TRUNCATED]'' \<and>
     (\<exists>t. json_event e' = Some t \<and> int (length t) \<le> 400)"
proof -
  let ?e = "empty_event\<lparr>ev_Message := ''a ...[TRUNCATED]''\<rparr>"
  have run: "limitEvent tight_limiter (empty_event\<lparr>ev_Message := ''a rather long message''\<rparr>) = (?e, None)"
    by code_simp
  show ?thesis
    using limitEvent_ceilings [OF run] by (simp add: run) (simp add: tight_limiter_def)
qed

text \<open>
  The string ceiling reaches every string inside a value, at any depth: slice elements,
  change records and map keys included.  A limited value is a fixed point: limiting it again
  changes nothing, even where cutting merged two keys.
\<close>

theorem limit_value_within:
  assumes "0 < lm_maxStringBytes l"
  shows "strings_within (lm_maxStringBytes l) (limit_value l v) \<and>
    limit_value l (limit_value l v) = limit_value l v"
  using limit_within(1) [OF assms] by simp

lemma limit_value_within_witness:
  "strings_within 16 (limit_value tight_limiter (GMap (Some [(''message'', GStr ''a rather long message'')]))) \<and>
    limit_value tight_limiter (GMap (Some [(''message'', GStr ''a rather long message'')])) \<noteq>
      GFields (Some [(''message'', GStr ''a rather long message'')])"
  using limit_value_within [of tight_limiter "GMap (Some [(''message'', GStr ''a rather long message'')])"]
  by (simp add: tight_limiter_def limit_string_def) code_simp

text \<open>
  C37: what \<open>truncateStringBytes\<close> returns.  A value within the bound comes back as it is.  A longer one
  is cut, when the bound is larger than the truncation mark, to the longest prefix of whole runes
  that leaves room for the mark, followed by the mark; under a smaller bound, to the longest prefix
  of whole runes within the bound, without a mark.  The result is never longer than the bound, and
  well-formed UTF-8 stays well-formed.
\<close>

theorem truncateStringBytes_sound:
  assumes "0 < maxBytes"
  shows "(int (length s) \<le> maxBytes \<longrightarrow> truncateStringBytes s maxBytes = s) \<and>
    (maxBytes < int (length s) \<longrightarrow>
       (let room = (if maxBytes \<le> 14 then maxBytes else maxBytes - 14);
            mark = (if maxBytes \<le> 14 then [] else ''...[TRUNCATED]'')
        in \<exists>p. longest_prefix s room p \<and> truncateStringBytes s maxBytes = p @ mark)) \<and>
    int (length (truncateStringBytes s maxBytes)) \<le> maxBytes \<and>
    (valid_utf8 s \<longrightarrow> valid_utf8 (truncateStringBytes s maxBytes))"
proof (intro conjI impI)
  assume "maxBytes < int (length s)"
  then show "let room = (if maxBytes \<le> 14 then maxBytes else maxBytes - 14);
        mark = (if maxBytes \<le> 14 then [] else ''...[TRUNCATED]'')
    in \<exists>p. longest_prefix s room p \<and> truncateStringBytes s maxBytes = p @ mark"
    using longest_validStringPrefix [of maxBytes s] longest_validStringPrefix [of "maxBytes - 14" s] assms
    by (auto simp: truncateStringBytes_def truncatedSuffix_def Let_def)
qed (use truncate_bound [OF assms] truncate_valid truncate_short in \<open>simp_all\<close>)

lemma truncateStringBytes_witness:
  "\<exists>p. longest_prefix ([CHR 0xC3, CHR 0xA9, CHR 0xC3, CHR 0xA9] @ replicate 14 CHR ''x'') 3 p \<and>
     truncateStringBytes ([CHR 0xC3, CHR 0xA9, CHR 0xC3, CHR 0xA9] @ replicate 14 CHR ''x'') 17 =
       p @ ''...[TRUNCATED]'' \<and> p = [CHR 0xC3, CHR 0xA9]"
proof -
  let ?s = "[CHR 0xC3, CHR 0xA9, CHR 0xC3, CHR 0xA9] @ replicate 14 CHR ''x''"
  have "truncateStringBytes ?s 17 = [CHR 0xC3, CHR 0xA9] @ ''...[TRUNCATED]''" by code_simp
  then show ?thesis using truncateStringBytes_sound [of 17 ?s] by (auto simp: Let_def)
qed

text \<open>
  Without a string ceiling the limiter only rebuilds containers: a value none of whose maps
  and slices is nil encodes to the same JSON as before.
\<close>

theorem limit_value_transparent:
  assumes "lm_maxStringBytes l \<le> 0" and "proper v"
  shows "json_val (limit_value l v) = json_val v"
  using limit_json_same(1) [OF assms] .

lemma limit_value_transparent_witness:
  "json_val (limit_value (tight_limiter\<lparr>lm_maxStringBytes := 0\<rparr>)
     (GMap (Some [(''items'', GSlice (Some [GStr ''a'', GStrings (Some [''b''])]))]))) =
   json_val (GMap (Some [(''items'', GSlice (Some [GStr ''a'', GStrings (Some [''b''])]))]))"
  by (rule limit_value_transparent) (simp_all add: entries_ok_def)

text \<open>
  Two keys that are cut to the same string collide: one of the two entries is lost, and
  which one depends on the order in which the range loop visits the map.
\<close>

theorem limit_keys_collide:
  "limit_value tight_limiter (GFields (Some [(''customer_address_1'', GInt 1), (''customer_address_2'', GInt 2)])) =
     GFields (Some [(''cu...[TRUNCATED]'', GInt 2)]) \<and>
   limit_value tight_limiter (GFields (Some [(''customer_address_2'', GInt 2), (''customer_address_1'', GInt 1)])) =
     GFields (Some [(''cu...[TRUNCATED]'', GInt 1)])"
  by code_simp

end
