(* ===== verification/Request_Context.thy ===== *)
theory Request_Context
  imports Events
begin

text \<open>
  \<open>logcenter/context.go\<close>, and the functions of \<open>client.go\<close>, \<open>operation.go\<close> and \<open>request.go\<close>
  that combine a request context with an event: the correlation ids that a \<open>context.Context\<close>
  carries from call to call.  Of a context the SDK reads one value, so a context is nil or
  holds that value or not; calling a method of a nil context panics, which is None.
\<close>

section \<open>The code\<close>

record request_context =
  rc_RequestID :: string
  rc_TraceID :: string
  rc_SpanID :: string
  rc_Operation :: string
  rc_UserID :: string
  rc_TenantID :: string

definition no_request :: request_context where
  "no_request = \<lparr>rc_RequestID = [], rc_TraceID = [], rc_SpanID = [], rc_Operation = [],
     rc_UserID = [], rc_TenantID = []\<rparr>"

datatype goctx = NilCtx | Ctx "request_context option"

definition Background :: goctx where
  "Background = Ctx None"

definition RequestFromContext :: "goctx \<Rightarrow> (request_context \<times> bool) option" where
  "RequestFromContext ctx = (case ctx of
     NilCtx \<Rightarrow> None
   | Ctx None \<Rightarrow> Some (no_request, False)
   | Ctx (Some r) \<Rightarrow> Some (r, True))"

text \<open>\<open>context.WithValue\<close> panics on a nil parent.\<close>

definition ContextWithRequest :: "goctx \<Rightarrow> request_context \<Rightarrow> goctx option" where
  "ContextWithRequest ctx r = (if ctx = NilCtx then None else Some (Ctx (Some r)))"

definition update_request :: "(request_context \<Rightarrow> request_context) \<Rightarrow> goctx \<Rightarrow> goctx option" where
  "update_request f ctx = (case RequestFromContext ctx of
     None \<Rightarrow> None
   | Some (r, _) \<Rightarrow> ContextWithRequest ctx (f r))"

definition ContextWithRequestID :: "goctx \<Rightarrow> string \<Rightarrow> goctx option" where
  "ContextWithRequestID ctx v = update_request (\<lambda>r. r\<lparr>rc_RequestID := v\<rparr>) ctx"

definition ContextWithTraceID :: "goctx \<Rightarrow> string \<Rightarrow> goctx option" where
  "ContextWithTraceID ctx v = update_request (\<lambda>r. r\<lparr>rc_TraceID := v\<rparr>) ctx"

definition ContextWithSpanID :: "goctx \<Rightarrow> string \<Rightarrow> goctx option" where
  "ContextWithSpanID ctx v = update_request (\<lambda>r. r\<lparr>rc_SpanID := v\<rparr>) ctx"

definition ContextWithOperation :: "goctx \<Rightarrow> string \<Rightarrow> goctx option" where
  "ContextWithOperation ctx v = update_request (\<lambda>r. r\<lparr>rc_Operation := v\<rparr>) ctx"

definition ContextWithUser :: "goctx \<Rightarrow> string \<Rightarrow> goctx option" where
  "ContextWithUser ctx v = update_request (\<lambda>r. r\<lparr>rc_UserID := v\<rparr>) ctx"

definition ContextWithTenant :: "goctx \<Rightarrow> string \<Rightarrow> goctx option" where
  "ContextWithTenant ctx v = update_request (\<lambda>r. r\<lparr>rc_TenantID := v\<rparr>) ctx"

text \<open>\<open>newID\<close> draws from the operating system; its results are the arguments of the callers.\<close>

definition ensureRequestContext ::
  "string \<Rightarrow> string \<Rightarrow> goctx \<Rightarrow> (goctx \<times> request_context) option" where
  "ensureRequestContext newReq newTrc ctx =
     (case RequestFromContext ctx of
        None \<Rightarrow> None
      | Some (r, _) \<Rightarrow>
        (let r = (if rc_RequestID r = [] then r\<lparr>rc_RequestID := newReq\<rparr> else r);
             r = (if rc_TraceID r = [] then r\<lparr>rc_TraceID := newTrc\<rparr> else r)
         in map_option (\<lambda>ctx. (ctx, r)) (ContextWithRequest ctx r)))"

fun firstNonEmpty :: "string list \<Rightarrow> string" where
  "firstNonEmpty [] = []"
| "firstNonEmpty (v # vs) = (if v \<noteq> [] then v else firstNonEmpty vs)"

definition or_else :: "string \<Rightarrow> string \<Rightarrow> string" where
  "or_else v w = (if v = [] then w else v)"

definition mergeRequestContext :: "request_context \<Rightarrow> goctx \<Rightarrow> request_context" where
  "mergeRequestContext base ctx =
     (case RequestFromContext ctx of
        None \<Rightarrow> base
      | Some (r, ok) \<Rightarrow>
        (if \<not> ok then base
         else \<lparr>rc_RequestID = or_else (rc_RequestID r) (rc_RequestID base),
               rc_TraceID = or_else (rc_TraceID r) (rc_TraceID base),
               rc_SpanID = or_else (rc_SpanID r) (rc_SpanID base),
               rc_Operation = or_else (rc_Operation r) (rc_Operation base),
               rc_UserID = or_else (rc_UserID r) (rc_UserID base),
               rc_TenantID = or_else (rc_TenantID r) (rc_TenantID base)\<rparr>))"

text \<open>\<open>withContextFields\<close> replaces a nil context by the background context.\<close>

definition withContextFields :: "goctx \<Rightarrow> event \<Rightarrow> event" where
  "withContextFields ctx e =
     (let r = (case RequestFromContext (if ctx = NilCtx then Background else ctx) of
                 None \<Rightarrow> no_request | Some (r, _) \<Rightarrow> r)
      in e\<lparr>ev_RequestID := or_else (ev_RequestID e) (rc_RequestID r),
           ev_TraceID := or_else (ev_TraceID e) (rc_TraceID r),
           ev_SpanID := or_else (ev_SpanID e) (rc_SpanID r),
           ev_UserID := or_else (ev_UserID e) (rc_UserID r),
           ev_TenantID := or_else (ev_TenantID e) (rc_TenantID r),
           ev_Operation := or_else (ev_Operation e) (rc_Operation r)\<rparr>)"

section \<open>Facts\<close>

lemma or_else_simps [simp]:
  "or_else [] w = w" "or_else v [] = v" "or_else v (or_else v w) = or_else v w"
  by (simp_all add: or_else_def)

lemma or_else_assoc: "or_else (or_else u v) w = or_else u (or_else v w)"
  by (simp add: or_else_def)

lemma or_else_Nil: "or_else v w = [] \<longleftrightarrow> v = [] \<and> w = []"
  by (simp add: or_else_def)

lemma firstNonEmpty_foldr: "firstNonEmpty vs = foldr or_else vs []"
  by (induction vs) (auto simp: or_else_def)

lemma RequestFromContext_simps [simp]:
  "RequestFromContext NilCtx = None"
  "RequestFromContext (Ctx None) = Some (no_request, False)"
  "RequestFromContext (Ctx (Some r)) = Some (r, True)"
  by (simp_all add: RequestFromContext_def)

lemma update_request_Some:
  "update_request f ctx = Some ctx' \<Longrightarrow>
     \<exists>r b. RequestFromContext ctx = Some (r, b) \<and> ctx' = Ctx (Some (f r))"
  by (auto simp: update_request_def ContextWithRequest_def split: option.splits if_splits)

text \<open>The ids of a context, in the order of the merge.\<close>

definition ids_of :: "request_context \<Rightarrow> string list" where
  "ids_of r = [rc_RequestID r, rc_TraceID r, rc_SpanID r, rc_Operation r, rc_UserID r, rc_TenantID r]"

definition event_ids :: "event \<Rightarrow> string list" where
  "event_ids e = [ev_RequestID e, ev_TraceID e, ev_SpanID e, ev_Operation e, ev_UserID e, ev_TenantID e]"

lemma ids_of_inj: "ids_of r = ids_of r' \<longleftrightarrow> r = r'"
  by (cases r; cases r') (simp add: ids_of_def)

lemma ids_of_merge:
  "ids_of (mergeRequestContext base (Ctx (Some r))) = map2 or_else (ids_of r) (ids_of base)"
  by (simp add: mergeRequestContext_def ids_of_def)

lemma event_ids_with:
  "event_ids (withContextFields (Ctx (Some r)) e) = map2 or_else (event_ids e) (ids_of r)"
  by (simp add: withContextFields_def ids_of_def event_ids_def Let_def)

text \<open>
  Correlation ids are never lost: adding context fields to an event keeps every id that the
  event has, fills each missing one from the context, changes no other field, and doing it
  again, with whatever context, cannot replace an id that is set.
\<close>

theorem withContextFields_fills:
  "event_ids (withContextFields (Ctx (Some r)) e) = map2 or_else (event_ids e) (ids_of r) \<and>
   withContextFields ctx' (withContextFields (Ctx (Some r)) e) =
     withContextFields (Ctx (Some (mergeRequestContext
       (case RequestFromContext ctx' of None \<Rightarrow> no_request | Some (r', _) \<Rightarrow> r') (Ctx (Some r))))) e"
  by (auto simp: withContextFields_def mergeRequestContext_def ids_of_def event_ids_def Let_def
      Background_def or_else_assoc split: goctx.splits option.splits)

text \<open>
  \<open>ensureRequestContext\<close> always yields a context that carries a request id and a trace id,
  keeps those that were there, and is idempotent: a second call generates nothing.
\<close>

theorem ensureRequestContext_total:
  assumes "ctx \<noteq> NilCtx" and "newReq \<noteq> []" and "newTrc \<noteq> []"
  shows "\<exists>r. ensureRequestContext newReq newTrc ctx = Some (Ctx (Some r), r) \<and>
    rc_RequestID r \<noteq> [] \<and> rc_TraceID r \<noteq> [] \<and>
    (\<forall>newReq' newTrc'. ensureRequestContext newReq' newTrc' (Ctx (Some r)) = Some (Ctx (Some r), r))"
proof (cases ctx)
  case (Ctx c)
  with assms show ?thesis
    by (cases c) (auto simp: ensureRequestContext_def ContextWithRequest_def no_request_def Let_def)
qed (use assms in simp)

lemma ensureRequestContext_witness:
  "\<exists>r. ensureRequestContext ''req_1'' ''trc_1'' Background = Some (Ctx (Some r), r) \<and>
     rc_RequestID r = ''req_1''"
  using ensureRequestContext_total [of Background "''req_1''" "''trc_1''"]
  by (auto simp: Background_def ensureRequestContext_def ContextWithRequest_def no_request_def Let_def)

end
