(* ===== verification/Regexp.thy ===== *)
theory Regexp
  imports Go_Strings
begin

text \<open>
  Go's \<open>regexp\<close> package as far as the SDK's two patterns need it: leftmost-first matching over
  runes, and \<open>ReplaceAllStringFunc\<close>.  A position is the byte before it (None at the start) and
  what is left of the text; \<open>ends r pos\<close> lists the positions where a match of \<open>r\<close> from \<open>pos\<close> can
  end, in order of preference, so that the match the package reports is the first.
\<close>

type_synonym pos = "char option \<times> string"

datatype regex =
    Rune "string \<Rightarrow> bool"
  | Many "string \<Rightarrow> bool"
  | Seq regex regex
  | Alt regex regex
  | Opt regex
  | Fail
  | Empty
  | WordBoundary

text \<open>A byte outside a well-formed sequence is read as U+FFFD.\<close>

definition next_rune :: "string \<Rightarrow> string" where
  "next_rune s = (case utf8_width s of None \<Rightarrow> replacement_rune | Some n \<Rightarrow> take n s)"

definition advance :: "string \<Rightarrow> pos" where
  "advance s = (let w = rune_width s in (Some (s ! (w - 1)), drop w s))"

definition word_byte :: "char \<Rightarrow> bool" where
  "word_byte c \<longleftrightarrow> in_range 48 57 c \<or> in_range 65 90 c \<or> in_range 97 122 c \<or> c = CHR ''_''"

definition at_word_boundary :: "pos \<Rightarrow> bool" where
  "at_word_boundary p =
     ((case fst p of None \<Rightarrow> False | Some c \<Rightarrow> word_byte c) \<noteq>
      (case snd p of [] \<Rightarrow> False | c # _ \<Rightarrow> word_byte c))"

text \<open>The greedy repetition of a rune class: the longest run first.\<close>

function many_ends :: "(string \<Rightarrow> bool) \<Rightarrow> pos \<Rightarrow> pos list" where
  "many_ends P p =
     (if snd p \<noteq> [] \<and> P (next_rune (snd p)) then many_ends P (advance (snd p)) @ [p] else [p])"
  by pat_completeness auto
termination
  by (relation "measure (\<lambda>(P, p). length (snd p))") (auto simp: advance_def Let_def)

declare many_ends.simps [simp del]

fun ends :: "regex \<Rightarrow> pos \<Rightarrow> pos list" where
  "ends (Rune P) p = (if snd p \<noteq> [] \<and> P (next_rune (snd p)) then [advance (snd p)] else [])"
| "ends (Many P) p = many_ends P p"
| "ends (Seq a b) p = concat (map (ends b) (ends a p))"
| "ends (Alt a b) p = ends a p @ ends b p"
| "ends (Opt a) p = ends a p @ [p]"
| "ends Fail p = []"
| "ends Empty p = [p]"
| "ends WordBoundary p = (if at_word_boundary p then [p] else [])"

definition Some1 :: "(string \<Rightarrow> bool) \<Rightarrow> regex" where
  "Some1 P = Seq (Rune P) (Many P)"

definition seqs :: "regex list \<Rightarrow> regex" where
  "seqs rs = foldr Seq rs Empty"

definition alts :: "regex list \<Rightarrow> regex" where
  "alts rs = foldr Alt rs Fail"

text \<open>
  The leftmost match from a position on: the text before it, the matched text, and the position
  behind it.
\<close>

function find_match :: "regex \<Rightarrow> pos \<Rightarrow> (string \<times> string \<times> pos) option" where
  "find_match r p =
     (case ends r p of
        q # _ \<Rightarrow> Some ([], take (length (snd p) - length (snd q)) (snd p), q)
      | [] \<Rightarrow>
        (if snd p = [] then None
         else map_option (\<lambda>(before, m). (take (rune_width (snd p)) (snd p) @ before, m))
                (find_match r (advance (snd p)))))"
  by pat_completeness auto
termination
  by (relation "measure (\<lambda>(r, p). length (snd p))") (auto simp: advance_def Let_def)

declare find_match.simps [simp del]

text \<open>
  \<open>ReplaceAllStringFunc\<close>.  After an empty match the package also steps on by one rune; none of
  the SDK's patterns matches the empty string (\<open>needs_rune\<close> below), and the loop here ends.
\<close>

function replace_all :: "regex \<Rightarrow> (string \<Rightarrow> string) \<Rightarrow> pos \<Rightarrow> string" where
  "replace_all r f p =
     (case find_match r p of
        None \<Rightarrow> snd p
      | Some (before, m, q) \<Rightarrow>
        (if length (snd q) < length (snd p) then before @ f m @ replace_all r f q else snd p))"
  by pat_completeness auto
termination
  by (relation "measure (\<lambda>(r, f, p). length (snd p))") auto

declare replace_all.simps [simp del]

definition ReplaceAllStringFunc :: "regex \<Rightarrow> string \<Rightarrow> (string \<Rightarrow> string) \<Rightarrow> string" where
  "ReplaceAllStringFunc r s f = replace_all r f (None, s)"

section \<open>Case folding\<close>

definition kelvin_sign :: string where
  "kelvin_sign = [CHR 0xE2, CHR 0x84, CHR 0xAA]"

definition long_s :: string where
  "long_s = [CHR 0xC5, CHR 0xBF]"

text \<open>
  The runes that \<open>(?i)\<close> takes for equal to \<open>r\<close>: the two cases of an ASCII letter, the Kelvin sign
  with k and the long s with s; the argument \<open>uf\<close> is the library's table for all other runes.
\<close>

definition fold_orbit :: "(string \<Rightarrow> string list) \<Rightarrow> string \<Rightarrow> string list" where
  "fold_orbit uf r =
     (if r = kelvin_sign \<or> r = ''k'' \<or> r = ''K'' then [''k'', ''K'', kelvin_sign]
      else if r = long_s \<or> r = ''s'' \<or> r = ''S'' then [''s'', ''S'', long_s]
      else case r of
          [c] \<Rightarrow> (if in_range 65 90 c then [[c], [char_of (byte c + 32)]]
                  else if in_range 97 122 c then [[c], [char_of (byte c - 32)]]
                  else [[c]])
        | _ \<Rightarrow> r # uf r)"

definition folded :: "(string \<Rightarrow> string list) \<Rightarrow> string \<Rightarrow> regex" where
  "folded uf r = Rune (\<lambda>x. x \<in> set (fold_orbit uf r))"

text \<open>A literal (\<open>QuoteMeta\<close>) under \<open>(?i)\<close>: rune after rune.\<close>

function runes_of :: "string \<Rightarrow> string list" where
  "runes_of s = (if s = [] then [] else next_rune s # runes_of (drop (rune_width s) s))"
  by pat_completeness auto
termination
  by (relation "measure length") auto

declare runes_of.simps [simp del]

definition literal :: "(string \<Rightarrow> string list) \<Rightarrow> string \<Rightarrow> regex" where
  "literal uf s = seqs (map (folded uf) (runes_of s))"

section \<open>Matching consumes text\<close>

text \<open>\<open>q\<close> is behind \<open>p\<close>: what is left at \<open>q\<close> is a suffix of what is left at \<open>p\<close>.\<close>

definition behind :: "pos \<Rightarrow> pos \<Rightarrow> bool" where
  "behind p q \<longleftrightarrow> suffix (snd q) (snd p)"

lemma behind_refl [simp]: "behind p p"
  by (simp add: behind_def)

lemma behind_trans: "behind p q \<Longrightarrow> behind q r \<Longrightarrow> behind p r"
  unfolding behind_def by (rule suffix_order.trans)

lemma behind_advance: "behind p (advance (snd p))"
  by (simp add: behind_def advance_def Let_def suffix_drop)

lemma behind_length: "behind p q \<Longrightarrow> length (snd q) \<le> length (snd p)"
  unfolding behind_def by (rule suffix_length_le)

lemma advance_shorter: "snd p \<noteq> [] \<Longrightarrow> length (snd (advance (snd p))) < length (snd p)"
  by (simp add: advance_def Let_def)

lemma many_ends_behind: "q \<in> set (many_ends P p) \<Longrightarrow> behind p q"
proof (induction P p rule: many_ends.induct)
  case (1 P p)
  show ?case
  proof (cases "snd p \<noteq> [] \<and> P (next_rune (snd p))")
    case True
    with "1.prems" have "q \<in> set (many_ends P (advance (snd p))) \<or> q = p"
      by (subst (asm) many_ends.simps) auto
    then show ?thesis using "1.IH" [OF True] behind_trans [OF behind_advance] behind_refl by blast
  next
    case False
    with "1.prems" show ?thesis by (subst (asm) many_ends.simps) auto
  qed
qed

lemma ends_behind: "q \<in> set (ends r p) \<Longrightarrow> behind p q"
proof (induction r arbitrary: p q)
  case (Seq a b)
  then obtain m where "m \<in> set (ends a p)" "q \<in> set (ends b m)" by auto
  then show ?case using Seq.IH behind_trans by blast
qed (auto simp: behind_advance [of "(_, _)", simplified] many_ends_behind split: if_splits)

text \<open>The patterns that cannot match the empty string.\<close>

fun needs_rune :: "regex \<Rightarrow> bool" where
  "needs_rune (Rune P) = True"
| "needs_rune (Many P) = False"
| "needs_rune (Seq a b) = (needs_rune a \<or> needs_rune b)"
| "needs_rune (Alt a b) = (needs_rune a \<and> needs_rune b)"
| "needs_rune (Opt a) = False"
| "needs_rune Fail = True"
| "needs_rune Empty = False"
| "needs_rune WordBoundary = False"

lemma ends_shorter: "needs_rune r \<Longrightarrow> q \<in> set (ends r p) \<Longrightarrow> length (snd q) < length (snd p)"
proof (induction r arbitrary: p q)
  case (Seq a b)
  then obtain m where m: "m \<in> set (ends a p)" "q \<in> set (ends b m)" by auto
  note le = behind_length [OF ends_behind [OF m(1)]] behind_length [OF ends_behind [OF m(2)]]
  show ?case
  proof (cases "needs_rune a")
    case True
    with Seq.IH(1) m(1) le show ?thesis by fastforce
  next
    case False
    with Seq.prems(1) Seq.IH(2) m(2) le show ?thesis by fastforce
  qed
qed (auto simp: advance_shorter split: if_splits)

text \<open>A reported match splits the text, and a text without one is left alone.\<close>

lemma find_match_splits:
  "find_match r p = Some (before, m, q) \<Longrightarrow> snd p = before @ m @ snd q"
proof (induction r p arbitrary: before rule: find_match.induct)
  case (1 r p)
  show ?case
  proof (cases "ends r p")
    case (Cons q' qs)
    then have q: "before = []" "m = take (length (snd p) - length (snd q')) (snd p)" "q = q'"
      using "1.prems" by (subst (asm) find_match.simps; simp)+
    have "behind p q'" using ends_behind [of q' r p] Cons by simp
    then obtain t where "snd p = t @ snd q'" by (auto simp: behind_def suffix_def)
    with q show ?thesis by simp
  next
    case Nil
    then have ne: "snd p \<noteq> []" using "1.prems" by (subst (asm) find_match.simps) (auto split: if_splits)
    then obtain b where b: "find_match r (advance (snd p)) = Some (b, m, q)"
        "before = take (rune_width (snd p)) (snd p) @ b"
      using "1.prems" Nil by (subst (asm) find_match.simps) auto
    have "snd (advance (snd p)) = b @ m @ snd q" using "1.IH" [OF Nil ne b(1)] .
    then have "drop (rune_width (snd p)) (snd p) = b @ m @ snd q" by (simp add: advance_def Let_def)
    then show ?thesis using b(2) append_take_drop_id [of "rune_width (snd p)" "snd p"] by simp
  qed
qed

lemma find_match_nonempty:
  assumes "needs_rune r" and "find_match r p = Some (before, m, q)"
  shows "m \<noteq> [] \<and> length (snd q) < length (snd p)"
proof -
  have "m \<noteq> []"
    using assms
  proof (induction r p arbitrary: before rule: find_match.induct)
    case (1 r p)
    show ?case
    proof (cases "ends r p")
      case (Cons q' qs)
      then have m: "m = take (length (snd p) - length (snd q')) (snd p)"
        using "1.prems"(2) by (subst (asm) find_match.simps) auto
      have "length (snd q') < length (snd p)"
        using ends_shorter [OF "1.prems"(1)] Cons by simp
      with m show ?thesis by auto
    next
      case Nil
      with "1" show ?thesis by (subst (asm) (2) find_match.simps) (auto split: if_splits)
    qed
  qed
  then show ?thesis using find_match_splits [OF assms(2)] by simp
qed

lemma replace_all_none: "find_match r p = None \<Longrightarrow> replace_all r f p = snd p"
  by (subst replace_all.simps) simp

section \<open>Positions of a text\<close>

text \<open>Position \<open>i\<close> of a text; the package starts a match at the beginning of a rune or at the end.\<close>

definition at_pos :: "string \<Rightarrow> nat \<Rightarrow> pos" where
  "at_pos s i = (if i = 0 then None else Some (s ! (i - 1)), drop i s)"

text \<open>From a start the next one is a rune further, and there is none in between.\<close>

lemma advance_at_pos:
  assumes "rune_start s i" and "i < length s"
  defines "w \<equiv> rune_width (drop i s)"
  shows "advance (drop i s) = at_pos s (i + w)" and "rune_start s (i + w)"
    and "rune_start s k \<Longrightarrow> i \<le> k \<Longrightarrow> k < i + w \<Longrightarrow> k = i"
proof -
  have "0 < w" "i + w \<le> length s" using rune_start_next(2) [OF assms(1,2)] by (simp_all add: w_def)
  then show "advance (drop i s) = at_pos s (i + w)"
    by (auto simp: advance_def at_pos_def Let_def add.commute simp flip: w_def)
qed (use rune_start_next [OF assms(1,2)] in \<open>simp_all add: w_def\<close>)

lemma snd_at_pos [simp]: "snd (at_pos s i) = drop i s"
  by (simp add: at_pos_def)

text \<open>A match from a start ends at a start.\<close>

definition start_from :: "string \<Rightarrow> nat \<Rightarrow> pos \<Rightarrow> bool" where
  "start_from s i q \<longleftrightarrow> (\<exists>j \<ge> i. rune_start s j \<and> q = at_pos s j)"

lemma start_from_refl: "rune_start s i \<Longrightarrow> start_from s i (at_pos s i)"
  by (auto simp: start_from_def)

lemma start_from_mono: "start_from s j q \<Longrightarrow> i \<le> j \<Longrightarrow> start_from s i q"
  unfolding start_from_def using le_trans by blast

lemma start_from_advance:
  assumes "rune_start s i" and "drop i s \<noteq> []"
  shows "start_from s i (advance (drop i s))"
  using advance_at_pos(1,2) [OF assms(1)] assms(2)
  unfolding start_from_def by (metis drop_eq_Nil le_add1 linorder_not_less)

lemma many_ends_start:
  "q \<in> set (many_ends P p) \<Longrightarrow> p = at_pos s i \<Longrightarrow> rune_start s i \<Longrightarrow> start_from s i q"
proof (induction P p arbitrary: i rule: many_ends.induct)
  case (1 P p)
  show ?case
  proof (cases "snd p \<noteq> [] \<and> P (next_rune (snd p))")
    case True
    with "1.prems"(1) have "q \<in> set (many_ends P (advance (snd p))) \<or> q = p"
      by (subst (asm) many_ends.simps) auto
    moreover have ne: "i < length s" using True "1.prems"(2) by simp
    note adv = advance_at_pos(1,2) [OF "1.prems"(3) ne]
    have "start_from s i q" if "q \<in> set (many_ends P (advance (snd p)))"
    proof -
      have "start_from s (i + rune_width (drop i s)) q"
        using "1.IH" [OF True that] adv "1.prems"(2) by simp
      then show ?thesis by (rule start_from_mono) simp
    qed
    ultimately show ?thesis using "1.prems" start_from_refl by blast
  next
    case False
    with "1.prems" show ?thesis by (subst (asm) many_ends.simps) (auto simp: start_from_refl)
  qed
qed

lemma ends_start: "q \<in> set (ends r (at_pos s i)) \<Longrightarrow> rune_start s i \<Longrightarrow> start_from s i q"
proof (induction r arbitrary: i q)
  case (Seq a b)
  then obtain m where m: "m \<in> set (ends a (at_pos s i))" "q \<in> set (ends b m)" by auto
  then obtain j where j: "i \<le> j" "rune_start s j" "m = at_pos s j"
    using Seq.IH(1) Seq.prems(2) unfolding start_from_def by blast
  then have "start_from s j q" using Seq.IH(2) m(2) by blast
  then show ?case using j(1) by (rule start_from_mono)
qed (auto simp: start_from_refl start_from_advance many_ends_start split: if_splits)

section \<open>Replacement works through the whole text\<close>

text \<open>No match starts from position \<open>i\<close> on and before position \<open>j\<close>.\<close>

definition silent :: "regex \<Rightarrow> string \<Rightarrow> nat \<Rightarrow> nat \<Rightarrow> bool" where
  "silent r s i j \<longleftrightarrow> (\<forall>k \<in> set [i..<j]. rune_start s k \<longrightarrow> ends r (at_pos s k) = [])"

lemma silent_iff:
  "silent r s i j \<longleftrightarrow> (\<forall>k. i \<le> k \<and> k < j \<and> rune_start s k \<longrightarrow> ends r (at_pos s k) = [])"
  by (auto simp: silent_def)

lemma silent_step:
  assumes "rune_start s i" and "i < length s" and "ends r (at_pos s i) = []"
    and "silent r s (i + rune_width (drop i s)) j"
  shows "silent r s i j"
  using assms(3,4) advance_at_pos(3) [OF assms(1,2)] unfolding silent_iff
  by (metis linorder_not_less)

text \<open>The first match found from a start, and the case that there is none.\<close>

lemma find_match_first:
  assumes "find_match r p = Some (gap, m, q)" and "p = at_pos s i" and "rune_start s i"
  shows "silent r s i (i + length gap) \<and> rune_start s (i + length gap) \<and>
    hd (ends r (at_pos s (i + length gap))) = q \<and> ends r (at_pos s (i + length gap)) \<noteq> [] \<and>
    q = at_pos s (i + length gap + length m) \<and> rune_start s (i + length gap + length m)"
  using assms
proof (induction r p arbitrary: gap i rule: find_match.induct)
  case (1 r p)
  note split = find_match_splits [OF "1.prems"(1)]
  show ?case
  proof (cases "ends r p")
    case (Cons q' qs)
    then have q: "gap = []" "q = q'"
      using "1.prems"(1) by (subst (asm) find_match.simps; simp)+
    obtain j where j: "i \<le> j" "rune_start s j" "q = at_pos s j"
      using ends_start [of q r s i] Cons q "1.prems"(2,3) by (auto simp: start_from_def)
    have "length (drop i s) = length m + length (drop j s)"
      using split q(1) "1.prems"(2) j(3) by (metis append_Nil length_append snd_at_pos)
    then have "j = i + length m" using j(1) rune_start_le [OF j(2)] rune_start_le [OF "1.prems"(3)]
      by simp
    with j Cons q "1.prems"(2,3) show ?thesis by (auto simp: silent_iff)
  next
    case Nil
    then have ne: "snd p \<noteq> []" using "1.prems"(1) by (subst (asm) find_match.simps) (auto split: if_splits)
    then obtain b where b: "find_match r (advance (snd p)) = Some (b, m, q)"
        "gap = take (rune_width (snd p)) (snd p) @ b"
      using "1.prems"(1) Nil by (subst (asm) find_match.simps) auto
    let ?w = "rune_width (drop i s)"
    have i: "i < length s" using ne "1.prems"(2) by simp
    note adv = advance_at_pos [OF "1.prems"(3) i]
    have gap: "length gap = ?w + length b"
      using b(2) rune_width_le [OF ne] "1.prems"(2) by simp
    have "silent r s (i + ?w) (i + ?w + length b) \<and> rune_start s (i + ?w + length b) \<and>
      hd (ends r (at_pos s (i + ?w + length b))) = q \<and> ends r (at_pos s (i + ?w + length b)) \<noteq> [] \<and>
      q = at_pos s (i + ?w + length b + length m) \<and> rune_start s (i + ?w + length b + length m)"
      using "1.IH" [OF Nil ne b(1)] adv(1,2) "1.prems"(2) by simp
    then show ?thesis
      using gap silent_step [OF "1.prems"(3) i] Nil "1.prems"(2) by (simp add: add.assoc)
  qed
qed

lemma find_match_none:
  "find_match r p = None \<Longrightarrow> p = at_pos s i \<Longrightarrow> rune_start s i \<Longrightarrow> silent r s i (Suc (length s))"
proof (induction r p arbitrary: i rule: find_match.induct)
  case (1 r p)
  have none: "ends r p = []" using "1.prems"(1) by (subst (asm) find_match.simps) (auto split: list.splits)
  show ?case
  proof (cases "snd p = []")
    case True
    then have "length s \<le> i" using "1.prems"(2) by simp
    with none "1.prems"(2) show ?thesis
      using rune_start_le [OF "1.prems"(3)] by (auto simp: silent_iff le_Suc_eq less_Suc_eq_le)
  next
    case False
    then have i: "i < length s" using "1.prems"(2) by simp
    have "find_match r (advance (snd p)) = None"
      using "1.prems"(1) none False by (subst (asm) find_match.simps) simp
    then show ?thesis
      using "1.IH" [OF none False] advance_at_pos(1,2) [OF "1.prems"(3) i] "1.prems"(2,3)
        silent_step [OF _ i] none by simp
  qed
qed

text \<open>
  A text cut, from position \<open>i\<close> on, into gaps and matches: no match starts inside a gap or in the
  rest, and each match is the one the package prefers at its position.
\<close>

fun cut_from :: "regex \<Rightarrow> string \<Rightarrow> nat \<Rightarrow> (string \<times> string) list \<Rightarrow> string \<Rightarrow> bool" where
  "cut_from r s i [] rest \<longleftrightarrow> drop i s = rest \<and> silent r s i (Suc (length s))"
| "cut_from r s i ((gap, m) # parts) rest \<longleftrightarrow>
     (let a = i + length gap; b = a + length m
      in take (length gap + length m) (drop i s) = gap @ m \<and> m \<noteq> [] \<and> silent r s i a \<and>
         rune_start s a \<and> ends r (at_pos s a) \<noteq> [] \<and> hd (ends r (at_pos s a)) = at_pos s b \<and>
         cut_from r s b parts rest)"

abbreviation cut_by :: "regex \<Rightarrow> string \<Rightarrow> (string \<times> string) list \<Rightarrow> string \<Rightarrow> bool" where
  "cut_by r s parts rest \<equiv> cut_from r s 0 parts rest"

definition replace_parts :: "(string \<Rightarrow> string) \<Rightarrow> (string \<times> string) list \<Rightarrow> string \<Rightarrow> string" where
  "replace_parts f parts rest = concat (map (\<lambda>(gap, m). gap @ f m) parts) @ rest"

lemma cut_from_text:
  "cut_from r s i parts rest \<Longrightarrow> drop i s = replace_parts (\<lambda>m. m) parts rest"
proof (induction r s i parts rest rule: cut_from.induct)
  case (2 r s i gap m parts rest)
  then have "drop (i + length gap + length m) s = replace_parts (\<lambda>m. m) parts rest"
      and "take (length gap + length m) (drop i s) = gap @ m"
    by (simp_all add: Let_def)
  then have "drop i s = (gap @ m) @ replace_parts (\<lambda>m. m) parts rest"
    using append_take_drop_id [of "length gap + length m" "drop i s"]
    by (simp add: add.commute add.left_commute)
  then show ?case by (simp add: replace_parts_def)
qed (simp add: replace_parts_def)

lemma cut_from_match:
  "cut_from r s i parts rest \<Longrightarrow> (gap, m) \<in> set parts \<Longrightarrow>
     \<exists>p q. snd p = m @ snd q \<and> q \<in> set (ends r p)"
proof (induction r s i parts rest rule: cut_from.induct)
  case (2 r s i gap' m' parts rest)
  show ?case
  proof (cases "(gap, m) = (gap', m')")
    case True
    let ?a = "i + length gap'"
    have t: "take (length gap' + length m') (drop i s) = gap' @ m'"
        "ends r (at_pos s ?a) \<noteq> []" "hd (ends r (at_pos s ?a)) = at_pos s (?a + length m')"
      using "2.prems"(1) by (simp_all add: Let_def)
    have "drop (length gap') (take (length gap' + length m') (drop i s)) = m'" by (simp add: t(1))
    then have "take (length m') (drop ?a s) = m'" by (simp add: drop_take add.commute)
    then have "drop ?a s = m' @ drop (?a + length m') s"
      using append_take_drop_id [of "length m'" "drop ?a s"] by (simp add: add.commute)
    moreover have "at_pos s (?a + length m') \<in> set (ends r (at_pos s ?a))"
      using t(2,3) hd_in_set by metis
    ultimately show ?thesis
      using True by (intro exI [of _ "at_pos s ?a"] exI [of _ "at_pos s (?a + length m')"]) simp
  next
    case False
    then have "(gap, m) \<in> set parts" using "2.prems"(2) by auto
    with "2.IH" [OF refl refl] "2.prems"(1) show ?thesis by (simp add: Let_def)
  qed
qed simp

lemma replace_all_parts:
  assumes "needs_rune r" and "p = at_pos s i" and "rune_start s i"
  shows "\<exists>parts rest. cut_from r s i parts rest \<and> replace_all r f p = replace_parts f parts rest"
  using assms
proof (induction r f p arbitrary: i rule: replace_all.induct)
  case (1 r f p)
  show ?case
  proof (cases "find_match r p")
    case None
    then have "cut_from r s i [] (drop i s)"
      using find_match_none [OF None "1.prems"(2,3)] by simp
    with None "1.prems"(2) show ?thesis
      by (intro exI [of _ "[]"] exI [of _ "drop i s"]) (simp add: replace_all_none replace_parts_def)
  next
    case (Some t)
    obtain gap m q where t: "t = (gap, m, q)" by (cases t)
    note fm = Some [unfolded t]
    have s: "drop i s = gap @ m @ snd q" using find_match_splits [OF fm] "1.prems"(2) by simp
    have short: "m \<noteq> []" "length (snd q) < length (snd p)"
      using find_match_nonempty [OF "1.prems"(1) fm] by simp_all
    note first = find_match_first [OF fm "1.prems"(2,3)]
    obtain parts rest where ih: "cut_from r s (i + length gap + length m) parts rest"
        "replace_all r f q = replace_parts f parts rest"
      using "1.IH" [OF fm refl refl short(2) "1.prems"(1)] first by blast
    have "cut_from r s i ((gap, m) # parts) rest"
      using ih(1) short(1) first s by (simp add: Let_def)
    moreover have "replace_all r f p = replace_parts f ((gap, m) # parts) rest"
      using fm short(2) ih(2) by (subst replace_all.simps) (simp add: replace_parts_def)
    ultimately show ?thesis by blast
  qed
qed

text \<open>A text can be cut in one way only.\<close>

lemma cut_from_unique:
  "cut_from r s i parts rest \<Longrightarrow> cut_from r s i parts' rest' \<Longrightarrow> parts = parts' \<and> rest = rest'"
proof (induction r s i parts rest arbitrary: parts' rest' rule: cut_from.induct)
  case (1 r s i rest)
  show ?case
  proof (cases parts')
    case (Cons x xs)
    obtain gap m where x: "x = (gap, m)" by (cases x)
    then have "rune_start s (i + length gap)" "ends r (at_pos s (i + length gap)) \<noteq> []"
      using "1.prems"(2) Cons by (simp_all add: Let_def)
    moreover have "silent r s i (Suc (length s))" using "1.prems"(1) by simp
    ultimately show ?thesis using rune_start_le by (auto simp: silent_iff less_Suc_eq_le)
  qed (use "1.prems" in auto)
next
  case (2 r s i gap m parts rest)
  let ?a = "i + length gap" and ?b = "i + length gap + length m"
  have one: "take (length gap + length m) (drop i s) = gap @ m" "silent r s i ?a" "rune_start s ?a"
      "ends r (at_pos s ?a) \<noteq> []" "hd (ends r (at_pos s ?a)) = at_pos s ?b" "m \<noteq> []"
    using "2.prems"(1) by (simp_all add: Let_def)
  show ?case
  proof (cases parts')
    case Nil
    then have "silent r s i (Suc (length s))" using "2.prems"(2) by simp
    then show ?thesis using one rune_start_le by (auto simp: silent_iff less_Suc_eq_le)
  next
    case (Cons x xs)
    obtain gap' m' where x: "x = (gap', m')" by (cases x)
    let ?a' = "i + length gap'" and ?b' = "i + length gap' + length m'"
    have two: "take (length gap' + length m') (drop i s) = gap' @ m'" "silent r s i ?a'" "rune_start s ?a'"
        "ends r (at_pos s ?a') \<noteq> []" "hd (ends r (at_pos s ?a')) = at_pos s ?b'" "m' \<noteq> []"
        "cut_from r s ?b' xs rest'"
      using "2.prems"(2) Cons x by (simp_all add: Let_def)
    have a: "length gap = length gap'"
      using one(2-4) two(2-4) unfolding silent_iff by (metis le_add1 linorder_neqE_nat nat_add_left_cancel_less)
    have "length (gap @ m) \<le> length (drop i s)" "length (gap' @ m') \<le> length (drop i s)"
      using one(1) two(1) by (metis length_take min.cobounded1)+
    then have "?b \<le> length s" "?b' \<le> length s" using one(6) two(6) by (cases m; cases m'; simp)+
    moreover have "at_pos s ?b = at_pos s ?b'" using one(5) two(5) a by simp
    from arg_cong [OF this, of snd] have "drop ?b s = drop ?b' s" by simp
    from arg_cong [OF this, of length] have "length s - ?b = length s - ?b'" by simp
    ultimately have m: "length m = length m'" using a by simp
    have "gap @ m = gap' @ m'" by (rule trans [OF one(1) [unfolded a m, symmetric] two(1)])
    then have "gap = gap' \<and> m = m'" using a by (metis append_eq_append_conv)
    moreover have "parts = xs \<and> rest = rest'"
      using "2.IH" [OF refl refl, of xs rest'] "2.prems"(1) two(7) a m by (simp add: Let_def)
    ultimately show ?thesis using Cons x by simp
  qed
qed

lemma ends_seqs: "ends (seqs (r # rs)) p = concat (map (ends (seqs rs)) (ends r p))"
  by (simp add: seqs_def)

lemma needs_rune_seqs: "needs_rune (seqs rs) \<longleftrightarrow> (\<exists>r \<in> set rs. needs_rune r)"
  by (induction rs) (auto simp: seqs_def)

lemma needs_rune_Some1 [simp]: "needs_rune (Some1 P)"
  by (simp add: Some1_def)

text \<open>A match of a sequence contains a match of each of its parts.\<close>

lemma ends_seqs_member:
  "q \<in> set (ends (seqs rs) p) \<Longrightarrow> r \<in> set rs \<Longrightarrow>
     \<exists>a b. behind p a \<and> b \<in> set (ends r a) \<and> behind b q"
proof (induction rs arbitrary: p)
  case (Cons x xs)
  then obtain m where m: "m \<in> set (ends x p)" "q \<in> set (ends (seqs xs) m)"
    by (auto simp: ends_seqs)
  show ?case
  proof (cases "r = x")
    case True
    with m ends_behind show ?thesis by (intro exI [of _ p] exI [of _ m]) auto
  next
    case False
    then have "r \<in> set xs" using Cons.prems(2) by simp
    then obtain a b where "behind m a" "b \<in> set (ends r a)" "behind b q"
      using Cons.IH [OF m(2)] by blast
    with behind_trans [OF ends_behind [OF m(1)]] show ?thesis by blast
  qed
qed simp

lemma next_rune_single: "s \<noteq> [] \<Longrightarrow> next_rune s = [c] \<Longrightarrow> \<exists>t. s = c # t \<and> snd (advance s) = t"
  by (cases s; cases "utf8_width s")
    (auto simp: next_rune_def advance_def rune_width_def replacement_rune_def Let_def take_Cons'
      drop_Cons' split: if_splits dest: utf8_width_bounds)

lemma seqs_contains_byte:
  assumes "Rune P \<in> set rs" and "\<And>x. P x \<Longrightarrow> \<exists>c \<in> C. x = [c]"
    and "q \<in> set (ends (seqs rs) p)" and "snd p = m @ snd q"
  shows "\<exists>c \<in> C. c \<in> set m"
proof -
  obtain a b where ab: "behind p a" "b \<in> set (ends (Rune P) a)" "behind b q"
    using ends_seqs_member [OF assms(3,1)] by blast
  then have a: "snd a \<noteq> []" "P (next_rune (snd a))" "b = advance (snd a)" by (auto split: if_splits)
  then obtain c where c: "c \<in> C" "next_rune (snd a) = [c]" using assms(2) by blast
  then obtain t where "snd a = c # t" "snd b = t" using next_rune_single a by blast
  moreover obtain u where "snd p = u @ snd a" using ab(1) by (auto simp: behind_def suffix_def)
  moreover obtain w where "snd b = w @ snd q" using ab(3) by (auto simp: behind_def suffix_def)
  ultimately have "m @ snd q = (u @ c # w) @ snd q" using assms(4) by simp
  then have "m = u @ c # w" by simp
  with c show ?thesis by auto
qed


end
