(* ===== verification/Redactor.thy ===== *)
theory Redactor
  imports Regexp Events
begin

text \<open>
  \<open>logcenter/redaction.go\<close>: which keys are sensitive, the two patterns that remove credentials
  from free text, and the traversal that redacts values.  \<open>ul\<close> is the library's lower-case
  table and \<open>uf\<close> its case-folding table for runes outside ASCII.
\<close>

section \<open>The code\<close>

definition redactedValue :: string where
  "redactedValue = ''[REDACTED]''"

definition defaultSensitiveKeyFragments :: "string list" where
  "defaultSensitiveKeyFragments =
    [''password'', ''senha'', ''token'', ''authorization'', ''cookie'', ''secret'', ''secret_key'',
     ''client_secret'', ''api_key'', ''apikey'', ''private_key'', ''pfx'', ''certificate'',
     ''certificate_password'', ''certificado'', ''senha_certificado'', ''base64'', ''file'',
     ''arquivo'', ''document'', ''pdf'', ''xml'', ''logo'', ''stripe'', ''csrt'', ''chave_acesso'',
     ''cpf'', ''cnpj'', ''email'', ''phone'', ''telefone'', ''cvv'']"

record redactor =
  rd_fragments :: "string list"
  rd_pairPattern :: "regex option"

text \<open>The loop of \<open>normalizeFragments\<close>; \<open>seen\<close> is the map, \<open>normalized\<close> the result so far.\<close>

fun normalize_loop ::
  "(string \<Rightarrow> string) \<Rightarrow> string list \<Rightarrow> string list \<Rightarrow> string list \<Rightarrow> string list" where
  "normalize_loop ul [] seen normalized = normalized"
| "normalize_loop ul (f # fs) seen normalized =
     (let f = to_lower ul (trim_space f)
      in if f = [] then normalize_loop ul fs seen normalized
         else if f \<in> set seen then normalize_loop ul fs seen normalized
         else normalize_loop ul fs (f # seen) (normalized @ [f]))"

definition normalizeFragments :: "(string \<Rightarrow> string) \<Rightarrow> string list \<Rightarrow> string list" where
  "normalizeFragments ul fs = normalize_loop ul fs [] []"

subsection \<open>Patterns\<close>

definition re_space :: "string \<Rightarrow> bool" where
  "re_space x \<longleftrightarrow> x \<in> {[CHR 0x09], [CHR 0x0A], [CHR 0x0C], [CHR 0x0D], '' ''}"

definition token_rune :: "string \<Rightarrow> bool" where
  "token_rune x = (case x of
     [c] \<Rightarrow> in_range 65 90 c \<or> in_range 97 122 c \<or> in_range 48 57 c \<or> c \<in> set ''._~+/=-''
   | _ \<Rightarrow> x = kelvin_sign \<or> x = long_s)"

definition bearerPattern :: regex where
  "bearerPattern =
     seqs [WordBoundary, literal (\<lambda>_. []) ''bearer'', Some1 re_space, Some1 token_rune]"

definition quote_mark :: "string \<Rightarrow> bool" where
  "quote_mark x \<longleftrightarrow> x = [CHR 0x22] \<or> x = [CHR 0x27]"

definition quoted_by :: "char \<Rightarrow> regex" where
  "quoted_by c = seqs [Rune (\<lambda>x. x = [c]), Many (\<lambda>x. x \<noteq> [c]), Rune (\<lambda>x. x = [c])]"

definition bare_rune :: "string \<Rightarrow> bool" where
  "bare_rune x \<longleftrightarrow> x \<notin> {'','', '';'', ''}'', '']''} \<and> \<not> re_space x"

definition sensitivePairPattern :: "(string \<Rightarrow> string list) \<Rightarrow> string list \<Rightarrow> regex option" where
  "sensitivePairPattern uf fragments =
     (if fragments = [] then None
      else Some (seqs
        [Opt (Rune quote_mark), alts (map (literal uf) fragments), Opt (Rune quote_mark),
         Many re_space, Rune (\<lambda>x. x = '':'' \<or> x = ''=''), Many re_space,
         alts [quoted_by (CHR 0x22), quoted_by (CHR 0x27), Some1 bare_rune]]))"

definition newRedactor ::
  "(string \<Rightarrow> string) \<Rightarrow> (string \<Rightarrow> string list) \<Rightarrow> string list \<Rightarrow> redactor" where
  "newRedactor ul uf extra =
     (let fragments = normalizeFragments ul (defaultSensitiveKeyFragments @ extra)
      in \<lparr>rd_fragments = fragments, rd_pairPattern = sensitivePairPattern uf fragments\<rparr>)"

subsection \<open>Redaction\<close>

definition IsSensitiveKey :: "(string \<Rightarrow> string) \<Rightarrow> redactor \<Rightarrow> string \<Rightarrow> bool" where
  "IsSensitiveKey ul rd key =
     (let normalized = to_lower ul (trim_space key)
      in list_ex (\<lambda>fragment. contains normalized fragment) (rd_fragments rd))"

definition redact_pair :: "string \<Rightarrow> string" where
  "redact_pair m =
     (let name = takeWhile (\<lambda>c. c \<noteq> CHR '':'' \<and> c \<noteq> CHR ''='') m
      in if name = m then redactedValue
         else trim_space name @ [m ! length name] @ redactedValue)"

definition RedactString :: "redactor \<Rightarrow> string \<Rightarrow> string" where
  "RedactString rd value =
     (let value = ReplaceAllStringFunc bearerPattern value (\<lambda>_. ''Bearer '' @ redactedValue)
      in case rd_pairPattern rd of
          None \<Rightarrow> value
        | Some p \<Rightarrow> ReplaceAllStringFunc p value redact_pair)"

fun redact_value :: "(string \<Rightarrow> string) \<Rightarrow> redactor \<Rightarrow> gval \<Rightarrow> gval"
  and redact_values :: "(string \<Rightarrow> string) \<Rightarrow> redactor \<Rightarrow> gval list \<Rightarrow> gval list"
  and redact_entries :: "(string \<Rightarrow> string) \<Rightarrow> redactor \<Rightarrow> entries \<Rightarrow> entries"
  and redact_changes :: "(string \<Rightarrow> string) \<Rightarrow> redactor \<Rightarrow> change list \<Rightarrow> change list"
where
  "redact_value ul rd (GMap None) = GFields None"
| "redact_value ul rd (GMap (Some kvs)) = GFields (Some (redact_entries ul rd kvs))"
| "redact_value ul rd (GFields None) = GFields None"
| "redact_value ul rd (GFields (Some kvs)) = GFields (Some (redact_entries ul rd kvs))"
| "redact_value ul rd (GSlice None) = GSlice (Some [])"
| "redact_value ul rd (GSlice (Some vs)) = GSlice (Some (redact_values ul rd vs))"
| "redact_value ul rd (GChanges None) = GChanges (Some [])"
| "redact_value ul rd (GChanges (Some cs)) = GChanges (Some (redact_changes ul rd cs))"
| "redact_value ul rd (GStr s) = GStr (RedactString rd s)"
| "redact_value ul rd GNil = GNil"
| "redact_value ul rd (GBool b) = GBool b"
| "redact_value ul rd (GInt i) = GInt i"
| "redact_value ul rd (GStrings ss) = GStrings ss"
| "redact_value ul rd (GOther ty enc) = GOther ty enc"
| "redact_values ul rd [] = []"
| "redact_values ul rd (v # vs) = redact_value ul rd v # redact_values ul rd vs"
| "redact_entries ul rd [] = []"
| "redact_entries ul rd ((k, v) # kvs) =
     (k, if IsSensitiveKey ul rd k then GStr redactedValue else redact_value ul rd v)
       # redact_entries ul rd kvs"
| "redact_changes ul rd [] = []"
| "redact_changes ul rd (Change f x y # cs) =
     Change f
       (if x = GNil then GNil
        else if IsSensitiveKey ul rd f then GStr redactedValue else redact_value ul rd x)
       (if y = GNil then GNil
        else if IsSensitiveKey ul rd f then GStr redactedValue else redact_value ul rd y)
     # redact_changes ul rd cs"

definition RedactFields :: "(string \<Rightarrow> string) \<Rightarrow> redactor \<Rightarrow> fields \<Rightarrow> fields" where
  "RedactFields ul rd m = map_option (redact_entries ul rd) m"

definition RedactNamedValue :: "(string \<Rightarrow> string) \<Rightarrow> redactor \<Rightarrow> string \<Rightarrow> gval \<Rightarrow> gval" where
  "RedactNamedValue ul rd name v =
     (if v = GNil then GNil
      else if IsSensitiveKey ul rd name then GStr redactedValue
      else redact_value ul rd v)"

definition redactEvent :: "(string \<Rightarrow> string) \<Rightarrow> redactor \<Rightarrow> event \<Rightarrow> event" where
  "redactEvent ul rd e = e\<lparr>
     ev_Message := RedactString rd (ev_Message e),
     ev_ErrorMessage := RedactString rd (ev_ErrorMessage e),
     ev_StackTrace := RedactString rd (ev_StackTrace e),
     ev_Reason := RedactString rd (ev_Reason e),
     ev_Metadata := RedactFields ul rd (ev_Metadata e),
     ev_Data := RedactFields ul rd (ev_Data e),
     ev_Changes := redact_value ul rd (ev_Changes e),
     ev_OldValue := RedactNamedValue ul rd (ev_FieldName e) (ev_OldValue e),
     ev_NewValue := RedactNamedValue ul rd (ev_FieldName e) (ev_NewValue e)\<rparr>"

subsection \<open>The package functions\<close>

text \<open>The functions of the package, which have the names of the methods, apply the default redactor,
  that of the built-in fragments.\<close>

definition defaultRedactor :: "(string \<Rightarrow> string) \<Rightarrow> (string \<Rightarrow> string list) \<Rightarrow> redactor" where
  "defaultRedactor ul uf = newRedactor ul uf []"

definition default_RedactFields :: "(string \<Rightarrow> string) \<Rightarrow> (string \<Rightarrow> string list) \<Rightarrow> fields \<Rightarrow> fields" where
  "default_RedactFields ul uf = RedactFields ul (defaultRedactor ul uf)"

definition default_RedactValue :: "(string \<Rightarrow> string) \<Rightarrow> (string \<Rightarrow> string list) \<Rightarrow> gval \<Rightarrow> gval" where
  "default_RedactValue ul uf = redact_value ul (defaultRedactor ul uf)"

definition default_RedactNamedValue ::
  "(string \<Rightarrow> string) \<Rightarrow> (string \<Rightarrow> string list) \<Rightarrow> string \<Rightarrow> gval \<Rightarrow> gval" where
  "default_RedactNamedValue ul uf = RedactNamedValue ul (defaultRedactor ul uf)"

definition default_RedactString :: "(string \<Rightarrow> string) \<Rightarrow> (string \<Rightarrow> string list) \<Rightarrow> string \<Rightarrow> string" where
  "default_RedactString ul uf = RedactString (defaultRedactor ul uf)"

definition default_IsSensitiveKey :: "(string \<Rightarrow> string) \<Rightarrow> (string \<Rightarrow> string list) \<Rightarrow> string \<Rightarrow> bool" where
  "default_IsSensitiveKey ul uf = IsSensitiveKey ul (defaultRedactor ul uf)"

definition default_redactEvent :: "(string \<Rightarrow> string) \<Rightarrow> (string \<Rightarrow> string list) \<Rightarrow> event \<Rightarrow> event" where
  "default_redactEvent ul uf = redactEvent ul (defaultRedactor ul uf)"

section \<open>Fragments\<close>

lemma normalize_loop_spec:
  "set seen = set normalized \<Longrightarrow> distinct normalized \<Longrightarrow>
     set (normalize_loop ul fs seen normalized) =
       set normalized \<union> {f. f \<noteq> [] \<and> (\<exists>x \<in> set fs. f = to_lower ul (trim_space x))} \<and>
     distinct (normalize_loop ul fs seen normalized)"
proof (induction ul fs seen normalized rule: normalize_loop.induct)
  case (2 ul f fs seen normalized)
  let ?f = "to_lower ul (trim_space f)"
  consider "?f = []" | "?f \<noteq> []" "?f \<in> set seen" | "?f \<noteq> []" "?f \<notin> set seen" by blast
  then show ?case
  proof cases
    case 1
    with "2.IH"(1) "2.prems" show ?thesis by (auto simp: Let_def)
  next
    case 2
    with "2.IH"(2) "2.prems" show ?thesis by (auto simp: Let_def)
  next
    case 3
    with "2.IH"(3) "2.prems" show ?thesis by (auto simp: Let_def)
  qed
qed simp

lemma set_normalizeFragments:
  "set (normalizeFragments ul fs) = {f. f \<noteq> [] \<and> (\<exists>x \<in> set fs. f = to_lower ul (trim_space x))}"
  "distinct (normalizeFragments ul fs)"
  using normalize_loop_spec [of "[]" "[]" ul fs] by (simp_all add: normalizeFragments_def)

lemma IsSensitiveKey_iff:
  "IsSensitiveKey ul (newRedactor ul uf extra) key \<longleftrightarrow>
     (\<exists>x \<in> set (defaultSensitiveKeyFragments @ extra).
        to_lower ul (trim_space x) \<noteq> [] \<and>
        sublist (to_lower ul (trim_space x)) (to_lower ul (trim_space key)))"
  by (auto simp: IsSensitiveKey_def newRedactor_def Let_def list_ex_iff set_normalizeFragments contains_iff)

lemma to_lower_Cons_ascii:
  "byte c < 128 \<Longrightarrow> to_lower ul (c # s) = lower_ascii c # to_lower ul s"
  by (subst to_lower_def, subst map_runes.simps) (simp add: utf8_width_def to_lower_def)

lemma to_lower_Nil [simp]: "to_lower ul [] = []"
  by (simp add: to_lower_def map_runes.simps)

section \<open>What redaction leaves\<close>

text \<open>
  Every map entry under a sensitive key, and both sides of a change of a sensitive field, carry
  the mark, at any depth the code looks into.  The code looks into \<open>Fields\<close>, \<open>map[string]any\<close>,
  \<open>[]any\<close> and \<open>[]Change\<close>; a value of another type (\<open>map[string]string\<close>, \<open>http.Header\<close>, a struct,
  a slice of maps) is opaque to it, and nothing is said here of the keys inside such a value:
  it is masked as a whole under a sensitive key and passes as it is under any other
  (\<open>opaque_value_passes\<close>).
\<close>

fun masked :: "(string \<Rightarrow> bool) \<Rightarrow> gval \<Rightarrow> bool"
  and masked_values :: "(string \<Rightarrow> bool) \<Rightarrow> gval list \<Rightarrow> bool"
  and masked_entries :: "(string \<Rightarrow> bool) \<Rightarrow> entries \<Rightarrow> bool"
  and masked_changes :: "(string \<Rightarrow> bool) \<Rightarrow> change list \<Rightarrow> bool"
where
  "masked sens (GMap m) = (case m of None \<Rightarrow> True | Some kvs \<Rightarrow> masked_entries sens kvs)"
| "masked sens (GFields m) = (case m of None \<Rightarrow> True | Some kvs \<Rightarrow> masked_entries sens kvs)"
| "masked sens (GSlice m) = (case m of None \<Rightarrow> True | Some vs \<Rightarrow> masked_values sens vs)"
| "masked sens (GChanges m) = (case m of None \<Rightarrow> True | Some cs \<Rightarrow> masked_changes sens cs)"
| "masked sens _ = True"
| "masked_values sens [] = True"
| "masked_values sens (v # vs) = (masked sens v \<and> masked_values sens vs)"
| "masked_entries sens [] = True"
| "masked_entries sens ((k, v) # kvs) =
     ((sens k \<longrightarrow> v = GStr redactedValue) \<and> masked sens v \<and> masked_entries sens kvs)"
| "masked_changes sens [] = True"
| "masked_changes sens (Change f x y # cs) =
     ((sens f \<longrightarrow> x \<in> {GNil, GStr redactedValue} \<and> y \<in> {GNil, GStr redactedValue}) \<and>
      masked sens x \<and> masked sens y \<and> masked_changes sens cs)"

lemma redact_masked:
  shows "masked (IsSensitiveKey ul rd) (redact_value ul rd v)"
    and "masked_values (IsSensitiveKey ul rd) (redact_values ul rd vs)"
    and "masked_entries (IsSensitiveKey ul rd) (redact_entries ul rd kvs)"
    and "masked_changes (IsSensitiveKey ul rd) (redact_changes ul rd cs)"
  by (induction ul rd v and ul rd vs and ul rd kvs and ul rd cs
      rule: redact_value_redact_values_redact_entries_redact_changes.induct) auto

lemma RedactNamedValue_masked: "masked (IsSensitiveKey ul rd) (RedactNamedValue ul rd name v)"
  by (simp add: RedactNamedValue_def redact_masked)

lemma RedactFields_masked: "masked (IsSensitiveKey ul rd) (GFields (RedactFields ul rd m))"
  by (cases m) (simp_all add: RedactFields_def redact_masked)

text \<open>Keys and their order survive, and so does the shape: the redacted map is a map over the entries.\<close>

lemma redact_entries_map:
  "redact_entries ul rd kvs =
     map (\<lambda>(k, v). (k, if IsSensitiveKey ul rd k then GStr redactedValue else redact_value ul rd v)) kvs"
  by (induction kvs) auto

lemma redact_entries_keys: "map fst (redact_entries ul rd kvs) = map fst kvs"
  by (simp add: redact_entries_map comp_def case_prod_beta)

lemma redactEvent_fields [stage_simps]:
  "ev_Message (redactEvent ul rd e) = RedactString rd (ev_Message e)"
  "ev_ErrorMessage (redactEvent ul rd e) = RedactString rd (ev_ErrorMessage e)"
  "ev_StackTrace (redactEvent ul rd e) = RedactString rd (ev_StackTrace e)"
  "ev_Reason (redactEvent ul rd e) = RedactString rd (ev_Reason e)"
  "ev_Metadata (redactEvent ul rd e) = RedactFields ul rd (ev_Metadata e)"
  "ev_Data (redactEvent ul rd e) = RedactFields ul rd (ev_Data e)"
  "ev_Changes (redactEvent ul rd e) = redact_value ul rd (ev_Changes e)"
  "ev_OldValue (redactEvent ul rd e) = RedactNamedValue ul rd (ev_FieldName e) (ev_OldValue e)"
  "ev_NewValue (redactEvent ul rd e) = RedactNamedValue ul rd (ev_FieldName e) (ev_NewValue e)"
  "ev_EventID (redactEvent ul rd e) = ev_EventID e"
  "ev_IdempotencyKey (redactEvent ul rd e) = ev_IdempotencyKey e"
  "ev_EventType (redactEvent ul rd e) = ev_EventType e"
  "ev_FieldName (redactEvent ul rd e) = ev_FieldName e"
  by (simp_all add: redactEvent_def)

text \<open>
  The default branch of \<open>RedactValue\<close>: an \<open>http.Header\<close> under an innocent key keeps its credentials,
  and so does every value of a type that the switch does not name.
\<close>

lemma opaque_value_passes:
  "RedactFields (\<lambda>r. r) \<lparr>rd_fragments = defaultSensitiveKeyFragments, rd_pairPattern = None\<rparr>
     (Some [(''headers'', GOther ''http.Header'' (Some ''{\"Authorization\":[\"Basic abc\"]}''))]) =
   Some [(''headers'', GOther ''http.Header'' (Some ''{\"Authorization\":[\"Basic abc\"]}''))] \<and>
   redact_value ul rd (GOther ty enc) = GOther ty enc"
proof -
  let ?rd = "\<lparr>rd_fragments = defaultSensitiveKeyFragments, rd_pairPattern = None\<rparr>"
  have "\<not> IsSensitiveKey (\<lambda>r. r) ?rd ''headers''" by code_simp
  then show ?thesis by (simp add: RedactFields_def)
qed

section \<open>Properties\<close>

text \<open>
  A key is sensitive exactly when, trimmed and in lower case, it contains a normalised
  fragment; the built-in fragments always apply, whatever fragments the configuration adds.
\<close>

theorem sensitive_key_iff:
  "(IsSensitiveKey ul (newRedactor ul uf extra) key \<longleftrightarrow>
     (\<exists>x \<in> set (defaultSensitiveKeyFragments @ extra).
        to_lower ul (trim_space x) \<noteq> [] \<and>
        sublist (to_lower ul (trim_space x)) (to_lower ul (trim_space key)))) \<and>
   {k. IsSensitiveKey ul (newRedactor ul uf []) k} \<subseteq> {k. IsSensitiveKey ul (newRedactor ul uf extra) k}"
  by (auto simp: IsSensitiveKey_iff)

text \<open>
  C11: in what \<open>redactEvent\<close> returns, every map entry with a sensitive key and every change of a
  sensitive field holds the mark, at any depth of \<open>Fields\<close>, \<open>map[string]any\<close>, \<open>[]any\<close> and \<open>[]Change\<close> in
  metadata, data, changes and audit values; with a sensitive \<open>FieldName\<close> both audit values are nil
  or the mark; map keys and their order are kept.  Values of other Go types are not looked into.
\<close>

theorem redactEvent_masks:
  "(\<forall>v \<in> {GFields (ev_Metadata (redactEvent ul rd e)), GFields (ev_Data (redactEvent ul rd e)),
          ev_Changes (redactEvent ul rd e), ev_OldValue (redactEvent ul rd e), ev_NewValue (redactEvent ul rd e)}.
      masked (IsSensitiveKey ul rd) v) \<and>
   (IsSensitiveKey ul rd (ev_FieldName e) \<longrightarrow>
      {ev_OldValue (redactEvent ul rd e), ev_NewValue (redactEvent ul rd e)} \<subseteq> {GNil, GStr redactedValue}) \<and>
   map fst (entries_of (ev_Metadata (redactEvent ul rd e))) = map fst (entries_of (ev_Metadata e)) \<and>
   map fst (entries_of (ev_Data (redactEvent ul rd e))) = map fst (entries_of (ev_Data e))"
  by (auto simp: stage_simps RedactFields_masked redact_masked RedactNamedValue_masked RedactNamedValue_def
      RedactFields_def redact_entries_keys split: option.splits)

lemma redactEvent_masks_witness:
  "ev_OldValue (redactEvent (\<lambda>r. r) \<lparr>rd_fragments = [''token''], rd_pairPattern = None\<rparr>
      (empty_event\<lparr>ev_FieldName := ''API_Token'', ev_OldValue := GStr ''abc''\<rparr>)) \<in> {GNil, GStr redactedValue}"
proof -
  let ?rd = "\<lparr>rd_fragments = [''token''], rd_pairPattern = None\<rparr>"
  have "IsSensitiveKey (\<lambda>r. r) ?rd ''API_Token''" by code_simp
  then show ?thesis
    using redactEvent_masks [of "\<lambda>r. r" ?rd "empty_event\<lparr>ev_FieldName := ''API_Token'', ev_OldValue := GStr ''abc''\<rparr>"]
    by simp
qed

lemma needs_rune_bearer: "needs_rune bearerPattern"
  by (simp add: bearerPattern_def needs_rune_seqs)

abbreviation separator :: regex where
  "separator \<equiv> Rune (\<lambda>x. x = '':'' \<or> x = ''='')"

lemma pair_pattern_separator:
  assumes "sensitivePairPattern uf fs = Some p"
  shows "\<exists>rs. p = seqs rs \<and> separator \<in> set rs"
  using assms unfolding sensitivePairPattern_def
  by (auto split: if_split_asm)

lemma redact_pair_text:
  assumes "\<exists>c \<in> {CHR '':'', CHR ''=''}. c \<in> set m"
  shows "\<exists>name sep secret. m = name @ sep # secret \<and> sep \<in> {CHR '':'', CHR ''=''} \<and>
    CHR '':'' \<notin> set name \<and> CHR ''='' \<notin> set name \<and> redact_pair m = trim_space name @ sep # redactedValue"
proof -
  let ?plain = "\<lambda>c. c \<noteq> CHR '':'' \<and> c \<noteq> CHR ''=''"
  let ?name = "takeWhile ?plain m"
  obtain sep secret where d: "dropWhile ?plain m = sep # secret"
    using assms by (cases "dropWhile ?plain m") (auto simp: dropWhile_eq_Nil_conv)
  then have sep: "sep \<in> {CHR '':'', CHR ''=''}" using hd_dropWhile [of ?plain m] by auto
  have m: "m = ?name @ sep # secret" using takeWhile_dropWhile_id [of ?plain m] d by simp
  have name: "CHR '':'' \<notin> set ?name" "CHR ''='' \<notin> set ?name"
    using set_takeWhileD [of _ ?plain m] by blast+
  have "m ! length ?name = sep" using m by (metis nth_append_length)
  moreover have "?name \<noteq> m" using m by (metis append_self_conv list.distinct(1))
  ultimately have "redact_pair m = trim_space ?name @ sep # redactedValue"
    by (simp add: redact_pair_def Let_def)
  with m sep name show ?thesis by blast
qed

text \<open>
  C38: \<open>RedactString\<close> works through the whole text twice.  The text is cut into matches and gaps: no
  match starts at any rune of a gap or of the rest, and each match is the one the package prefers
  where it starts.  Each bearer match becomes the fixed mark, and each match of the pair pattern
  has the form name, separator, secret and is replaced by the trimmed name, the separator and the
  mark: nothing of a matched secret is kept, and the branch for a match without a separator is
  never taken.
\<close>

theorem RedactString_cuts:
  "\<exists>parts1 rest1 parts2 rest2.
     cut_by bearerPattern value parts1 rest1 \<and>
     (let once = replace_parts (\<lambda>_. ''Bearer [REDACTED]'') parts1 rest1
      in case rd_pairPattern (newRedactor ul uf extra) of
           None \<Rightarrow> RedactString (newRedactor ul uf extra) value = once
         | Some p \<Rightarrow>
             cut_by p once parts2 rest2 \<and>
             RedactString (newRedactor ul uf extra) value = replace_parts redact_pair parts2 rest2 \<and>
             (\<forall>(gap, m) \<in> set parts2. \<exists>name sep secret.
                m = name @ sep # secret \<and> sep \<in> {CHR '':'', CHR ''=''} \<and>
                redact_pair m = trim_space name @ sep # redactedValue))"
proof -
  have start: "(None, x) = at_pos x 0" for x by (simp add: at_pos_def)
  obtain parts1 rest1 where one: "cut_by bearerPattern value parts1 rest1"
      "replace_all bearerPattern (\<lambda>_. ''Bearer [REDACTED]'') (None, value) =
         replace_parts (\<lambda>_. ''Bearer [REDACTED]'') parts1 rest1"
    using replace_all_parts [OF needs_rune_bearer start] by fastforce
  let ?once = "replace_parts (\<lambda>_. ''Bearer [REDACTED]'') parts1 rest1"
  show ?thesis
  proof (cases "rd_pairPattern (newRedactor ul uf extra)")
    case None
    with one show ?thesis
      by (auto simp: RedactString_def ReplaceAllStringFunc_def redactedValue_def)
  next
    case (Some p)
    then have "sensitivePairPattern uf (normalizeFragments ul (defaultSensitiveKeyFragments @ extra)) = Some p"
      by (simp add: newRedactor_def Let_def)
    then obtain rs where p: "p = seqs rs" "separator \<in> set rs"
      using pair_pattern_separator by blast
    then have "needs_rune p" by (auto simp: needs_rune_seqs intro: bexI [of _ separator])
    then obtain parts2 rest2 where two: "cut_by p ?once parts2 rest2"
        "replace_all p redact_pair (None, ?once) = replace_parts redact_pair parts2 rest2"
      using replace_all_parts [OF _ start] rune_start_0 by blast
    have "\<exists>c \<in> {CHR '':'', CHR ''=''}. c \<in> set m" if "(gap, m) \<in> set parts2" for gap m
    proof -
      note member = that
      obtain a q where "snd a = m @ snd q" "q \<in> set (ends (seqs rs) a)"
        using cut_from_match [OF two(1) member] unfolding p(1) by blast
      then show ?thesis
        using seqs_contains_byte [OF p(2), of "{CHR '':'', CHR ''=''}" q a m] by blast
    qed
    then have "\<forall>(gap, m) \<in> set parts2. \<exists>name sep secret.
        m = name @ sep # secret \<and> sep \<in> {CHR '':'', CHR ''=''} \<and>
        redact_pair m = trim_space name @ sep # redactedValue"
      using redact_pair_text by blast
    with one two Some show ?thesis
      by (auto simp: RedactString_def ReplaceAllStringFunc_def redactedValue_def)
  qed
qed

text \<open>The cut of a header line: one gap, one match, nothing left, and the credentials are gone.\<close>

lemma bearer_line_cut: "cut_by bearerPattern ''say bearer abc'' [(''say '', ''bearer abc'')] []"
  by code_simp

lemma RedactString_cuts_witness:
  "RedactString (newRedactor (\<lambda>r. r) (\<lambda>_. []) []) ''say bearer abc'' = ''say Bearer [REDACTED]''"
proof -
  let ?rd = "newRedactor (\<lambda>r. r) (\<lambda>_. []) []" and ?once = "''say Bearer [REDACTED]''"
  obtain parts1 rest1 parts2 rest2 where cut: "cut_by bearerPattern ''say bearer abc'' parts1 rest1"
    and once: "case rd_pairPattern ?rd of
        None \<Rightarrow> RedactString ?rd ''say bearer abc'' = replace_parts (\<lambda>_. ''Bearer [REDACTED]'') parts1 rest1
      | Some p \<Rightarrow> cut_by p (replace_parts (\<lambda>_. ''Bearer [REDACTED]'') parts1 rest1) parts2 rest2 \<and>
          RedactString ?rd ''say bearer abc'' = replace_parts redact_pair parts2 rest2 \<and>
          (\<forall>(gap, m) \<in> set parts2. \<exists>name sep secret.
             m = name @ sep # secret \<and> sep \<in> {CHR '':'', CHR ''=''} \<and>
             redact_pair m = trim_space name @ sep # redactedValue)"
    using RedactString_cuts [of "''say bearer abc''" "\<lambda>r. r" "\<lambda>_. []" "[]"] unfolding Let_def by blast
  have "parts1 = [(''say '', ''bearer abc'')]" "rest1 = []"
    using cut_from_unique [OF cut bearer_line_cut] by simp_all
  then have first: "replace_parts (\<lambda>_. ''Bearer [REDACTED]'') parts1 rest1 = ?once"
    by (simp add: replace_parts_def)
  show ?thesis
  proof (cases "rd_pairPattern ?rd")
    case (Some p)
    then have two: "cut_by p ?once parts2 rest2" "RedactString ?rd ''say bearer abc'' = replace_parts redact_pair parts2 rest2"
        "\<forall>(gap, m) \<in> set parts2. \<exists>name sep secret. m = name @ sep # secret \<and>
          sep \<in> {CHR '':'', CHR ''=''} \<and> redact_pair m = trim_space name @ sep # redactedValue"
      using once first by simp_all
    have "parts2 = []"
    proof (rule ccontr)
      assume "parts2 \<noteq> []"
      then obtain gap m where "(gap, m) \<in> set parts2" by (cases parts2) auto
      with two(3) obtain sep where sep: "sep \<in> {CHR '':'', CHR ''=''}" "sep \<in> set m" by fastforce
      then have "sep \<in> set ?once"
        using cut_from_text [OF two(1)] \<open>(gap, m) \<in> set parts2\<close> by (auto simp: replace_parts_def)
      with sep(1) show False by auto
    qed
    with two(1,2) show ?thesis by (simp add: replace_parts_def)
  qed (use once first in simp)
qed

definition two_fragment_redactor :: redactor where
  "two_fragment_redactor = \<lparr>rd_fragments = [''cookie'', ''cvv''],
     rd_pairPattern = sensitivePairPattern (\<lambda>_. []) [''cookie'', ''cvv'']\<rparr>"

text \<open>
  What the redactor lets through, shown with two of the built-in fragments.  The pair pattern
  takes one word as the secret, so what follows the first blank (the credentials after
  \<open>Authorization: Basic\<close>, the second cookie) stays in the text; the elements of a \<open>[]string\<close>
  are not looked at; and redacting a text twice adds a bracket.
\<close>

theorem redaction_gaps:
  "RedactString two_fragment_redactor ''Cookie: a b'' = ''Cookie:[REDACTED] b'' \<and>
   redact_value ul rd (GStrings (Some [''cvv=123''])) = GStrings (Some [''cvv=123'']) \<and>
   RedactString two_fragment_redactor (RedactString two_fragment_redactor ''cvv=1'') = ''cvv=[REDACTED]]''"
proof -
  have "RedactString two_fragment_redactor ''Cookie: a b'' = ''Cookie:[REDACTED] b''"
    by code_simp
  moreover have "RedactString two_fragment_redactor ''cvv=1'' = ''cvv=[REDACTED]''"
    by code_simp
  moreover have "RedactString two_fragment_redactor ''cvv=[REDACTED]'' = ''cvv=[REDACTED]]''"
    by code_simp
  ultimately show ?thesis by simp
qed

end
