(* ===== verification/Event_Validation.thy ===== *)
theory Event_Validation
  imports Go_Time Sdk_Errors
begin

text \<open>
  \<open>logcenter/validation.go\<close>.  A Go error is \<open>Some\<close>, nil is None.  \<open>quote\<close> is the library's \<open>%q\<close>
  formatting, which only appears in one message.
\<close>

section \<open>The code\<close>

definition allowedLevels :: "string list" where
  "allowedLevels = [LevelDebug, LevelInfo, LevelWarn, LevelError, LevelFatal]"

definition allowedStatuses :: "string list" where
  "allowedStatuses = [StatusStarted, StatusSuccess, StatusFailed, StatusTimeout, StatusCanceled,
     StatusIgnored, StatusRetrying]"

definition allowedClassifications :: "string list" where
  "allowedClassifications = [ClassificationOperational, ClassificationSecurity,
     ClassificationAudit, ClassificationCritical, ClassificationPrivacy]"

definition allowedRetentionHints :: "string list" where
  "allowedRetentionHints = [RetentionHintDefault, RetentionHintShort, RetentionHintStandard,
     RetentionHintLong, RetentionHintAudit, RetentionHintPrivacy]"

text \<open>\<open>if err := c; err != nil { return err }\<close> for one check after the other.\<close>

fun first_error :: "go_error option list \<Rightarrow> go_error option" where
  "first_error [] = None"
| "first_error (None # cs) = first_error cs"
| "first_error (Some e # cs) = Some e"

definition requiredEventField :: "string \<Rightarrow> go_error option" where
  "requiredEventField field = Some (InvalidEvent (field @ '' is required''))"

text \<open>\<open>if strings.TrimSpace(value) == "" { return requiredEventField(field) }\<close>.\<close>

definition required :: "string \<Rightarrow> string \<Rightarrow> go_error option" where
  "required field value = (if trim_space value = [] then requiredEventField field else None)"

definition parseRequiredEventTime :: "string \<Rightarrow> string \<Rightarrow> go_error option" where
  "parseRequiredEventTime field value =
     (if trim_space value = [] then requiredEventField field
      else if \<not> rfc3339_ok value then Some (InvalidEvent (field @ '' must be RFC3339''))
      else None)"

definition validateJSONValue :: "string \<Rightarrow> gval \<Rightarrow> go_error option" where
  "validateJSONValue field v =
     (if v = GNil then None
      else if json_val v = None then Some (InvalidEvent (field @ '' must be valid JSON''))
      else None)"

definition validateClassification :: "string \<Rightarrow> go_error option" where
  "validateClassification classification =
     (let c = trim_space classification
      in if c = [] then None
         else if c \<notin> set allowedClassifications then
           Some (InvalidEvent ''classification is invalid'')
         else None)"

definition validateRetentionHint :: "string \<Rightarrow> go_error option" where
  "validateRetentionHint hint =
     (let h = trim_space hint
      in if h = [] then None
         else if h \<notin> set allowedRetentionHints then
           Some (InvalidEvent ''retention_hint is invalid'')
         else None)"

definition validateStatus :: "string \<Rightarrow> go_error option" where
  "validateStatus status =
     (if trim_space status = [] then requiredEventField ''status''
      else if status \<notin> set allowedStatuses then Some (InvalidEvent ''status is invalid'')
      else None)"

definition validateDuration :: "int option \<Rightarrow> go_error option" where
  "validateDuration duration =
     (case duration of
        None \<Rightarrow> requiredEventField ''duration_ms''
      | Some d \<Rightarrow>
        if d < 0 then Some (InvalidEvent ''duration_ms cannot be negative'') else None)"

definition changes_empty :: "go_error option" where
  "changes_empty = Some (InvalidEvent ''changes cannot be empty'')"

definition validateChanges :: "gval \<Rightarrow> go_error option" where
  "validateChanges v =
     (case v of
        GNil \<Rightarrow> None
      | GChanges cs \<Rightarrow> if entries_of cs = [] then changes_empty else validateJSONValue ''changes'' v
      | GSlice vs \<Rightarrow> if entries_of vs = [] then changes_empty else validateJSONValue ''changes'' v
      | GMap m \<Rightarrow> if entries_of m = [] then changes_empty else validateJSONValue ''changes'' v
      | GFields m \<Rightarrow> if entries_of m = [] then changes_empty else validateJSONValue ''changes'' v
      | _ \<Rightarrow> Some (InvalidEvent ''changes must be object or array''))"

definition validateRequestStartedEvent :: "event \<Rightarrow> go_error option" where
  "validateRequestStartedEvent e = first_error
    [required ''request_id'' (ev_RequestID e),
     required ''trace_id'' (ev_TraceID e),
     required ''operation'' (ev_Operation e),
     parseRequiredEventTime ''started_at'' (ev_StartedAt e)]"

definition validateRequestFinishedEvent :: "event \<Rightarrow> go_error option" where
  "validateRequestFinishedEvent e = first_error
    [required ''request_id'' (ev_RequestID e),
     required ''trace_id'' (ev_TraceID e),
     validateStatus (ev_Status e),
     parseRequiredEventTime ''finished_at'' (ev_FinishedAt e),
     validateDuration (ev_DurationMS e)]"

definition validateSpanEvent :: "event \<Rightarrow> go_error option" where
  "validateSpanEvent e = first_error
    [required ''trace_id'' (ev_TraceID e),
     required ''span_id'' (ev_SpanID e),
     required ''name'' (ev_Name e),
     parseRequiredEventTime ''started_at'' (ev_StartedAt e),
     parseRequiredEventTime ''finished_at'' (ev_FinishedAt e),
     validateDuration (ev_DurationMS e),
     validateStatus (ev_Status e)]"

definition validateLogEvent :: "event \<Rightarrow> go_error option" where
  "validateLogEvent e = first_error
    [required ''level'' (ev_Level e),
     if ev_Level e \<notin> set allowedLevels then Some (InvalidEvent ''level is invalid'') else None,
     required ''message'' (ev_Message e)]"

definition validateErrorEvent :: "event \<Rightarrow> go_error option" where
  "validateErrorEvent e = first_error
    [if trim_space (ev_ErrorCode e) = [] \<and> trim_space (ev_ErrorMessage e) = []
     then Some (InvalidEvent ''error_code or error_message is required'') else None,
     required ''severity'' (ev_Severity e)]"

definition validateAuditEvent :: "event \<Rightarrow> go_error option" where
  "validateAuditEvent e = first_error
    [required ''action'' (ev_Action e),
     required ''entity_type'' (ev_EntityType e),
     required ''entity_id'' (ev_EntityID e),
     if ev_Changes e = GNil \<and> ev_OldValue e = GNil \<and> ev_NewValue e = GNil
     then Some (InvalidEvent ''changes or old_value/new_value is required'') else None,
     validateChanges (ev_Changes e),
     validateJSONValue ''old_value'' (ev_OldValue e),
     validateJSONValue ''new_value'' (ev_NewValue e)]"

definition validateFiscalProviderExchangeEvent :: "event \<Rightarrow> go_error option" where
  "validateFiscalProviderExchangeEvent e = first_error
    [required ''operation'' (ev_Operation e),
     if entries_of (ev_Data e) = [] then requiredEventField ''data'' else None]"

definition validate_by_type :: "(string \<Rightarrow> string) \<Rightarrow> event \<Rightarrow> go_error option" where
  "validate_by_type quote e =
     (let t = ev_EventType e
      in if t = EventTypeRequestStarted then validateRequestStartedEvent e
         else if t = EventTypeRequestFinished then validateRequestFinishedEvent e
         else if t = EventTypeSpan then validateSpanEvent e
         else if t = EventTypeLogEvent then validateLogEvent e
         else if t = EventTypeErrorEvent then validateErrorEvent e
         else if t = EventTypeAuditEvent then validateAuditEvent e
         else if t = EventTypeExternalProviderExchange \<or> t = EventTypeFiscalProviderExchange
         then validateFiscalProviderExchangeEvent e
         else Some (InvalidEvent (''unsupported event_type '' @ quote t)))"

definition ValidateEvent :: "(string \<Rightarrow> string) \<Rightarrow> event \<Rightarrow> go_error option" where
  "ValidateEvent quote e = first_error
    [if trim_space (ev_IdempotencyKey e) \<noteq> [] \<and>
        trim_space (ev_EventID e) \<noteq> trim_space (ev_IdempotencyKey e)
     then Some (InvalidEvent ''idempotency_key must match event_id when both are set'') else None,
     required ''event_id'' (ev_EventID e),
     required ''event_type'' (ev_EventType e),
     parseRequiredEventTime ''occurred_at'' (ev_OccurredAt e),
     required ''environment'' (ev_Environment e),
     required ''service'' (ev_Service e),
     validateClassification (ev_Classification e),
     validateRetentionHint (ev_RetentionHint e),
     validateJSONValue ''metadata'' (GFields (ev_Metadata e)),
     validateJSONValue ''data'' (GFields (ev_Data e)),
     validate_by_type quote e]"

section \<open>The specification\<close>

text \<open>What an event of each type must say, as tables: texts that are not blank, times, and a rule.\<close>

definition supported_types :: "string list" where
  "supported_types = [EventTypeRequestStarted, EventTypeRequestFinished, EventTypeSpan,
     EventTypeLogEvent, EventTypeErrorEvent, EventTypeAuditEvent,
     EventTypeExternalProviderExchange, EventTypeFiscalProviderExchange]"

definition exchange_types :: "string list" where
  "exchange_types = [EventTypeExternalProviderExchange, EventTypeFiscalProviderExchange]"

definition type_texts :: "event \<Rightarrow> string list" where
  "type_texts e =
     (let t = ev_EventType e
      in if t = EventTypeRequestStarted then [ev_RequestID e, ev_TraceID e, ev_Operation e]
         else if t = EventTypeRequestFinished then [ev_RequestID e, ev_TraceID e]
         else if t = EventTypeSpan then [ev_TraceID e, ev_SpanID e, ev_Name e]
         else if t = EventTypeLogEvent then [ev_Message e]
         else if t = EventTypeErrorEvent then [ev_Severity e]
         else if t = EventTypeAuditEvent then [ev_Action e, ev_EntityType e, ev_EntityID e]
         else [ev_Operation e])"

definition type_times :: "event \<Rightarrow> string list" where
  "type_times e =
     (let t = ev_EventType e
      in if t = EventTypeRequestStarted then [ev_StartedAt e]
         else if t = EventTypeRequestFinished then [ev_FinishedAt e]
         else if t = EventTypeSpan then [ev_StartedAt e, ev_FinishedAt e]
         else [])"

definition timed :: "event \<Rightarrow> bool" where
  "timed e \<longleftrightarrow> ev_Status e \<in> set allowedStatuses \<and> (\<exists>d. ev_DurationMS e = Some d \<and> 0 \<le> d)"

definition encodable :: "gval \<Rightarrow> bool" where
  "encodable v \<longleftrightarrow> json_val v \<noteq> None"

text \<open>Changes are nil or a non-empty object or array.\<close>

definition proper_change_set :: "gval \<Rightarrow> bool" where
  "proper_change_set v = (case v of
     GNil \<Rightarrow> True
   | GChanges (Some cs) \<Rightarrow> cs \<noteq> []
   | GSlice (Some vs) \<Rightarrow> vs \<noteq> []
   | GMap (Some m) \<Rightarrow> m \<noteq> []
   | GFields (Some m) \<Rightarrow> m \<noteq> []
   | _ \<Rightarrow> False)"

definition type_rule :: "event \<Rightarrow> bool" where
  "type_rule e =
     (let t = ev_EventType e
      in if t = EventTypeRequestFinished \<or> t = EventTypeSpan then timed e
         else if t = EventTypeLogEvent then ev_Level e \<in> set allowedLevels
         else if t = EventTypeErrorEvent then \<not> blank (ev_ErrorCode e) \<or> \<not> blank (ev_ErrorMessage e)
         else if t = EventTypeAuditEvent then
           \<not> (ev_Changes e = GNil \<and> ev_OldValue e = GNil \<and> ev_NewValue e = GNil) \<and>
           proper_change_set (ev_Changes e) \<and>
           (\<forall>v \<in> {ev_Changes e, ev_OldValue e, ev_NewValue e}. encodable v)
         else if t \<in> set exchange_types then entries_of (ev_Data e) \<noteq> []
         else True)"

definition well_formed_event :: "event \<Rightarrow> bool" where
  "well_formed_event e \<longleftrightarrow>
     ev_EventType e \<in> set supported_types \<and>
     (\<forall>s \<in> set ([ev_EventID e, ev_Environment e, ev_Service e] @ type_texts e). \<not> blank s) \<and>
     (\<forall>s \<in> set (ev_OccurredAt e # type_times e). \<not> blank s \<and> rfc3339_ok s) \<and>
     (blank (ev_IdempotencyKey e) \<or> trim_space (ev_IdempotencyKey e) = trim_space (ev_EventID e)) \<and>
     (blank (ev_Classification e) \<or> trim_space (ev_Classification e) \<in> set allowedClassifications) \<and>
     (blank (ev_RetentionHint e) \<or> trim_space (ev_RetentionHint e) \<in> set allowedRetentionHints) \<and>
     encodable (GFields (ev_Metadata e)) \<and> encodable (GFields (ev_Data e)) \<and> type_rule e"

lemma first_error_None: "first_error cs = None \<longleftrightarrow> (\<forall>c \<in> set cs. c = None)"
  by (induction cs rule: first_error.induct) auto

lemma first_error_mem: "first_error cs = Some err \<Longrightarrow> Some err \<in> set cs"
  by (induction cs rule: first_error.induct) auto

lemma required_None: "required f v = None \<longleftrightarrow> \<not> blank v"
  by (simp add: required_def requiredEventField_def blank_def)

lemma time_None: "parseRequiredEventTime f v = None \<longleftrightarrow> \<not> blank v \<and> rfc3339_ok v"
  by (simp add: parseRequiredEventTime_def requiredEventField_def blank_def)

lemma json_None: "validateJSONValue f v = None \<longleftrightarrow> encodable v"
  by (auto simp: validateJSONValue_def encodable_def)

lemma allowed_not_blank:
  "\<forall>s \<in> set (allowedStatuses @ allowedLevels @ supported_types). \<not> blank s"
  by code_simp

lemma status_None: "validateStatus s = None \<longleftrightarrow> s \<in> set allowedStatuses"
  using allowed_not_blank by (auto simp: validateStatus_def requiredEventField_def blank_def)

lemma level_not_blank: "s \<in> set allowedLevels \<Longrightarrow> \<not> blank s"
  using allowed_not_blank by simp

lemma duration_None: "validateDuration d = None \<longleftrightarrow> (\<exists>n. d = Some n \<and> 0 \<le> n)"
  by (auto simp: validateDuration_def requiredEventField_def split: option.split)

lemma classification_None:
  "validateClassification c = None \<longleftrightarrow> blank c \<or> trim_space c \<in> set allowedClassifications"
  by (simp add: validateClassification_def Let_def blank_def)

lemma hint_None:
  "validateRetentionHint c = None \<longleftrightarrow> blank c \<or> trim_space c \<in> set allowedRetentionHints"
  by (simp add: validateRetentionHint_def Let_def blank_def)

lemma changes_None: "validateChanges v = None \<longleftrightarrow> proper_change_set v \<and> encodable v"
  by (cases v) (auto simp: validateChanges_def proper_change_set_def changes_empty_def json_None
      encodable_def split: option.splits)

lemmas check_None = first_error_None required_None time_None json_None status_None duration_None
  classification_None hint_None changes_None

lemma validate_by_type_None:
  "validate_by_type quote e = None \<longleftrightarrow>
     ev_EventType e \<in> set supported_types \<and> (\<forall>s \<in> set (type_texts e). \<not> blank s) \<and>
     (\<forall>s \<in> set (type_times e). \<not> blank s \<and> rfc3339_ok s) \<and> type_rule e"
proof -
  consider "ev_EventType e = EventTypeRequestStarted" | "ev_EventType e = EventTypeRequestFinished"
    | "ev_EventType e = EventTypeSpan" | "ev_EventType e = EventTypeLogEvent"
    | "ev_EventType e = EventTypeErrorEvent" | "ev_EventType e = EventTypeAuditEvent"
    | "ev_EventType e = EventTypeExternalProviderExchange"
    | "ev_EventType e = EventTypeFiscalProviderExchange"
    | "ev_EventType e \<notin> set supported_types"
    by (auto simp: supported_types_def)
  then show ?thesis
  proof cases
    case 4
    then show ?thesis using level_not_blank
      by (auto simp: validate_by_type_def validateLogEvent_def check_None supported_types_def
          type_texts_def type_times_def type_rule_def event_type_defs)
  next
    case 6
    then show ?thesis
      by (auto simp: validate_by_type_def validateAuditEvent_def check_None supported_types_def
          type_texts_def type_times_def type_rule_def event_type_defs)
  next
    case 9
    then show ?thesis by (auto simp: validate_by_type_def supported_types_def Let_def)
  qed (auto simp: validate_by_type_def validateRequestStartedEvent_def validateRequestFinishedEvent_def
      validateSpanEvent_def validateErrorEvent_def validateFiscalProviderExchangeEvent_def check_None
      supported_types_def exchange_types_def type_texts_def type_times_def type_rule_def timed_def
      requiredEventField_def event_type_defs blank_def)
qed

lemma ValidateEvent_spec: "ValidateEvent quote e = None \<longleftrightarrow> well_formed_event e"
proof -
  have "ev_EventType e \<in> set supported_types \<Longrightarrow> \<not> blank (ev_EventType e)"
    using allowed_not_blank by simp
  moreover have "ValidateEvent quote e = None \<longleftrightarrow>
      (blank (ev_IdempotencyKey e) \<or> trim_space (ev_EventID e) = trim_space (ev_IdempotencyKey e)) \<and>
      \<not> blank (ev_EventID e) \<and> \<not> blank (ev_EventType e) \<and>
      \<not> blank (ev_OccurredAt e) \<and> rfc3339_ok (ev_OccurredAt e) \<and>
      \<not> blank (ev_Environment e) \<and> \<not> blank (ev_Service e) \<and>
      (blank (ev_Classification e) \<or> trim_space (ev_Classification e) \<in> set allowedClassifications) \<and>
      (blank (ev_RetentionHint e) \<or> trim_space (ev_RetentionHint e) \<in> set allowedRetentionHints) \<and>
      encodable (GFields (ev_Metadata e)) \<and> encodable (GFields (ev_Data e)) \<and>
      validate_by_type quote e = None"
    by (simp add: ValidateEvent_def check_None blank_def)
  ultimately show ?thesis
    unfolding validate_by_type_None well_formed_event_def by auto
qed

text \<open>
  C16: \<open>ValidateEvent\<close> accepts exactly the well-formed events, as the tables of the specification
  state them: the texts and times each event type requires, the known types, levels, statuses,
  classifications and retention hints, an idempotency key that matches the event id, and values
  that encode to JSON.
\<close>

theorem ValidateEvent_iff: "ValidateEvent quote e = None \<longleftrightarrow> well_formed_event e"
  by (rule ValidateEvent_spec)

lemma checks_invalid:
  "required f v = Some err \<Longrightarrow> \<exists>why. err = InvalidEvent why"
  "parseRequiredEventTime f v = Some err \<Longrightarrow> \<exists>why. err = InvalidEvent why"
  "validateJSONValue f x = Some err \<Longrightarrow> \<exists>why. err = InvalidEvent why"
  "validateStatus v = Some err \<Longrightarrow> \<exists>why. err = InvalidEvent why"
  "validateDuration d = Some err \<Longrightarrow> \<exists>why. err = InvalidEvent why"
  "validateClassification v = Some err \<Longrightarrow> \<exists>why. err = InvalidEvent why"
  "validateRetentionHint v = Some err \<Longrightarrow> \<exists>why. err = InvalidEvent why"
  "validateChanges x = Some err \<Longrightarrow> \<exists>why. err = InvalidEvent why"
  by (auto simp: required_def requiredEventField_def parseRequiredEventTime_def validateJSONValue_def
      validateStatus_def validateDuration_def validateClassification_def validateRetentionHint_def
      validateChanges_def changes_empty_def Let_def split: if_splits option.splits gval.splits)

lemma validate_by_type_invalid:
  "validate_by_type quote e = Some err \<Longrightarrow> \<exists>why. err = InvalidEvent why"
  unfolding validate_by_type_def Let_def validateRequestStartedEvent_def
    validateRequestFinishedEvent_def validateSpanEvent_def validateLogEvent_def
    validateErrorEvent_def validateAuditEvent_def validateFiscalProviderExchangeEvent_def
  by (auto dest!: first_error_mem checks_invalid [OF sym] simp: requiredEventField_def
      split: if_split_asm)

lemma ValidateEvent_invalid: "ValidateEvent quote e = Some err \<Longrightarrow> \<exists>why. err = InvalidEvent why"
  unfolding ValidateEvent_def
  by (auto dest!: first_error_mem checks_invalid [OF sym] validate_by_type_invalid [OF sym]
      split: if_split_asm)

end
