(* ===== verification/File_System.thy ===== *)
theory File_System
  imports Sdk_Errors
begin

text \<open>
  The part of Go's \<open>os\<close> and \<open>bufio\<close> packages that the outbox and the tamper evidence use.  A file
  system maps paths to contents; directories carry no state.  What the operating system decides
  is the list \<open>fs_outcomes\<close>: every call consumes the next outcome (an exhausted list means that
  calls succeed), so that each call may fail on its own and a write may be cut short.
  \<open>os.CreateTemp\<close> makes a file that did not exist, so temporary files have paths of their own.
\<close>

datatype path = Named string | Temp nat

datatype outcome = Succeeds | Fails string | ShortWrite nat string

record fs =
  fs_files :: "path \<Rightarrow> string option"
  fs_temps :: nat
  fs_outcomes :: "outcome list"

datatype os_error = NotExist | OsError string

fun os_error_text :: "os_error \<Rightarrow> string" where
  "os_error_text NotExist = ''file does not exist''"
| "os_error_text (OsError msg) = msg"

definition wrap_error :: "string \<Rightarrow> os_error \<Rightarrow> go_error" where
  "wrap_error what err = PlainError (what @ '': '' @ os_error_text err)"

definition next_outcome :: "fs \<Rightarrow> outcome \<times> fs" where
  "next_outcome s = (case fs_outcomes s of
     [] \<Rightarrow> (Succeeds, s)
   | r # rs \<Rightarrow> (r, s\<lparr>fs_outcomes := rs\<rparr>))"

text \<open>The error of a call that is not a write, if it fails.\<close>

definition failure :: "outcome \<Rightarrow> os_error option" where
  "failure r = (case r of Succeeds \<Rightarrow> None | Fails msg \<Rightarrow> Some (OsError msg)
     | ShortWrite n msg \<Rightarrow> Some (OsError msg))"

definition os_simple :: "fs \<Rightarrow> os_error option \<times> fs" where
  "os_simple s = (case next_outcome s of (r, s) \<Rightarrow> (failure r, s))"

definition os_MkdirAll :: "fs \<Rightarrow> os_error option \<times> fs" where
  "os_MkdirAll = os_simple"

definition os_Close :: "fs \<Rightarrow> os_error option \<times> fs" where
  "os_Close = os_simple"

text \<open>\<open>os.OpenFile\<close> with create, append, write-only.\<close>

definition os_OpenAppend :: "path \<Rightarrow> fs \<Rightarrow> os_error option \<times> fs" where
  "os_OpenAppend p s = (case os_simple s of
     (Some err, s) \<Rightarrow> (Some err, s)
   | (None, s) \<Rightarrow>
       (None, if fs_files s p = None then s\<lparr>fs_files := (fs_files s)(p \<mapsto> [])\<rparr> else s))"

text \<open>\<open>file.Write\<close> at the end of the file; a short write leaves the first bytes behind.\<close>

definition os_Write :: "path \<Rightarrow> string \<Rightarrow> fs \<Rightarrow> os_error option \<times> fs" where
  "os_Write p text s = (case next_outcome s of
     (r, s) \<Rightarrow>
       (let written = (case r of Succeeds \<Rightarrow> text | Fails msg \<Rightarrow> [] | ShortWrite n msg \<Rightarrow> take n text);
            old = (case fs_files s p of None \<Rightarrow> [] | Some c \<Rightarrow> c)
        in (failure r, s\<lparr>fs_files := (fs_files s)(p \<mapsto> old @ written)\<rparr>)))"

text \<open>
  Open and read: a missing file is \<open>NotExist\<close>.  Reading a file is one call here: an error of the
  operating system in the middle of a scan, which the code reports as \<open>scan outbox\<close> and after which
  it discards what it has read, is an error of this call instead.
\<close>

definition os_Read :: "path \<Rightarrow> fs \<Rightarrow> (os_error + string) \<times> fs" where
  "os_Read p s = (case os_simple s of
     (Some err, s) \<Rightarrow> (Inl err, s)
   | (None, s) \<Rightarrow> (case fs_files s p of None \<Rightarrow> (Inl NotExist, s) | Some c \<Rightarrow> (Inr c, s)))"

definition os_CreateTemp :: "fs \<Rightarrow> (os_error + path) \<times> fs" where
  "os_CreateTemp s = (case os_simple s of
     (Some err, s) \<Rightarrow> (Inl err, s)
   | (None, s) \<Rightarrow>
       (Inr (Temp (fs_temps s)),
        s\<lparr>fs_files := (fs_files s)(Temp (fs_temps s) \<mapsto> []), fs_temps := Suc (fs_temps s)\<rparr>))"

definition os_Remove :: "path \<Rightarrow> fs \<Rightarrow> os_error option \<times> fs" where
  "os_Remove p s = (case os_simple s of
     (Some err, s) \<Rightarrow> (Some err, s)
   | (None, s) \<Rightarrow>
       (if fs_files s p = None then (Some NotExist, s)
        else (None, s\<lparr>fs_files := (fs_files s)(p := None)\<rparr>)))"

definition os_Rename :: "path \<Rightarrow> path \<Rightarrow> fs \<Rightarrow> os_error option \<times> fs" where
  "os_Rename p q s = (case os_simple s of
     (Some err, s) \<Rightarrow> (Some err, s)
   | (None, s) \<Rightarrow>
       (case fs_files s p of
          None \<Rightarrow> (Some NotExist, s)
        | Some c \<Rightarrow> (None, s\<lparr>fs_files := (fs_files s)(p := None, q \<mapsto> c)\<rparr>)))"

text \<open>\<open>replaceFile\<close> of \<open>logcenter/outbox.go\<close>, which the tamper evidence uses too.\<close>

definition replaceFile :: "path \<Rightarrow> path \<Rightarrow> fs \<Rightarrow> go_error option \<times> fs" where
  "replaceFile source target s =
     (case os_Remove target s of
        (err, s) \<Rightarrow>
          (case err of
             Some (OsError msg) \<Rightarrow> (Some (wrap_error ''remove old outbox'' (OsError msg)), s)
           | _ \<Rightarrow>
             (case os_Rename source target s of
                (Some err, s) \<Rightarrow> (Some (wrap_error ''replace outbox'' err), s)
              | (None, s) \<Rightarrow> (None, s))))"

section \<open>Lines\<close>

text \<open>
  \<open>bufio.Scanner\<close> with \<open>ScanLines\<close>: the next line without its end (a carriage return before it
  is dropped too), and what follows it.  A line that does not fit the buffer is an error.
\<close>

datatype scan = ScanEnd | TooLong | Line string string

definition newline :: char where "newline = CHR 0x0A"

definition dropCR :: "string \<Rightarrow> string" where
  "dropCR l = (if l \<noteq> [] \<and> last l = CHR 0x0D then butlast l else l)"

definition next_line :: "int \<Rightarrow> string \<Rightarrow> scan" where
  "next_line maxToken s =
     (if s = [] then ScanEnd
      else
        (let l = takeWhile (\<lambda>c. c \<noteq> newline) s
         in if maxToken \<le> int (length l) then TooLong
            else Line (dropCR l) (drop (Suc (length l)) s)))"

lemma next_line_shorter: "next_line maxToken s = Line l r \<Longrightarrow> length r < length s"
  by (auto simp: next_line_def Let_def split: if_splits)

text \<open>All lines, None when one is too long.\<close>

function scan_all :: "int \<Rightarrow> string \<Rightarrow> string list option" where
  "scan_all maxToken s =
     (case next_line maxToken s of
        ScanEnd \<Rightarrow> Some []
      | TooLong \<Rightarrow> None
      | Line l r \<Rightarrow> map_option ((#) l) (scan_all maxToken r))"
  by pat_completeness auto
termination
  by (relation "measure (\<lambda>(_, s). length s)") (auto dest: next_line_shorter)

declare scan_all.simps [simp del]

definition unlines :: "string list \<Rightarrow> string" where
  "unlines ls = concat (map (\<lambda>l. l @ [newline]) ls)"

text \<open>A line that survives being written and scanned.\<close>

definition line_ok :: "int \<Rightarrow> string \<Rightarrow> bool" where
  "line_ok maxToken l \<longleftrightarrow> newline \<notin> set l \<and> int (length l) < maxToken \<and> dropCR l = l"

lemma next_line_line:
  "line_ok maxToken l \<Longrightarrow> next_line maxToken (l @ newline # r) = Line l r"
proof -
  assume ok: "line_ok maxToken l"
  have "takeWhile (\<lambda>c. c \<noteq> newline) (l @ newline # r) = l"
    using ok by (subst takeWhile_append2) (auto simp: line_ok_def)
  with ok show ?thesis by (simp add: next_line_def line_ok_def)
qed

lemma scan_all_append:
  "list_all (line_ok maxToken) ls \<Longrightarrow>
     scan_all maxToken (unlines ls @ s) = map_option ((@) ls) (scan_all maxToken s)"
proof (induction ls)
  case Nil
  then show ?case by (cases "scan_all maxToken s") (simp_all add: unlines_def)
next
  case (Cons l ls)
  have "unlines (l # ls) @ s = l @ newline # (unlines ls @ s)" by (simp add: unlines_def)
  then have "scan_all maxToken (unlines (l # ls) @ s) =
      map_option ((#) l) (scan_all maxToken (unlines ls @ s))"
    using next_line_line Cons.prems by (subst scan_all.simps) simp
  then show ?case using Cons by (cases "scan_all maxToken s") simp_all
qed

lemma scan_all_unlines: "list_all (line_ok maxToken) ls \<Longrightarrow> scan_all maxToken (unlines ls) = Some ls"
  using scan_all_append [of maxToken ls "[]"] by (simp add: scan_all.simps [of maxToken "[]"] next_line_def)

section \<open>Runs without faults\<close>

lemma no_faults [simp]:
  assumes "fs_outcomes s = []"
  shows "next_outcome s = (Succeeds, s)" and "os_simple s = (None, s)"
    and "os_MkdirAll s = (None, s)" and "os_Close s = (None, s)"
  using assms by (simp_all add: next_outcome_def os_simple_def os_MkdirAll_def os_Close_def failure_def)

section \<open>What the calls leave behind\<close>

lemma os_simple_files [simp]: "fs_files (snd (os_simple s)) = fs_files s"
  by (simp add: os_simple_def next_outcome_def split: list.split)

lemma os_simple_eq: "os_simple s = (r, s') \<Longrightarrow> fs_files s' = fs_files s"
  using os_simple_files [of s] by simp

lemma os_Write_ok:
  "os_Write p t s = (None, s') \<Longrightarrow> fs_files s p = Some c \<Longrightarrow> fs_files s' = (fs_files s)(p \<mapsto> c @ t)"
  by (auto simp: os_Write_def next_outcome_def failure_def Let_def split: list.splits outcome.splits)

lemma os_Write_other:
  "os_Write p t s = (r, s') \<Longrightarrow> q \<noteq> p \<Longrightarrow> fs_files s' q = fs_files s q"
  by (auto simp: os_Write_def next_outcome_def Let_def split: list.splits)

lemma os_Remove_ok: "os_Remove p s = (r, s') \<Longrightarrow> r = None \<or> r = Some NotExist \<Longrightarrow> fs_files s' = (fs_files s)(p := None)"
  by (auto simp: os_Remove_def failure_def os_simple_def fun_eq_iff next_outcome_def
      split: prod.splits option.splits if_splits outcome.splits list.splits)

lemma os_Remove_other: "os_Remove p s = (r, s') \<Longrightarrow> q \<noteq> p \<Longrightarrow> fs_files s' q = fs_files s q"
  by (auto simp: os_Remove_def dest: os_simple_eq split: prod.splits option.splits if_splits)

lemma os_Rename_ok:
  "os_Rename p q s = (None, s') \<Longrightarrow> \<exists>c. fs_files s p = Some c \<and> fs_files s' = (fs_files s)(p := None, q \<mapsto> c)"
  by (auto simp: os_Rename_def dest: os_simple_eq split: prod.splits option.splits)

lemma os_CreateTemp_ok:
  "os_CreateTemp s = (Inr p, s') \<Longrightarrow> (\<exists>n. p = Temp n) \<and> fs_files s' = (fs_files s)(p \<mapsto> [])"
  by (auto simp: os_CreateTemp_def dest: os_simple_eq split: prod.splits option.splits)

lemma replaceFile_ok:
  assumes "replaceFile src tgt s = (None, s')" and "src \<noteq> tgt"
  shows "fs_files s src \<noteq> None \<and> fs_files s' = (fs_files s)(src := None, tgt := fs_files s src)"
proof -
  obtain r s1 where rm: "os_Remove tgt s = (r, s1)" by (cases "os_Remove tgt s")
  with assms(1) have r: "r = None \<or> r = Some NotExist" and rn: "os_Rename src tgt s1 = (None, s')"
    by (auto simp: replaceFile_def split: option.splits os_error.splits prod.splits)
  note files = os_Remove_ok [OF rm r]
  obtain c where "fs_files s1 src = Some c" "fs_files s' = (fs_files s1)(src := None, tgt \<mapsto> c)"
    using os_Rename_ok [OF rn] by blast
  with files assms(2) show ?thesis by (auto simp: fun_eq_iff)
qed

lemma os_Close_files: "os_Close s = (r, s') \<Longrightarrow> fs_files s' = fs_files s"
  "fs_files (snd (os_Close s)) = fs_files s"
  by (simp_all add: os_Close_def os_simple_eq)

lemma replaceFile_error:
  assumes "replaceFile src tgt s = (Some err, s')" and "src \<noteq> tgt"
  shows "fs_files s' tgt = fs_files s tgt \<or>
    fs_files s' tgt = None \<and> (\<exists>e. err = wrap_error ''replace outbox'' e)"
proof -
  obtain r s1 where rm: "os_Remove tgt s = (r, s1)" by (cases "os_Remove tgt s")
  show ?thesis
  proof (cases "r = None \<or> r = Some NotExist")
    case True
    then obtain x where x: "os_Rename src tgt s1 = (Some x, s')" "err = wrap_error ''replace outbox'' x"
      using assms(1) rm by (auto simp: replaceFile_def split: prod.splits option.splits os_error.splits)
    from x(1) have "fs_files s' = fs_files s1"
      by (auto simp: os_Rename_def dest: os_simple_eq split: prod.splits option.splits)
    with os_Remove_ok [OF rm True] x(2) show ?thesis by auto
  next
    case False
    then have "s' = s1" "r \<noteq> None" "r \<noteq> Some NotExist"
      using assms(1) rm by (auto simp: replaceFile_def split: option.splits os_error.splits)
    with rm show ?thesis
      by (auto simp: os_Remove_def dest: os_simple_eq split: prod.splits option.splits if_splits)
  qed
qed

end
