(* ===== verification/Outbox.thy ===== *)
theory Outbox
  imports File_System Sdk_Config Json_Text
begin

text \<open>
  \<open>logcenter/outbox.go\<close>: the durable queue, a file with one JSON event per line.  The mutex makes
  each operation atomic, so an operation is a function on the file system.  \<open>json.Unmarshal\<close> into
  an \<open>Event\<close> is the argument \<open>decode\<close>, None where it returns an error.
\<close>

section \<open>The code\<close>

type_synonym durable_outbox = string

definition newDurableOutbox :: "string \<Rightarrow> durable_outbox option" where
  "newDurableOutbox path = (if path = [] then None else Some path)"

definition maxLine :: int where
  "maxLine = DefaultMaxEventBytes * 2"

text \<open>The loop of \<open>Append\<close>: \<open>json.Encoder\<close> writes one event and its newline at once.\<close>

fun append_events :: "path \<Rightarrow> event list \<Rightarrow> fs \<Rightarrow> go_error option \<times> fs" where
  "append_events p [] s = (None, s)"
| "append_events p (e # es) s =
     (case json_event e of
        None \<Rightarrow> (Some (PlainError ''append outbox event: json: unsupported value''), s)
      | Some t \<Rightarrow>
        (case os_Write p (t @ [newline]) s of
           (Some err, s) \<Rightarrow> (Some (wrap_error ''append outbox event'' err), s)
         | (None, s) \<Rightarrow> append_events p es s))"

definition outbox_Append :: "durable_outbox option \<Rightarrow> event list \<Rightarrow> fs \<Rightarrow> go_error option \<times> fs" where
  "outbox_Append ob es s =
     (case ob of
        None \<Rightarrow> (None, s)
      | Some name \<Rightarrow>
        (if es = [] then (None, s)
         else
           (case os_MkdirAll s of
              (Some err, s) \<Rightarrow> (Some (wrap_error ''create outbox directory'' err), s)
            | (None, s) \<Rightarrow>
              (case os_OpenAppend (Named name) s of
                 (Some err, s) \<Rightarrow> (Some (wrap_error ''open outbox'' err), s)
               | (None, s) \<Rightarrow>
                 (case append_events (Named name) es s of
                    (r, s) \<Rightarrow> (case os_Close s of (_, s) \<Rightarrow> (r, s)))))))"

text \<open>The scan loop of \<open>Peek\<close>: the break comes after the next line has been scanned.\<close>

function peek_loop ::
  "(string \<Rightarrow> event option) \<Rightarrow> int \<Rightarrow> string \<Rightarrow> event list \<Rightarrow> event list option" where
  "peek_loop decode maxEvents text events =
     (case next_line maxLine text of
        ScanEnd \<Rightarrow> Some events
      | TooLong \<Rightarrow> None
      | Line l r \<Rightarrow>
        (if maxEvents > 0 \<and> int (length events) \<ge> maxEvents then Some events
         else case decode l of
             None \<Rightarrow> peek_loop decode maxEvents r events
           | Some e \<Rightarrow> peek_loop decode maxEvents r (events @ [e])))"
  by pat_completeness auto
termination
  by (relation "measure (\<lambda>(_, _, s, _). length s)") (auto dest: next_line_shorter)

declare peek_loop.simps [simp del]

definition outbox_Peek ::
  "(string \<Rightarrow> event option) \<Rightarrow> durable_outbox option \<Rightarrow> int \<Rightarrow> fs \<Rightarrow> (go_error + event list) \<times> fs" where
  "outbox_Peek decode ob maxEvents s =
     (case ob of
        None \<Rightarrow> (Inr [], s)
      | Some name \<Rightarrow>
        (case os_Read (Named name) s of
           (Inl NotExist, s) \<Rightarrow> (Inr [], s)
         | (Inl err, s) \<Rightarrow> (Inl (wrap_error ''open outbox'' err), s)
         | (Inr text, s) \<Rightarrow>
           (case peek_loop decode maxEvents text [] of
              None \<Rightarrow> (Inl (PlainError ''scan outbox: bufio.Scanner: token too long''), s)
            | Some events \<Rightarrow> (Inr events, s))))"

text \<open>
  The rewriting loop of \<open>Remove\<close>: lines that decode to an event with one of the ids are skipped,
  all others are written to the temporary file.  The result counts the lines that were kept.
\<close>

datatype rewrite = RewriteDone nat | RewriteWriteError os_error | RewriteScanError

function rewrite_loop ::
  "(string \<Rightarrow> event option) \<Rightarrow> string list \<Rightarrow> path \<Rightarrow> string \<Rightarrow> nat \<Rightarrow> fs \<Rightarrow> rewrite \<times> fs" where
  "rewrite_loop decode ids tmp text keepCount s =
     (case next_line maxLine text of
        ScanEnd \<Rightarrow> (RewriteDone keepCount, s)
      | TooLong \<Rightarrow> (RewriteScanError, s)
      | Line l r \<Rightarrow>
        (if (case decode l of None \<Rightarrow> False | Some e \<Rightarrow> ev_EventID e \<in> set ids)
         then rewrite_loop decode ids tmp r keepCount s
         else (case os_Write tmp (l @ [newline]) s of
                 (Some err, s) \<Rightarrow> (RewriteWriteError err, s)
               | (None, s) \<Rightarrow> rewrite_loop decode ids tmp r (Suc keepCount) s)))"
  by pat_completeness auto
termination
  by (relation "measure (\<lambda>(_, _, _, s, _, _). length s)") (auto dest: next_line_shorter)

declare rewrite_loop.simps [simp del]

text \<open>\<open>_ = os.Remove(tempPath)\<close> before an error is returned.\<close>

definition discard_temp :: "path \<Rightarrow> fs \<Rightarrow> fs" where
  "discard_temp tmp s = snd (os_Remove tmp s)"

text \<open>After the loop: close both files, then drop the outbox or put the new file in its place.\<close>

definition finish_remove :: "string \<Rightarrow> path \<Rightarrow> nat \<Rightarrow> fs \<Rightarrow> go_error option \<times> fs" where
  "finish_remove name tmp keepCount s =
     (case os_Close s of
        (Some err, s) \<Rightarrow>
          (Some (wrap_error ''close outbox'' err), discard_temp tmp (snd (os_Close s)))
      | (None, s) \<Rightarrow>
        (case os_Close s of
           (Some err, s) \<Rightarrow> (Some (wrap_error ''close temp outbox'' err), discard_temp tmp s)
         | (None, s) \<Rightarrow>
           (if keepCount = 0 then
              (case os_Remove (Named name) (discard_temp tmp s) of
                 (Some (OsError msg), s) \<Rightarrow> (Some (wrap_error ''remove empty outbox'' (OsError msg)), s)
               | (_, s) \<Rightarrow> (None, s))
            else
              (case replaceFile tmp (Named name) s of
                 (Some err, s) \<Rightarrow> (Some err, discard_temp tmp s)
               | (None, s) \<Rightarrow> (None, s)))))"

definition outbox_Remove ::
  "(string \<Rightarrow> event option) \<Rightarrow> durable_outbox option \<Rightarrow> string list \<Rightarrow> fs \<Rightarrow> go_error option \<times> fs" where
  "outbox_Remove decode ob eventIDs s =
     (case ob of
        None \<Rightarrow> (None, s)
      | Some name \<Rightarrow>
        (let ids = filter (\<lambda>i. i \<noteq> []) eventIDs
         in if ids = [] then (None, s)
            else
              (case os_Read (Named name) s of
                 (Inl NotExist, s) \<Rightarrow> (None, s)
               | (Inl err, s) \<Rightarrow> (Some (wrap_error ''open outbox'' err), s)
               | (Inr text, s) \<Rightarrow>
                 (case os_MkdirAll s of
                    (Some err, s) \<Rightarrow> (Some (wrap_error ''create outbox directory'' err), s)
                  | (None, s) \<Rightarrow>
                    (case os_CreateTemp s of
                       (Inl err, s) \<Rightarrow> (Some (wrap_error ''create temp outbox'' err), s)
                     | (Inr tmp, s) \<Rightarrow>
                       (case rewrite_loop decode ids tmp text 0 s of
                          (RewriteWriteError err, s) \<Rightarrow>
                            (Some (wrap_error ''write temp outbox'' err),
                             discard_temp tmp (snd (os_Close s)))
                        | (RewriteScanError, s) \<Rightarrow>
                            (Some (PlainError ''scan outbox: bufio.Scanner: token too long''),
                             discard_temp tmp (snd (os_Close (snd (os_Close s)))))
                        | (RewriteDone keepCount, s) \<Rightarrow> finish_remove name tmp keepCount s))))))"

definition eventIDs :: "event list \<Rightarrow> string list" where
  "eventIDs es = filter (\<lambda>i. i \<noteq> []) (map ev_EventID es)"

definition copyEvents :: "event list \<Rightarrow> event list" where
  "copyEvents es = es"

section \<open>The log behind the file\<close>

definition file_text :: "string \<Rightarrow> fs \<Rightarrow> string" where
  "file_text name s = (case fs_files s (Named name) of None \<Rightarrow> [] | Some c \<Rightarrow> c)"

definition log_events :: "(string \<Rightarrow> event option) \<Rightarrow> string \<Rightarrow> fs \<Rightarrow> event list" where
  "log_events decode name s =
     (case scan_all maxLine (file_text name s) of None \<Rightarrow> [] | Some ls \<Rightarrow> List.map_filter decode ls)"

text \<open>Every line is whole: the file was written by \<open>Append\<close> and \<open>Remove\<close> without a torn write.\<close>

definition log_whole :: "string \<Rightarrow> fs \<Rightarrow> bool" where
  "log_whole name s \<longleftrightarrow> (\<exists>ls. list_all (line_ok maxLine) ls \<and> file_text name s = unlines ls)"

definition storable :: "(string \<Rightarrow> event option) \<Rightarrow> event \<Rightarrow> bool" where
  "storable decode e \<longleftrightarrow> (\<exists>t e'. json_event e = Some t \<and> line_ok maxLine t \<and> decode t = Some e')"

text \<open>An event as the outbox gives it back.\<close>

definition stored :: "(string \<Rightarrow> event option) \<Rightarrow> event \<Rightarrow> event" where
  "stored decode e = the (decode (the (json_event e)))"

lemma unlines_append: "unlines (xs @ ys) = unlines xs @ unlines ys"
  by (simp add: unlines_def)

lemma unlines_eq_Nil: "unlines ls = [] \<longleftrightarrow> ls = []"
  by (auto simp: unlines_def)

lemma log_events_unlines:
  "list_all (line_ok maxLine) ls \<Longrightarrow> file_text name s = unlines ls \<Longrightarrow>
     log_events decode name s = List.map_filter decode ls"
  by (simp add: log_events_def scan_all_unlines)

lemma append_events_ok:
  "append_events p es s = (None, s') \<Longrightarrow> fs_files s p = Some c \<Longrightarrow>
     fs_files s' = (fs_files s)(p \<mapsto> c @ unlines (map (the \<circ> json_event) es)) \<and>
     (\<forall>e \<in> set es. json_event e \<noteq> None)"
proof (induction es arbitrary: s c)
  case Nil
  then show ?case by (auto simp: unlines_def fun_upd_idem)
next
  case (Cons e es)
  then obtain t s1 where t: "json_event e = Some t"
    and w: "os_Write p (t @ [newline]) s = (None, s1)" and r: "append_events p es s1 = (None, s')"
    by (auto split: option.splits prod.splits)
  note f = os_Write_ok [OF w Cons.prems(2)]
  then have "fs_files s1 p = Some (c @ t @ [newline])" by simp
  from Cons.IH [OF r this] f t show ?case by (auto simp: unlines_def fun_eq_iff)
qed

lemma outbox_Append_ok:
  assumes "outbox_Append (Some name) es s = (None, s')"
  shows "file_text name s' = file_text name s @ unlines (map (the \<circ> json_event) es)"
    and "\<forall>e \<in> set es. json_event e \<noteq> None"
proof -
  have "file_text name s' = file_text name s @ unlines (map (the \<circ> json_event) es) \<and>
    (\<forall>e \<in> set es. json_event e \<noteq> None)"
  proof (cases "es = []")
    case True
    with assms show ?thesis by (simp add: outbox_Append_def unlines_def)
  next
    case False
    obtain s1 where m: "os_MkdirAll s = (None, s1)" and
        rest: "(case os_OpenAppend (Named name) s1 of
           (Some err, s) \<Rightarrow> (Some (wrap_error ''open outbox'' err), s)
         | (None, s) \<Rightarrow> (case append_events (Named name) es s of
             (r, s) \<Rightarrow> (case os_Close s of (_, s) \<Rightarrow> (r, s)))) = (None, s')"
      using assms False by (auto simp: outbox_Append_def split: prod.splits option.splits)
    obtain s2 where o: "os_OpenAppend (Named name) s1 = (None, s2)"
      using rest by (auto split: prod.splits option.splits)
    then obtain r s3 where a: "append_events (Named name) es s2 = (r, s3)" "r = None" "s' = snd (os_Close s3)"
      using rest by (cases "append_events (Named name) es s2") (auto split: prod.splits)
    have f1: "fs_files s1 = fs_files s" using os_simple_eq m by (simp add: os_MkdirAll_def)
    have f2: "fs_files s2 (Named name) = Some (file_text name s)"
      using o f1 by (auto simp: os_OpenAppend_def file_text_def dest!: os_simple_eq
          split: prod.splits option.splits if_splits)
    have f3: "fs_files s' = fs_files s3" using a(3) by (simp add: os_Close_def)
    show ?thesis
      using append_events_ok [OF a(1) [unfolded a(2)] f2] f3 by (simp add: file_text_def)
  qed
  then show "file_text name s' = file_text name s @ unlines (map (the \<circ> json_event) es)"
    and "\<forall>e \<in> set es. json_event e \<noteq> None" by simp_all
qed

lemma peek_loop_scan:
  "scan_all maxLine body = Some ls \<Longrightarrow> n \<le> 0 \<or> int (length acc) \<le> n \<Longrightarrow>
     peek_loop decode n body acc =
       Some (if n \<le> 0 then acc @ List.map_filter decode ls else take (nat n) (acc @ List.map_filter decode ls))"
proof (induction decode n body acc arbitrary: ls rule: peek_loop.induct)
  case (1 decode n body acc)
  show ?case
  proof (cases "next_line maxLine body")
    case ScanEnd
    with "1.prems" show ?thesis
      by (subst peek_loop.simps, subst (asm) scan_all.simps) (auto simp: map_filter_simps)
  next
    case TooLong
    with "1.prems" show ?thesis by (subst (asm) scan_all.simps) simp
  next
    case (Line l r)
    then obtain ls' where ls: "ls = l # ls'" "scan_all maxLine r = Some ls'"
      using "1.prems"(1) by (subst (asm) scan_all.simps) auto
    show ?thesis
    proof (cases "n > 0 \<and> int (length acc) \<ge> n")
      case True
      with Line "1.prems" show ?thesis by (subst peek_loop.simps) auto
    next
      case False
      then have le: "n \<le> 0 \<or> int (length (acc @ [e])) \<le> n" for e :: event by auto
      show ?thesis
      proof (cases "decode l")
        case None
        with "1.IH"(1) [OF Line False None ls(2) "1.prems"(2)] Line False ls(1) show ?thesis
          by (subst peek_loop.simps) (simp add: map_filter_simps)
      next
        case (Some e)
        with "1.IH"(2) [OF Line False Some ls(2) le] Line False ls(1) show ?thesis
          by (subst peek_loop.simps) (simp add: map_filter_simps)
      qed
    qed
  qed
qed

definition line_removed :: "(string \<Rightarrow> event option) \<Rightarrow> string list \<Rightarrow> string \<Rightarrow> bool" where
  "line_removed decode ids l = (case decode l of None \<Rightarrow> False | Some e \<Rightarrow> ev_EventID e \<in> set ids)"

abbreviation kept_lines :: "(string \<Rightarrow> event option) \<Rightarrow> string list \<Rightarrow> string list \<Rightarrow> string list" where
  "kept_lines decode ids ls \<equiv> filter (\<lambda>l. \<not> line_removed decode ids l) ls"

lemma kept_lines_events:
  "List.map_filter decode (kept_lines decode ids ls) =
     filter (\<lambda>e. ev_EventID e \<notin> set ids) (List.map_filter decode ls)"
  by (induction ls) (auto simp: map_filter_simps line_removed_def split: option.splits)

lemma rewrite_loop_done:
  "rewrite_loop decode ids tmp body n s = (RewriteDone k, s') \<Longrightarrow> fs_files s tmp = Some w \<Longrightarrow>
     \<exists>ls. scan_all maxLine body = Some ls \<and> k = n + length (kept_lines decode ids ls) \<and>
       fs_files s' = (fs_files s)(tmp \<mapsto> w @ unlines (kept_lines decode ids ls))"
proof (induction decode ids tmp body n s arbitrary: w rule: rewrite_loop.induct)
  case (1 decode ids tmp body n s)
  show ?case
  proof (cases "next_line maxLine body")
    case ScanEnd
    with "1.prems" show ?thesis
      by (subst (asm) rewrite_loop.simps, subst scan_all.simps) (auto simp: unlines_def fun_upd_idem)
  next
    case TooLong
    with "1.prems" show ?thesis by (subst (asm) rewrite_loop.simps) simp
  next
    case (Line l r)
    have scan: "scan_all maxLine body = map_option ((#) l) (scan_all maxLine r)"
      using Line by (subst scan_all.simps) simp
    show ?thesis
    proof (cases "line_removed decode ids l")
      case True
      then have loop: "rewrite_loop decode ids tmp r n s = (RewriteDone k, s')"
        using "1.prems"(1) Line by (subst (asm) rewrite_loop.simps) (simp add: line_removed_def)
      obtain ls where "scan_all maxLine r = Some ls" "k = n + length (kept_lines decode ids ls)"
          "fs_files s' = (fs_files s)(tmp \<mapsto> w @ unlines (kept_lines decode ids ls))"
        using "1.IH"(1) [OF Line True [unfolded line_removed_def] loop "1.prems"(2)] by blast
      moreover have "kept_lines decode ids (l # ls) = kept_lines decode ids ls" using True by simp
      ultimately show ?thesis using scan by (intro exI [of _ "l # ls"]) (simp del: filter.simps)
    next
      case False
      then obtain s1 where w: "os_Write tmp (l @ [newline]) s = (None, s1)"
        and loop: "rewrite_loop decode ids tmp r (Suc n) s1 = (RewriteDone k, s')"
        using "1.prems"(1) Line
        by (subst (asm) rewrite_loop.simps) (auto simp: line_removed_def split: prod.splits option.splits)
      note f = os_Write_ok [OF w "1.prems"(2)]
      then have "fs_files s1 tmp = Some (w @ l @ [newline])" by simp
      from "1.IH"(2) [OF Line False [unfolded line_removed_def] w [symmetric] refl loop this]
      show ?thesis using f False scan by (auto simp: unlines_def fun_eq_iff)
    qed
  qed
qed

lemma rewrite_loop_other:
  "rewrite_loop decode ids tmp body n s = (r, s') \<Longrightarrow> q \<noteq> tmp \<Longrightarrow> fs_files s' q = fs_files s q"
proof (induction decode ids tmp body n s rule: rewrite_loop.induct)
  case (1 decode ids tmp body n s)
  show ?case
  proof (cases "next_line maxLine body")
    case (Line l t)
    show ?thesis
    proof (cases "line_removed decode ids l")
      case True
      with "1" Line show ?thesis by (subst (asm) (3) rewrite_loop.simps) (auto simp: line_removed_def)
    next
      case False
      obtain err s1 where w: "os_Write tmp (l @ [newline]) s = (err, s1)"
        by (cases "os_Write tmp (l @ [newline]) s")
      note same = os_Write_other [OF w "1.prems"(2)]
      show ?thesis
      proof (cases err)
        case None
        have loop: "rewrite_loop decode ids tmp t (Suc n) s1 = (r, s')"
          using "1.prems"(1) Line False w None
          by (subst (asm) rewrite_loop.simps) (simp add: line_removed_def)
        have "(None, s1) = os_Write tmp (l @ [newline]) s" using w None by simp
        from "1.IH"(2) [OF Line False [unfolded line_removed_def] this refl loop "1.prems"(2)] same
        show ?thesis by simp
      next
        case (Some e)
        with "1.prems"(1) Line False w same show ?thesis
          by (subst (asm) rewrite_loop.simps) (simp add: line_removed_def)
      qed
    qed
  qed (use "1.prems" in \<open>subst (asm) rewrite_loop.simps, simp\<close>)+
qed

lemma finish_remove_ok:
  assumes "finish_remove name (Temp n) k s = (None, s')"
  shows "fs_files s' (Named name) = (if k = 0 then None else fs_files s (Temp n))"
proof -
  obtain s1 where c1: "os_Close s = (None, s1)"
    using assms by (auto simp: finish_remove_def split: prod.splits option.splits)
  then obtain s2 where c2: "os_Close s1 = (None, s2)"
    using assms by (auto simp: finish_remove_def split: prod.splits option.splits)
  have f: "fs_files s2 = fs_files s"
    using os_simple_eq c1 c2 by (metis os_Close_def)
  show ?thesis
  proof (cases "k = 0")
    case True
    obtain r s3 where rm: "os_Remove (Named name) (discard_temp (Temp n) s2) = (r, s3)"
      by (cases "os_Remove (Named name) (discard_temp (Temp n) s2)")
    then have "r = None \<or> r = Some NotExist" "s' = s3"
      using assms c1 c2 True by (auto simp: finish_remove_def split: option.splits os_error.splits)
    with os_Remove_ok [OF rm] True show ?thesis by simp
  next
    case False
    then have "replaceFile (Temp n) (Named name) s2 = (None, s')"
      using assms c1 c2 by (auto simp: finish_remove_def split: prod.splits option.splits)
    from replaceFile_ok [OF this] f False show ?thesis by simp
  qed
qed

lemma outbox_Remove_ok:
  assumes "outbox_Remove decode (Some name) ids s = (None, s')" and "log_whole name s"
  defines "ks \<equiv> filter (\<lambda>i. i \<noteq> []) ids"
  shows "log_whole name s' \<and>
    log_events decode name s' = filter (\<lambda>e. ev_EventID e \<notin> set ks) (log_events decode name s)"
proof -
  obtain ls where ls: "list_all (line_ok maxLine) ls" "file_text name s = unlines ls"
    using assms(2) by (auto simp: log_whole_def)
  let ?kept = "kept_lines decode ks ls"
  have goal: ?thesis if "file_text name s' = unlines ?kept"
  proof -
    have ok: "list_all (line_ok maxLine) ?kept" using ls(1) by (auto simp: list_all_iff)
    with that have "log_whole name s'" by (auto simp: log_whole_def)
    then show ?thesis
      using log_events_unlines [OF ok that] log_events_unlines [OF ls] by (simp add: kept_lines_events)
  qed
  show ?thesis
  proof (cases "ks = []")
    case True
    then have "s' = s" using assms(1) by (simp add: outbox_Remove_def ks_def [symmetric])
    moreover have "?kept = ls" using True by (auto simp: line_removed_def filter_id_conv split: option.splits)
    ultimately show ?thesis using ls(2) goal by simp
  next
    case False
    obtain rd s1 where rd: "os_Read (Named name) s = (rd, s1)" by (cases "os_Read (Named name) s")
    then have f1: "fs_files s1 = fs_files s"
      by (auto simp: os_Read_def dest: os_simple_eq split: prod.splits option.splits)
    show ?thesis
    proof (cases rd)
      case (Inl err)
      then have "err = NotExist" "s' = s1"
        using assms(1) False rd by (auto simp: outbox_Remove_def ks_def [symmetric] split: os_error.splits)
      moreover from this rd Inl have "fs_files s1 (Named name) = None"
        by (auto simp: os_Read_def failure_def os_simple_def dest: os_simple_eq
            split: prod.splits option.splits outcome.splits)
      ultimately have "file_text name s' = []" "ls = []"
        using f1 ls(2) unlines_eq_Nil [of ls] by (auto simp: file_text_def)
      then show ?thesis using goal by (simp add: unlines_def)
    next
      case (Inr body)
      then have body: "body = file_text name s"
        using rd by (auto simp: os_Read_def file_text_def dest!: os_simple_eq split: prod.splits option.splits)
      obtain s2 where m: "os_MkdirAll s1 = (None, s2)"
        using assms(1) False rd Inr
        by (auto simp: outbox_Remove_def ks_def [symmetric] split: prod.splits option.splits)
      obtain tmp s3 where t: "os_CreateTemp s2 = (Inr tmp, s3)"
        using assms(1) False rd Inr m
        by (auto simp: outbox_Remove_def ks_def [symmetric] split: prod.splits sum.splits)
      obtain n where n: "tmp = Temp n" "fs_files s3 (Temp n) = Some []"
        using os_CreateTemp_ok [OF t] by auto
      obtain k s4 where w: "rewrite_loop decode ks (Temp n) body 0 s3 = (RewriteDone k, s4)"
        and fin: "finish_remove name (Temp n) k s4 = (None, s')"
        using assms(1) False rd Inr m t n
        by (auto simp: outbox_Remove_def ks_def [symmetric] split: prod.splits rewrite.splits)
      have "scan_all maxLine body = Some ls" using ls body by (simp add: scan_all_unlines)
      with rewrite_loop_done [OF w n(2)]
      have k: "k = length ?kept" "fs_files s4 (Temp n) = Some (unlines ?kept)" by auto
      have "file_text name s' = unlines ?kept"
        using finish_remove_ok [OF fin] k by (auto simp: file_text_def unlines_def)
      then show ?thesis by (rule goal)
    qed
  qed
qed

section \<open>The contract\<close>

text \<open>
  What the client needs of a durable log with errors: a successful append adds the events at the
  end (in the form in which the log gives them back), a successful look shows a prefix, and a
  successful removal drops exactly the entries with one of the keys; a key may be missing.
\<close>

locale durable_log =
  fixes append :: "'e list \<Rightarrow> 's \<Rightarrow> 'x option \<times> 's"
    and peek :: "int \<Rightarrow> 's \<Rightarrow> ('x + 'e list) \<times> 's"
    and remove :: "'k list \<Rightarrow> 's \<Rightarrow> 'x option \<times> 's"
    and whole :: "'s \<Rightarrow> bool"
    and contents :: "'s \<Rightarrow> 'e list"
    and storable :: "'e \<Rightarrow> bool"
    and stored :: "'e \<Rightarrow> 'e"
    and key :: "'e \<Rightarrow> 'k"
    and no_key :: "'k"
  assumes append_adds: "whole s \<Longrightarrow> append es s = (None, s') \<Longrightarrow> \<forall>e \<in> set es. storable e \<Longrightarrow>
      whole s' \<and> contents s' = contents s @ map stored es"
    and peek_takes: "whole s \<Longrightarrow> peek n s = (Inr es, s') \<Longrightarrow>
      whole s' \<and> contents s' = contents s \<and> es = (if n \<le> 0 then contents s else take (nat n) (contents s))"
    and remove_drops: "whole s \<Longrightarrow> remove ks s = (None, s') \<Longrightarrow>
      whole s' \<and> contents s' = filter (\<lambda>e. key e \<notin> set ks \<or> key e = no_key) (contents s)"

text \<open>A history of operations; it ends early when one of them fails.\<close>

datatype ('e, 'k) log_op = Put "'e list" | Look int | Drop "'k list"

fun run_log ::
  "('e list \<Rightarrow> 's \<Rightarrow> 'x option \<times> 's) \<Rightarrow> (int \<Rightarrow> 's \<Rightarrow> ('x + 'e list) \<times> 's) \<Rightarrow>
   ('k list \<Rightarrow> 's \<Rightarrow> 'x option \<times> 's) \<Rightarrow> ('e, 'k) log_op list \<Rightarrow> 's \<Rightarrow> 's option" where
  "run_log put look drp [] s = Some s"
| "run_log put look drp (Put es # ops) s =
     (case put es s of (None, s) \<Rightarrow> run_log put look drp ops s | _ \<Rightarrow> None)"
| "run_log put look drp (Look n # ops) s =
     (case look n s of (Inr _, s) \<Rightarrow> run_log put look drp ops s | _ \<Rightarrow> None)"
| "run_log put look drp (Drop ks # ops) s =
     (case drp ks s of (None, s) \<Rightarrow> run_log put look drp ops s | _ \<Rightarrow> None)"

text \<open>The abstract log: a list.\<close>

fun list_log :: "('e \<Rightarrow> 'e) \<Rightarrow> ('e \<Rightarrow> 'k) \<Rightarrow> 'k \<Rightarrow> ('e, 'k) log_op list \<Rightarrow> 'e list \<Rightarrow> 'e list" where
  "list_log st key no_key [] l = l"
| "list_log st key no_key (Put es # ops) l = list_log st key no_key ops (l @ map st es)"
| "list_log st key no_key (Look n # ops) l = list_log st key no_key ops l"
| "list_log st key no_key (Drop ks # ops) l =
     list_log st key no_key ops (filter (\<lambda>e. key e \<notin> set ks \<or> key e = no_key) l)"

fun put_events :: "('e, 'k) log_op list \<Rightarrow> 'e list" where
  "put_events [] = []"
| "put_events (Put es # ops) = es @ put_events ops"
| "put_events (_ # ops) = put_events ops"

context durable_log
begin

lemma history:
  "run_log append peek remove ops s = Some s' \<Longrightarrow> whole s \<Longrightarrow> \<forall>e \<in> set (put_events ops). storable e \<Longrightarrow>
     whole s' \<and> contents s' = list_log stored key no_key ops (contents s)"
proof (induction ops arbitrary: s)
  case (Cons op ops)
  show ?case
  proof (cases op)
    case (Put es)
    with Cons.prems obtain s1 where "append es s = (None, s1)" "run_log append peek remove ops s1 = Some s'"
      by (auto split: prod.splits option.splits)
    with Put Cons append_adds [of s es s1] show ?thesis by simp
  next
    case (Look n)
    with Cons.prems obtain es s1 where "peek n s = (Inr es, s1)" "run_log append peek remove ops s1 = Some s'"
      by (auto split: prod.splits sum.splits)
    with Look Cons peek_takes [of s n es s1] show ?thesis by simp
  next
    case (Drop ks)
    with Cons.prems obtain s1 where "remove ks s = (None, s1)" "run_log append peek remove ops s1 = Some s'"
      by (auto split: prod.splits option.splits)
    with Drop Cons remove_drops [of s ks s1] show ?thesis by simp
  qed
qed simp

text \<open>Looking at a batch and removing its keys makes the log shorter when the entries have keys.\<close>

lemma progress:
  assumes "whole s" and "peek n s = (Inr es, s1)" and "remove (map key es) s1 = (None, s2)"
    and "es \<noteq> []" and "key (hd es) \<noteq> no_key"
  shows "whole s2 \<and> length (contents s2) < length (contents s) \<and> set (contents s2) \<subseteq> set (contents s)"
proof -
  note p = peek_takes [OF assms(1,2)]
  then have r: "whole s2 \<and> contents s2 = filter (\<lambda>e. key e \<notin> set (map key es) \<or> key e = no_key) (contents s)"
    using remove_drops [of s1 "map key es" s2] assms(3) by simp
  have hd: "hd es \<in> set es" using assms(4) by simp
  have "set es \<subseteq> set (contents s)"
    using conjunct2 [OF conjunct2 [OF p]] set_take_subset [of "nat n" "contents s"]
    by (cases "n \<le> 0") simp_all
  with hd have mem: "hd es \<in> set (contents s)" by blast
  have "length (contents s2) < length (contents s)"
    unfolding conjunct2 [OF r]
    by (rule length_filter_less [OF mem]) (use hd assms(5) in simp)
  with r show ?thesis by simp
qed

text \<open>With distinct keys a batch is removed and nothing else.\<close>

lemma removes_batch:
  assumes "whole s" and "peek n s = (Inr es, s1)" and "remove (map key es) s1 = (None, s2)"
    and "distinct (map key (contents s))" and "\<forall>e \<in> set (contents s). key e \<noteq> no_key"
  shows "contents s = es @ contents s2"
proof -
  note p = peek_takes [OF assms(1,2)]
  then have same: "whole s1" "contents s1 = contents s" by blast+
  obtain tl where tl: "contents s = es @ tl"
    using conjunct2 [OF conjunct2 [OF p]] by (metis append_Nil2 append_take_drop_id)
  have "contents s2 = filter (\<lambda>e. key e \<notin> set (map key es) \<or> key e = no_key) (es @ tl)"
    using remove_drops [OF same(1) assms(3)] same(2) tl by simp
  also have "\<dots> = filter (\<lambda>e. key e \<notin> set (map key es) \<or> key e = no_key) tl"
    using assms(5) tl by (simp add: filter_empty_conv)
  also have "\<dots> = tl"
    using assms(4) tl by (intro filter_True) auto
  finally show ?thesis using tl by simp
qed

end

section \<open>The outbox meets the contract\<close>

lemma map_filter_append: "List.map_filter f (xs @ ys) = List.map_filter f xs @ List.map_filter f ys"
  by (simp add: List.map_filter_def)

lemma log_events_append:
  assumes "log_whole name s" and "\<forall>e \<in> set es. storable decode e"
    and "file_text name s' = file_text name s @ unlines (map (the \<circ> json_event) es)"
  shows "log_whole name s' \<and> log_events decode name s' = log_events decode name s @ map (stored decode) es"
proof -
  obtain ls where ls: "list_all (line_ok maxLine) ls" "file_text name s = unlines ls"
    using assms(1) by (auto simp: log_whole_def)
  let ?ts = "map (the \<circ> json_event) es"
  have ts: "list_all (line_ok maxLine) ?ts" "List.map_filter decode ?ts = map (stored decode) es"
    using assms(2) by (induction es) (auto simp: storable_def stored_def map_filter_simps)
  have ok: "list_all (line_ok maxLine) (ls @ ?ts)" using ls ts by simp
  have whole_text: "file_text name s' = unlines (ls @ ?ts)" using assms(3) ls(2) by (simp add: unlines_append)
  have "log_events decode name s' = log_events decode name s @ map (stored decode) es"
    unfolding log_events_unlines [OF ok whole_text] log_events_unlines [OF ls]
    by (simp add: map_filter_append ts(2))
  moreover have "log_whole name s'" unfolding log_whole_def using ok whole_text by blast
  ultimately show ?thesis by blast
qed

lemma outbox_Peek_ok:
  assumes "log_whole name s" and "outbox_Peek decode (Some name) n s = (Inr es, s')"
  shows "log_whole name s' \<and> log_events decode name s' = log_events decode name s \<and>
    es = (if n \<le> 0 then log_events decode name s else take (nat n) (log_events decode name s))"
proof -
  obtain ls where ls: "list_all (line_ok maxLine) ls" "file_text name s = unlines ls"
    using assms(1) by (auto simp: log_whole_def)
  obtain rd s1 where rd: "os_Read (Named name) s = (rd, s1)" by (cases "os_Read (Named name) s")
  then have f: "fs_files s1 = fs_files s"
    by (auto simp: os_Read_def dest: os_simple_eq split: prod.splits option.splits)
  have s': "s' = s1"
    using assms(2) rd by (auto simp: outbox_Peek_def split: sum.splits os_error.splits option.splits)
  then have same: "file_text name s' = file_text name s" using f by (simp add: file_text_def)
  have "es = (if n \<le> 0 then log_events decode name s else take (nat n) (log_events decode name s))"
  proof (cases rd)
    case (Inl err)
    then have "es = []" "err = NotExist"
      using assms(2) rd by (auto simp: outbox_Peek_def split: os_error.splits)
    moreover from this rd Inl have "fs_files s1 (Named name) = None"
      by (auto simp: os_Read_def failure_def os_simple_def dest: os_simple_eq
          split: prod.splits option.splits outcome.splits)
    ultimately have "es = []" "file_text name s = []" using f by (simp_all add: file_text_def)
    then show ?thesis
      using ls unlines_eq_Nil [of ls] log_events_unlines [OF ls, of decode] by (simp add: map_filter_simps)
  next
    case (Inr body)
    then have "body = file_text name s"
      using rd by (auto simp: os_Read_def file_text_def dest!: os_simple_eq split: prod.splits option.splits)
    then have "scan_all maxLine body = Some ls" using ls by (simp add: scan_all_unlines)
    from peek_loop_scan [OF this, of n "[]" decode] log_events_unlines [OF ls, of decode] assms(2) rd Inr
    show ?thesis by (auto simp: outbox_Peek_def)
  qed
  then show ?thesis using assms(1) same by (simp add: log_whole_def log_events_def)
qed

interpretation obx: durable_log "outbox_Append (Some name)" "outbox_Peek decode (Some name)"
  "outbox_Remove decode (Some name)" "log_whole name" "log_events decode name"
  "storable decode" "stored decode" ev_EventID "[]" for name decode
proof unfold_locales
  fix s es s' assume "log_whole name s" "outbox_Append (Some name) es s = (None, s')"
    "\<forall>e \<in> set es. storable decode e"
  then show "log_whole name s' \<and> log_events decode name s' = log_events decode name s @ map (stored decode) es"
    using log_events_append outbox_Append_ok(1) by blast
next
  fix s n es s' assume "log_whole name s" "outbox_Peek decode (Some name) n s = (Inr es, s')"
  then show "log_whole name s' \<and> log_events decode name s' = log_events decode name s \<and>
      es = (if n \<le> 0 then log_events decode name s else take (nat n) (log_events decode name s))"
    by (rule outbox_Peek_ok)
next
  fix s ks s' assume "log_whole name s" "outbox_Remove decode (Some name) ks s = (None, s')"
  then show "log_whole name s' \<and> log_events decode name s' =
      filter (\<lambda>e. ev_EventID e \<notin> set ks \<or> ev_EventID e = []) (log_events decode name s)"
    using outbox_Remove_ok [of decode name ks s s'] by (auto intro: filter_cong)
qed

section \<open>Faults\<close>

lemma append_events_prefix:
  "append_events p es s = (r, s') \<Longrightarrow> fs_files s p = Some c \<Longrightarrow> \<exists>d. fs_files s' p = Some (c @ d)"
proof (induction es arbitrary: s c)
  case (Cons e es)
  show ?case
  proof (cases "json_event e")
    case None
    with Cons.prems show ?thesis by auto
  next
    case (Some t)
    obtain err s1 where w: "os_Write p (t @ [newline]) s = (err, s1)"
      by (cases "os_Write p (t @ [newline]) s")
    then obtain d where d: "fs_files s1 p = Some (c @ d)"
      using Cons.prems(2) by (auto simp: os_Write_def next_outcome_def Let_def split: list.splits)
    show ?thesis
    proof (cases err)
      case None
      with Cons.IH [OF _ d] Cons.prems(1) Some w show ?thesis by auto
    next
      case (Some x)
      with \<open>json_event e = Some t\<close> Cons.prems(1) w d show ?thesis by auto
    qed
  qed
qed auto

lemma outbox_Append_prefix:
  assumes "outbox_Append (Some name) es s = (r, s')"
  shows "prefix (file_text name s) (file_text name s')"
proof -
  have keep: "file_text name t' = file_text name t" if "os_simple t = (x, t')" for t x t'
    using os_simple_eq [OF that] by (simp add: file_text_def)
  consider (unchanged) "file_text name s' = file_text name s"
    | (written) s1 s2 r3 s3 where "os_simple s = (None, s1)" "os_OpenAppend (Named name) s1 = (None, s2)"
        "append_events (Named name) es s2 = (r3, s3)" "s' = snd (os_simple s3)"
    using assms
    by (auto simp: outbox_Append_def os_MkdirAll_def os_Close_def os_OpenAppend_def dest!: keep
        split: if_splits prod.splits option.splits)
  then show ?thesis
  proof cases
    case unchanged
    then show ?thesis by simp
  next
    case written
    have "fs_files s2 (Named name) = Some (file_text name s)"
      using written(1,2) by (auto simp: os_OpenAppend_def file_text_def dest!: os_simple_eq
          split: prod.splits option.splits if_splits)
    from append_events_prefix [OF written(3) this] written(4) show ?thesis
      by (auto simp: file_text_def)
  qed
qed

lemma discard_temp_named: "fs_files (discard_temp (Temp n) s) (Named name) = fs_files s (Named name)"
  using os_Remove_other [of "Temp n" s] by (simp add: discard_temp_def prod_eq_iff)

lemma finish_remove_error:
  assumes "finish_remove name (Temp n) k s = (Some err, s')"
  shows "fs_files s' (Named name) = fs_files s (Named name) \<or>
    fs_files s' (Named name) = None \<and> (\<exists>e. err = wrap_error ''replace outbox'' e)"
proof -
  obtain r1 s1 where c1: "os_Close s = (r1, s1)" by (cases "os_Close s")
  obtain r2 s2 where c2: "os_Close s1 = (r2, s2)" by (cases "os_Close s1")
  note f = os_Close_files(1) [OF c1] os_Close_files(1) [OF c2]
  show ?thesis
  proof (cases "r1 = None \<and> r2 = None")
    case False
    with assms c1 c2 f show ?thesis
      by (auto simp: finish_remove_def discard_temp_named os_Close_files split: option.splits)
  next
    case True
    show ?thesis
    proof (cases "k = 0")
      case z: True
      obtain r3 s3 where rm: "os_Remove (Named name) (discard_temp (Temp n) s2) = (r3, s3)"
        by (cases "os_Remove (Named name) (discard_temp (Temp n) s2)")
      then have "s' = s3" "r3 \<noteq> None"
        using assms c1 c2 True z by (auto simp: finish_remove_def split: option.splits os_error.splits)
      with rm f show ?thesis
        by (auto simp: os_Remove_def discard_temp_named dest!: os_simple_eq
            split: prod.splits option.splits if_splits)
    next
      case False
      then obtain e s3 where "replaceFile (Temp n) (Named name) s2 = (Some e, s3)" "s' = discard_temp (Temp n) s3" "err = e"
        using assms c1 c2 True by (auto simp: finish_remove_def split: prod.splits option.splits)
      with replaceFile_error [of "Temp n" "Named name" s2 e s3] f show ?thesis
        by (simp add: discard_temp_named)
    qed
  qed
qed

lemma outbox_Remove_error:
  assumes "outbox_Remove decode (Some name) ids s = (Some err, s')"
  shows "fs_files s' (Named name) = fs_files s (Named name) \<or>
    fs_files s' (Named name) = None \<and> (\<exists>e. err = wrap_error ''replace outbox'' e)"
proof -
  define ks where "ks = filter (\<lambda>i. i \<noteq> []) ids"
  obtain rd s1 where rd: "os_Read (Named name) s = (rd, s1)" by (cases "os_Read (Named name) s")
  then have f1: "fs_files s1 = fs_files s"
    by (auto simp: os_Read_def dest: os_simple_eq split: prod.splits option.splits)
  obtain m s2 where m: "os_MkdirAll s1 = (m, s2)" by (cases "os_MkdirAll s1")
  then have f2: "fs_files s2 = fs_files s1" by (simp add: os_MkdirAll_def os_simple_eq)
  obtain t s3 where t: "os_CreateTemp s2 = (t, s3)" by (cases "os_CreateTemp s2")
  show ?thesis
  proof (cases "(\<exists>b. rd = Inr b) \<and> m = None \<and> (\<exists>p. t = Inr p)")
    case False
    have "fs_files s3 = fs_files s2" if "t = Inl e" for e
      using t that by (auto simp: os_CreateTemp_def dest: os_simple_eq split: prod.splits option.splits)
    with assms rd m t f1 f2 False have "fs_files s' = fs_files s"
      by (auto simp: outbox_Remove_def ks_def [symmetric] Let_def
          split: if_splits sum.splits option.splits os_error.splits)
    then show ?thesis by simp
  next
    case True
    then obtain body tmp where ok: "rd = Inr body" "m = None" "t = Inr tmp" by blast
    obtain n where n: "tmp = Temp n" "fs_files s3 (Named name) = fs_files s2 (Named name)"
      using os_CreateTemp_ok [of s2 tmp s3] t ok by auto
    obtain w s4 where w: "rewrite_loop decode ks (Temp n) body 0 s3 = (w, s4)"
      by (cases "rewrite_loop decode ks (Temp n) body 0 s3")
    have f4: "fs_files s4 (Named name) = fs_files s (Named name)"
      using rewrite_loop_other [OF w, of "Named name"] n f1 f2 by simp
    have "ks \<noteq> []" using assms by (auto simp: outbox_Remove_def ks_def [symmetric])
    with assms rd m t ok n w have
      "(case (w, s4) of
          (RewriteWriteError err, s) \<Rightarrow>
            (Some (wrap_error ''write temp outbox'' err), discard_temp (Temp n) (snd (os_Close s)))
        | (RewriteScanError, s) \<Rightarrow>
            (Some (PlainError ''scan outbox: bufio.Scanner: token too long''),
             discard_temp (Temp n) (snd (os_Close (snd (os_Close s)))))
        | (RewriteDone k, s) \<Rightarrow> finish_remove name (Temp n) k s) = (Some err, s')"
      by (simp add: outbox_Remove_def ks_def [symmetric])
    then show ?thesis
      using f4 finish_remove_error [of name n _ s4 err s']
      by (cases w) (auto simp: discard_temp_named os_Close_files)
  qed
qed

section \<open>Properties\<close>

text \<open>
  C14: the outbox file refines a list of events: any history of successful \<open>Append\<close>, \<open>Peek\<close> and
  \<open>Remove\<close> calls leaves exactly the events that the same history leaves in a list, in order, and
  the file stays whole.  \<open>storable\<close> says that the JSON of an event is one line below the scanner's
  limit that the decoder accepts.
\<close>

theorem outbox_history:
  assumes "run_log (outbox_Append (Some name)) (outbox_Peek decode (Some name))
      (outbox_Remove decode (Some name)) ops s = Some s'"
    and "log_whole name s" and "\<forall>e \<in> set (put_events ops). storable decode e"
  shows "log_whole name s' \<and>
    log_events decode name s' = list_log (stored decode) ev_EventID [] ops (log_events decode name s)"
  using obx.history [OF assms] .

text \<open>
  C34: an \<open>Append\<close>, failed or not, leaves everything that was in the file before it, and a \<open>Remove\<close>
  that fails leaves the file as it was, unless its error is that of the rename in \<open>replaceFile\<close>
  (\<open>replace outbox\<close>); then the file may be gone.  No other failure, of opening, creating, reading,
  writing, closing or removing, costs a byte.
\<close>

theorem outbox_errors:
  "(outbox_Append (Some name) es s = (r, s1) \<longrightarrow> prefix (file_text name s) (file_text name s1)) \<and>
   (outbox_Remove decode (Some name) ids s = (Some err, s2) \<longrightarrow>
      fs_files s2 (Named name) = fs_files s (Named name) \<or>
      fs_files s2 (Named name) = None \<and> (\<exists>e. err = wrap_error ''replace outbox'' e))"
proof (intro conjI impI)
  assume "outbox_Append (Some name) es s = (r, s1)"
  then show "prefix (file_text name s) (file_text name s1)" by (rule outbox_Append_prefix)
next
  assume "outbox_Remove decode (Some name) ids s = (Some err, s2)"
  then show "fs_files s2 (Named name) = fs_files s (Named name) \<or>
      fs_files s2 (Named name) = None \<and> (\<exists>e. err = wrap_error ''replace outbox'' e)"
    by (rule outbox_Remove_error)
qed

definition disk :: "string \<Rightarrow> string \<Rightarrow> outcome list \<Rightarrow> fs" where
  "disk name body outcomes =
     \<lparr>fs_files = (\<lambda>p. if p = Named name then Some body else None), fs_temps = 0, fs_outcomes = outcomes\<rparr>"

lemma log_events_ok_disk: "file_text name (disk name body outcomes) = body"
  by (simp add: disk_def file_text_def)

text \<open>A decoder for the examples: one letter is the event with that id.\<close>

definition letter_decode :: "string \<Rightarrow> event option" where
  "letter_decode l = (if length l = 1 then Some (empty_event\<lparr>ev_EventID := l\<rparr>) else None)"

text \<open>
  The exception is real.  \<open>replaceFile\<close> removes the outbox before it renames the new file; when
  the rename fails, the new file is deleted as well, and every event that was still to be sent is
  lost, those that were not to be removed included.
\<close>

theorem outbox_lost_on_rename_failure:
  "case outbox_Remove letter_decode (Some ''ob'') [''a'']
      (disk ''ob'' (unlines [''a'', ''b'', ''c'']) (replicate 8 Succeeds @ [Fails ''rename''])) of
     (r, s') \<Rightarrow> r = Some (PlainError ''replace outbox: rename'') \<and>
       fs_files s' (Named ''ob'') = None \<and> fs_files s' (Temp 0) = None"
  by code_simp

text \<open>A write to the temporary file that is cut short, and an append that is.\<close>

lemma outbox_errors_witness:
  "prefix ''a'' (file_text ''ob'' (snd (outbox_Append (Some ''ob'') [empty_event]
      (disk ''ob'' ''a'' [Succeeds, Succeeds, ShortWrite 3 ''disk full''])))) \<and>
   (case outbox_Remove letter_decode (Some ''ob'') [''a'']
      (disk ''ob'' (unlines [''a'', ''b'', ''c'']) [Succeeds, Succeeds, Succeeds, ShortWrite 1 ''disk full'']) of
      (r, s') \<Rightarrow> r = Some (PlainError ''write temp outbox: disk full'') \<and>
        fs_files s' (Named ''ob'') = Some (unlines [''a'', ''b'', ''c'']))"
proof -
  let ?s = "disk ''ob'' (unlines [''a'', ''b'', ''c'']) [Succeeds, Succeeds, Succeeds, ShortWrite 1 ''disk full'']"
  obtain r s' where run: "outbox_Remove letter_decode (Some ''ob'') [''a''] ?s = (r, s')" by fastforce
  have "fst (outbox_Remove letter_decode (Some ''ob'') [''a''] ?s) = Some (PlainError ''write temp outbox: disk full'')"
    by code_simp
  then have r: "r = Some (PlainError ''write temp outbox: disk full'')" using run by simp
  then have "fs_files s' (Named ''ob'') = fs_files ?s (Named ''ob'')"
    using outbox_errors [of "''ob''" _ ?s _ _ letter_decode "[''a'']" "PlainError ''write temp outbox: disk full''" s'] run
    by (simp add: wrap_error_def)
  moreover have "prefix ''a'' (file_text ''ob'' (snd (outbox_Append (Some ''ob'') [empty_event]
      (disk ''ob'' ''a'' [Succeeds, Succeeds, ShortWrite 3 ''disk full'']))))"
    using outbox_errors [of "''ob''" "[empty_event]"
        "disk ''ob'' ''a'' [Succeeds, Succeeds, ShortWrite 3 ''disk full'']"]
    by (simp add: log_events_ok_disk prod_eq_iff)
  ultimately show ?thesis using run r by (simp add: disk_def)
qed

lemma outbox_history_witness:
  "\<exists>s'. run_log (outbox_Append (Some ''ob'')) (outbox_Peek letter_decode (Some ''ob''))
       (outbox_Remove letter_decode (Some ''ob'')) [Look 2, Drop [''b'']]
       (disk ''ob'' (unlines [''a'', ''b'', ''c'']) []) = Some s' \<and>
     map ev_EventID (log_events letter_decode ''ob'' s') = [''a'', ''c'']"
proof -
  let ?s = "disk ''ob'' (unlines [''a'', ''b'', ''c'']) []"
  let ?run = "run_log (outbox_Append (Some ''ob'')) (outbox_Peek letter_decode (Some ''ob''))
       (outbox_Remove letter_decode (Some ''ob'')) [Look 2, Drop [''b'']] ?s"
  have "?run \<noteq> None" by code_simp
  then obtain s' where run: "?run = Some s'" by blast
  have "list_all (line_ok maxLine) [''a'', ''b'', ''c'']" by code_simp
  then have whole: "log_whole ''ob'' ?s" unfolding log_whole_def log_events_ok_disk by blast
  have before: "log_events letter_decode ''ob'' ?s = map (\<lambda>i. empty_event\<lparr>ev_EventID := i\<rparr>) [''a'', ''b'', ''c'']"
    by code_simp
  show ?thesis
    using outbox_history [OF run whole] run by (simp add: before)
qed

lemma printable_line:
  assumes "printable t" and "int (length t) < maxToken"
  shows "line_ok maxToken t"
proof -
  have "byte newline = 10" "byte (CHR 0x0D) = 13" by (simp_all add: newline_def)
  then have "newline \<notin> set t" "\<not> (t \<noteq> [] \<and> last t = CHR 0x0D)"
    using assms(1) last_in_set [of t] unfolding printable_def by fastforce+
  then show ?thesis using assms(2) by (simp only: line_ok_def dropCR_def if_False) simp
qed

text \<open>
  An event that encodes to JSON below the scanner's limit is one line of the outbox: the text
  holds no line end, whatever the event's strings contain, and the scanner gives it back as it is.
\<close>

theorem json_event_one_line:
  assumes "json_event e = Some t" and "int (length t) < maxLine"
    and "\<forall>v \<in> {ev_Changes e, ev_OldValue e, ev_NewValue e, GFields (ev_Metadata e), GFields (ev_Data e)}.
      others_printable v"
  shows "line_ok maxLine t \<and> next_line maxLine (t @ newline # r) = Line t r"
proof -
  have "line_ok maxLine t" using printable_line [OF json_event_printable [OF assms(3,1)] assms(2)] .
  then show ?thesis by (simp add: next_line_line)
qed

lemma json_event_one_line_witness:
  "\<exists>t. json_event (empty_event\<lparr>ev_Message := [newline, CHR 0x0D]\<rparr>) = Some t \<and> line_ok maxLine t"
proof -
  let ?e = "empty_event\<lparr>ev_Message := [newline, CHR 0x0D]\<rparr>"
  have "case json_event ?e of None \<Rightarrow> False | Some t \<Rightarrow> int (length t) < maxLine" by code_simp
  then obtain t where t: "json_event ?e = Some t" "int (length t) < maxLine" by (auto split: option.splits)
  from json_event_one_line [OF t] t(1) show ?thesis by (auto simp: empty_event_def)
qed

text \<open>
  A torn write costs the next event too.  After a short write the file ends inside a line; the
  next \<open>Append\<close> reports success, but its event is glued to the torn text and is not a line of its
  own, so no \<open>Peek\<close> can return it unless the decoder accepts the glued line.
\<close>

theorem outbox_torn_line:
  assumes "outbox_Append (Some name) [e] s = (None, s')" and "file_text name s = torn"
    and "json_event e = Some t" and "line_ok maxLine (torn @ t)"
  shows "log_events decode name s' = (case decode (torn @ t) of None \<Rightarrow> [] | Some x \<Rightarrow> [x])"
proof -
  have "file_text name s' = unlines [torn @ t]"
    using outbox_Append_ok(1) [OF assms(1)] assms(2,3) by (simp add: unlines_def)
  from log_events_unlines [OF _ this, of decode] assms(4) show ?thesis
    by (simp add: map_filter_simps split: option.split)
qed

lemma outbox_torn_line_witness:
  "log_events letter_decode ''ob'' (snd (outbox_Append (Some ''ob'') [empty_event] (disk ''ob'' ''{'' []))) = []"
proof -
  let ?r = "outbox_Append (Some ''ob'') [empty_event] (disk ''ob'' ''{'' [])"
  have "fst ?r = None" by code_simp
  then have ok: "?r = (None, snd ?r)" by (metis prod.collapse)
  have line: "case json_event empty_event of None \<Rightarrow> False
      | Some t \<Rightarrow> line_ok maxLine (''{'' @ t) \<and> letter_decode (''{'' @ t) = None"
    by code_simp
  then obtain t where t: "json_event empty_event = Some t" "line_ok maxLine (''{'' @ t)"
      "letter_decode (''{'' @ t) = None"
    by (auto split: option.splits)
  show ?thesis
    using outbox_torn_line [OF ok log_events_ok_disk t(1,2), of letter_decode] t(3) by simp
qed

end
