(* ===== verification/Tamper_Evidence.thy ===== *)
theory Tamper_Evidence
  imports File_System Sdk_Config Json_Decode
begin

text \<open>
  \<open>logcenter/tamper.go\<close>: the hash chain over events and its state file.  The digests of
  \<open>crypto/sha256\<close> and \<open>crypto/hmac\<close> are the fields of \<open>hash_fns\<close>, as raw bytes, and
  \<open>quote\<close> is the \<open>%q\<close> format.  The sequence
  number is a \<open>uint64\<close>; in the metadata it is an integer like any other.
\<close>

section \<open>The code\<close>

record hash_fns =
  hf_sha256 :: "string \<Rightarrow> string"
  hf_hmac :: "string \<Rightarrow> string \<Rightarrow> string"

record tamper_state =
  ts_ChainID :: string
  ts_PreviousHash :: string
  ts_Sequence :: u64

record tamper_evidence =
  te_config :: tamper_config
  te_eventTypes :: "string list"
  te_classes :: "string list"
  te_metadataKey :: string
  te_previousHash :: string
  te_sequence :: u64

definition defaultTamperEvidenceMetadataKey :: string where
  "defaultTamperEvidenceMetadataKey = ''logcenter_integrity''"

definition hex_encode :: "string \<Rightarrow> string" where
  "hex_encode s = concat (map (\<lambda>c. [hex_digit (byte c div 16), hex_digit (byte c mod 16)]) s)"

text \<open>The set of the trimmed, non-empty values, as a list.\<close>

definition stringSet :: "string list option \<Rightarrow> string list" where
  "stringSet vs = remdups (filter (\<lambda>v. v \<noteq> []) (map trim_space (entries_of vs)))"

definition matches :: "tamper_evidence \<Rightarrow> event \<Rightarrow> bool" where
  "matches te e =
     (if te_eventTypes te \<noteq> [] \<and> ev_EventType e \<notin> set (te_eventTypes te) then False
      else if te_classes te \<noteq> [] \<and> ev_Classification e \<notin> set (te_classes te) then False
      else True)"

definition evidence_message :: "string \<Rightarrow> u64 \<Rightarrow> string \<Rightarrow> string \<Rightarrow> string" where
  "evidence_message chain sequence previousHash canonicalHash =
     chain @ newline # nat_dec (unat sequence) @ newline # previousHash @ newline # canonicalHash"

definition keyed_hash :: "hash_fns \<Rightarrow> tamper_config \<Rightarrow> string \<Rightarrow> string" where
  "keyed_hash hf tc message =
     (if tc_Secret tc \<noteq> [] then hf_hmac hf (tc_Secret tc) message else hf_sha256 hf message)"

definition hashEvidence :: "hash_fns \<Rightarrow> tamper_config \<Rightarrow> u64 \<Rightarrow> string \<Rightarrow> string \<Rightarrow> string" where
  "hashEvidence hf tc sequence previousHash canonicalHash =
     hex_encode (keyed_hash hf tc
       (evidence_message (tc_ChainID tc) sequence previousHash canonicalHash))"

definition algorithm :: "tamper_config \<Rightarrow> string" where
  "algorithm tc = (if tc_Secret tc \<noteq> [] then ''hmac-sha256'' else ''sha256'')"

definition cloneFieldsWithoutKey :: "fields \<Rightarrow> string \<Rightarrow> fields" where
  "cloneFieldsWithoutKey m key = map_option (filter (\<lambda>(f, _). f \<noteq> key)) m"

definition hashEventForEvidence :: "hash_fns \<Rightarrow> event \<Rightarrow> string \<Rightarrow> go_error + string" where
  "hashEventForEvidence hf e metadataKey =
     (case json_event (e\<lparr>ev_Metadata := cloneFieldsWithoutKey (ev_Metadata e) metadataKey\<rparr>) of
        None \<Rightarrow> Inl (PlainError ''encode tamper evidence event: json: unsupported value'')
      | Some encoded \<Rightarrow> Inr (hex_encode (hf_sha256 hf encoded)))"

definition json_state :: "tamper_state \<Rightarrow> string" where
  "json_state st = json_object
     [(''chain_id'', json_string (ts_ChainID st)),
      (''previous_hash'', json_string (ts_PreviousHash st)),
      (''sequence'', nat_dec (unat (ts_Sequence st)))]"

text \<open>\<open>json.Unmarshal\<close> into the state; a \<open>uint64\<close> has no sign.\<close>

definition read_u64 :: "string \<Rightarrow> u64 option" where
  "read_u64 t = (if list_all is_digit t \<and> digits_value t < 2 ^ 64 then Some (word_of_nat (digits_value t)) else None)"

definition state_table :: "(string \<times> (json \<Rightarrow> tamper_state \<Rightarrow> tamper_state option)) list" where
  "state_table =
    [(''chain_id'', str_field ts_ChainID_update),
     (''previous_hash'', str_field ts_PreviousHash_update),
     (''sequence'', num_field read_u64 ts_Sequence_update)]"

definition unmarshal_state :: "string \<Rightarrow> tamper_state option" where
  "unmarshal_state = unmarshal state_table \<lparr>ts_ChainID = [], ts_PreviousHash = [], ts_Sequence = 0\<rparr>"

definition loadState ::
  "(string \<Rightarrow> string) \<Rightarrow> tamper_evidence \<Rightarrow> fs \<Rightarrow>
   (go_error + tamper_evidence) \<times> fs" where
  "loadState quote te s =
     (let path = tc_StatePath (te_config te); chain = tc_ChainID (te_config te)
      in if trim_space path = [] then (Inr te, s)
         else
           (case os_Read (Named path) s of
              (Inl NotExist, s) \<Rightarrow> (Inr te, s)
            | (Inl err, s) \<Rightarrow> (Inl (wrap_error ''read tamper evidence state'' err), s)
            | (Inr body, s) \<Rightarrow>
              (case unmarshal_state body of
                 None \<Rightarrow> (Inl (PlainError ''decode tamper evidence state: invalid JSON''), s)
               | Some st \<Rightarrow>
                 (if ts_ChainID st \<noteq> [] \<and> ts_ChainID st \<noteq> chain then
                    (Inl (PlainError (''tamper evidence state chain_id '' @ quote (ts_ChainID st) @
                       '' does not match config '' @ quote chain)), s)
                  else
                    (Inr (te\<lparr>te_previousHash := ts_PreviousHash st, te_sequence := ts_Sequence st\<rparr>), s)))))"

definition saveState :: "tamper_evidence \<Rightarrow> fs \<Rightarrow> go_error option \<times> fs" where
  "saveState te s =
     (let path = tc_StatePath (te_config te)
      in if trim_space path = [] then (None, s)
         else
           (case os_MkdirAll s of
              (Some err, s) \<Rightarrow> (Some (wrap_error ''create tamper evidence state directory'' err), s)
            | (None, s) \<Rightarrow>
              (case os_CreateTemp s of
                 (Inl err, s) \<Rightarrow> (Some (wrap_error ''create tamper evidence temp state'' err), s)
               | (Inr tmp, s) \<Rightarrow>
                 (case os_Write tmp
                    (json_state \<lparr>ts_ChainID = tc_ChainID (te_config te),
                       ts_PreviousHash = te_previousHash te, ts_Sequence = te_sequence te\<rparr>) s of
                    (Some err, s) \<Rightarrow>
                      (Some (wrap_error ''write tamper evidence state'' err),
                       snd (os_Remove tmp (snd (os_Close s))))
                  | (None, s) \<Rightarrow>
                    (case os_Close s of
                       (Some err, s) \<Rightarrow>
                         (Some (wrap_error ''close tamper evidence state'' err), snd (os_Remove tmp s))
                     | (None, s) \<Rightarrow>
                       (case replaceFile tmp (Named path) s of
                          (Some err, s) \<Rightarrow> (Some err, snd (os_Remove tmp s))
                        | (None, s) \<Rightarrow> (None, s)))))))"

definition newTamperEvidence ::
  "(string \<Rightarrow> string) \<Rightarrow> tamper_config \<Rightarrow> fs \<Rightarrow>
   (go_error + tamper_evidence option) \<times> fs" where
  "newTamperEvidence quote tc s =
     (if \<not> tc_Enabled tc then (Inr None, s)
      else
        (let key = trim_space (tc_MetadataKey tc);
             te = \<lparr>te_config =
                     (if trim_space (tc_ChainID tc) = [] then tc\<lparr>tc_ChainID := ''default''\<rparr> else tc),
                   te_eventTypes = stringSet (tc_EventTypes tc),
                   te_classes = stringSet (tc_Classifications tc),
                   te_metadataKey = (if key = [] then defaultTamperEvidenceMetadataKey else key),
                   te_previousHash = [], te_sequence = 0\<rparr>
         in case loadState quote te s of
              (Inl err, s) \<Rightarrow> (Inl err, s)
            | (Inr te, s) \<Rightarrow> (Inr (Some te), s)))"

definition evidence_value :: "tamper_config \<Rightarrow> u64 \<Rightarrow> string \<Rightarrow> string \<Rightarrow> string \<Rightarrow> gval" where
  "evidence_value tc sequence previousHash canonicalHash integrityHash =
     GFields (Some
       [(''version'', GStr ''v1''),
        (''algorithm'', GStr (algorithm tc)),
        (''chain_id'', GStr (tc_ChainID tc)),
        (''sequence'', GInt (uint sequence)),
        (''previous_hash'', GStr previousHash),
        (''canonical_hash'', GStr canonicalHash),
        (''hash'', GStr integrityHash)])"

text \<open>What \<open>Apply\<close> does to the event and to the chain before it saves the state.\<close>

definition chain_step ::
  "hash_fns \<Rightarrow> string \<Rightarrow> event \<Rightarrow> tamper_evidence \<Rightarrow> event \<times> tamper_evidence" where
  "chain_step hf canonicalHash e te =
     (let sequence = te_sequence te + 1;
          previousHash = te_previousHash te;
          integrityHash = hashEvidence hf (te_config te) sequence previousHash canonicalHash
      in (e\<lparr>ev_Metadata := Some (entry_set (te_metadataKey te)
            (evidence_value (te_config te) sequence previousHash canonicalHash integrityHash)
            (entries_of (ev_Metadata e)))\<rparr>,
          te\<lparr>te_sequence := sequence, te_previousHash := integrityHash\<rparr>))"

text \<open>\<open>Apply\<close> on a nil receiver (None) returns the event.\<close>

definition Apply ::
  "hash_fns \<Rightarrow> event \<Rightarrow> tamper_evidence option \<Rightarrow> fs \<Rightarrow>
   (event \<times> go_error option) \<times> tamper_evidence option \<times> fs" where
  "Apply hf e ote s =
     (case ote of
        None \<Rightarrow> ((e, None), None, s)
      | Some te \<Rightarrow>
        (if \<not> matches te e then ((e, None), Some te, s)
         else
           (case hashEventForEvidence hf e (te_metadataKey te) of
              Inl err \<Rightarrow> ((e, Some err), Some te, s)
            | Inr canonicalHash \<Rightarrow>
              (case chain_step hf canonicalHash e te of
                 (e, te) \<Rightarrow> (case saveState te s of (err, s) \<Rightarrow> ((e, err), Some te, s))))))"

section \<open>Encoding\<close>

lemma hex_digit_inj: "m < 16 \<Longrightarrow> n < 16 \<Longrightarrow> hex_digit m = hex_digit n \<Longrightarrow> m = n"
proof -
  assume "m < 16" "n < 16" "hex_digit m = hex_digit n"
  moreover from this have "byte (hex_digit m) = byte (hex_digit n)" by simp
  ultimately show "m = n" by (simp add: hex_digit_def split: if_splits)
qed

lemma hex_encode_inj: "hex_encode s = hex_encode t \<Longrightarrow> s = t"
proof (induction s arbitrary: t)
  case Nil
  then show ?case by (cases t) (simp_all add: hex_encode_def)
next
  case (Cons a s)
  then obtain b t' where t: "t = b # t'" by (cases t) (simp_all add: hex_encode_def)
  have "hex_digit (byte a div 16) = hex_digit (byte b div 16)"
    "hex_digit (byte a mod 16) = hex_digit (byte b mod 16)" and rest: "hex_encode s = hex_encode t'"
    using Cons.prems by (simp_all add: t hex_encode_def)
  moreover have "byte a div 16 < 16" "byte b div 16 < 16" using byte_less [of a] byte_less [of b] by simp_all
  ultimately have "byte a div 16 = byte b div 16" "byte a mod 16 = byte b mod 16"
    by (simp_all add: hex_digit_inj)
  then have "byte a = byte b" by (metis mult_div_mod_eq)
  then show ?case using Cons.IH [OF rest] t by (simp add: byte_inj)
qed

lemma hex_digit_no_newline: "n < 16 \<Longrightarrow> newline \<noteq> hex_digit n"
proof -
  have "byte newline = 10" by (simp add: newline_def)
  then show "n < 16 \<Longrightarrow> ?thesis" using hex_digit_printable [of n] by auto
qed

lemma newline_not_hex: "newline \<notin> set (hex_encode s)"
proof -
  have "byte c div 16 < 16" for c using byte_less [of c] by simp
  then show ?thesis
    using hex_digit_no_newline by (induction s) (simp_all add: hex_encode_def)
qed

lemma newline_not_dec: "newline \<notin> set (nat_dec n)"
  using nat_dec_printable [of n] by (auto simp: printable_def newline_def)

lemma nat_dec_inj: "nat_dec m = nat_dec n \<Longrightarrow> m = n"
  using digits_value_nat_dec by metis

text \<open>The message that is hashed determines the sequence number, the previous and the canonical hash.\<close>

lemma split_last: "x \<notin> set c \<Longrightarrow> x \<notin> set d \<Longrightarrow> a @ x # c = b @ x # d \<Longrightarrow> a = b \<and> c = d"
proof -
  assume "x \<notin> set c" "x \<notin> set d" "a @ x # c = b @ x # d"
  moreover from this(3) have "rev c @ x # rev a = rev d @ x # rev b"
    by (metis append.assoc append_Cons append_Nil rev.simps(2) rev_append rev_rev_ident)
  ultimately show ?thesis using split_first [of x "rev c" "rev d" "rev a" "rev b"] by simp
qed

lemma evidence_message_inj:
  assumes "evidence_message chain n p c = evidence_message chain n' p' c'"
    and "newline \<notin> set c" and "newline \<notin> set c'"
  shows "n = n' \<and> p = p' \<and> c = c'"
proof -
  have "nat_dec (unat n) @ newline # (p @ newline # c) = nat_dec (unat n') @ newline # (p' @ newline # c')"
    using assms(1) by (simp add: evidence_message_def)
  from split_first [OF newline_not_dec newline_not_dec this]
  have "nat_dec (unat n) = nat_dec (unat n')" "p @ newline # c = p' @ newline # c'" by simp_all
  with split_last [OF assms(2,3)] nat_dec_inj show ?thesis by (metis word_unat_eq_iff)
qed

lemma hashEventForEvidence_hex:
  "hashEventForEvidence hf e key = Inr c \<Longrightarrow> newline \<notin> set c"
  by (auto simp: hashEventForEvidence_def newline_not_hex split: option.splits)

section \<open>Hash chains\<close>

text \<open>
  The contract of a chain over events: a step puts a link (sequence number, previous hash, digest,
  hash) into the event that continues the head of the chain, and does not disturb the digest.
\<close>

type_synonym link = "u64 \<times> string \<times> string \<times> string"

locale hash_chain =
  fixes step :: "'e \<Rightarrow> 's \<Rightarrow> ('e \<times> 's) option"
    and head :: "'s \<Rightarrow> u64 \<times> string"
    and link_of :: "'e \<Rightarrow> link option"
    and digest :: "'e \<Rightarrow> string option"
    and chain_hash :: "u64 \<Rightarrow> string \<Rightarrow> string \<Rightarrow> string"
  assumes step_links: "step e s = Some (e', s') \<Longrightarrow> head s = (n, p) \<Longrightarrow>
      \<exists>c. digest e' = Some c \<and> link_of e' = Some (n + 1, p, c, chain_hash (n + 1) p c) \<and>
        head s' = (n + 1, chain_hash (n + 1) p c)"

text \<open>A list of events that continues the chain at a head, and the head after it.\<close>

fun chained ::
  "('e \<Rightarrow> link option) \<Rightarrow> ('e \<Rightarrow> string option) \<Rightarrow> (u64 \<Rightarrow> string \<Rightarrow> string \<Rightarrow> string) \<Rightarrow>
   u64 \<times> string \<Rightarrow> 'e list \<Rightarrow> bool" where
  "chained lnk dig h (n, p) [] = True"
| "chained lnk dig h (n, p) (e # es) =
     (case dig e of
        None \<Rightarrow> False
      | Some c \<Rightarrow> lnk e = Some (n + 1, p, c, h (n + 1) p c) \<and> chained lnk dig h (n + 1, h (n + 1) p c) es)"

fun chain_end ::
  "('e \<Rightarrow> string option) \<Rightarrow> (u64 \<Rightarrow> string \<Rightarrow> string \<Rightarrow> string) \<Rightarrow> u64 \<times> string \<Rightarrow> 'e list \<Rightarrow> u64 \<times> string" where
  "chain_end dig h (n, p) [] = (n, p)"
| "chain_end dig h (n, p) (e # es) = chain_end dig h (n + 1, h (n + 1) p (the (dig e))) es"

fun run_chain :: "('e \<Rightarrow> 's \<Rightarrow> ('e \<times> 's) option) \<Rightarrow> 'e list \<Rightarrow> 's \<Rightarrow> ('e list \<times> 's) option" where
  "run_chain f [] s = Some ([], s)"
| "run_chain f (e # es) s =
     (case f e s of
        None \<Rightarrow> None
      | Some (e', s') \<Rightarrow> map_option (\<lambda>(es', s''). (e' # es', s'')) (run_chain f es s'))"

text \<open>The triples that are hashed along a chain.\<close>

fun hashed :: "('e \<Rightarrow> string option) \<Rightarrow> (u64 \<Rightarrow> string \<Rightarrow> string \<Rightarrow> string) \<Rightarrow> u64 \<times> string \<Rightarrow> 'e list \<Rightarrow>
    (u64 \<times> string \<times> string) list" where
  "hashed dig h (n, p) [] = []"
| "hashed dig h (n, p) (e # es) =
     (n + 1, p, the (dig e)) # hashed dig h (n + 1, h (n + 1) p (the (dig e))) es"

lemma chain_end_snoc:
  "chain_end dig h a (es @ [e]) =
     (case chain_end dig h a es of (n, p) \<Rightarrow> (n + 1, h (n + 1) p (the (dig e))))"
  by (induction dig h a es rule: chain_end.induct) auto

lemma hashed_snoc:
  "hashed dig h a (es @ [e]) =
     hashed dig h a es @ [case chain_end dig h a es of (n, p) \<Rightarrow> (n + 1, p, the (dig e))]"
  by (induction dig h a es rule: chain_end.induct) auto

text \<open>
  The end of a chain commits to everything in it: two chains of the same length with the same last
  hash have the same digests, unless two different triples on them were hashed to the same value.
\<close>

lemma chain_end_commits:
  assumes "length es = length fs" and "snd (chain_end dig h a es) = snd (chain_end dig h b fs)"
    and "\<forall>(n, p, c) \<in> set (hashed dig h a es). \<forall>(n', p', c') \<in> set (hashed dig h b fs).
      h n p c = h n' p' c' \<longrightarrow> (n, p, c) = (n', p', c')"
  shows "map (the \<circ> dig) es = map (the \<circ> dig) fs"
  using assms
proof (induction es arbitrary: fs rule: rev_induct)
  case (snoc e es)
  then obtain f gs where fs: "fs = gs @ [f]" by (cases fs rule: rev_cases) auto
  obtain n p where a: "chain_end dig h a es = (n, p)" by (cases "chain_end dig h a es")
  obtain n' p' where b: "chain_end dig h b gs = (n', p')" by (cases "chain_end dig h b gs")
  have "h (n + 1) p (the (dig e)) = h (n' + 1) p' (the (dig f))"
    using snoc.prems(2) by (simp add: fs chain_end_snoc a b)
  moreover have "(n + 1, p, the (dig e)) \<in> set (hashed dig h a (es @ [e]))"
    "(n' + 1, p', the (dig f)) \<in> set (hashed dig h b fs)"
    by (simp_all add: fs hashed_snoc a b)
  ultimately have eq: "n + 1 = n' + 1" "p = p'" "the (dig e) = the (dig f)"
    using snoc.prems(3) by fastforce+
  have "map (the \<circ> dig) es = map (the \<circ> dig) gs"
  proof (rule snoc.IH)
    show "length es = length gs" using snoc.prems(1) by (simp add: fs)
    show "snd (chain_end dig h a es) = snd (chain_end dig h b gs)" using a b eq by simp
    show "\<forall>(n, p, c) \<in> set (hashed dig h a es). \<forall>(n', p', c') \<in> set (hashed dig h b gs).
        h n p c = h n' p' c' \<longrightarrow> (n, p, c) = (n', p', c')"
      using snoc.prems(3) by (auto simp: fs hashed_snoc)
  qed
  with eq show ?case unfolding fs map_append by simp
qed simp

context hash_chain
begin

lemma run_chained:
  "run_chain step es s = Some (es', s') \<Longrightarrow>
     chained link_of digest chain_hash (head s) es' \<and> length es' = length es \<and>
     head s' = chain_end digest chain_hash (head s) es'"
proof (induction es arbitrary: s es')
  case (Cons e es)
  then obtain e1 s1 es1 where e1: "step e s = Some (e1, s1)" "run_chain step es s1 = Some (es1, s')"
      "es' = e1 # es1"
    by (auto split: option.splits)
  obtain n p where h: "head s = (n, p)" by (cases "head s")
  obtain c where c: "digest e1 = Some c" "link_of e1 = Some (n + 1, p, c, chain_hash (n + 1) p c)"
      "head s1 = (n + 1, chain_hash (n + 1) p c)"
    using step_links [OF e1(1) h] by blast
  from Cons.IH [OF e1(2)] c e1(3) h show ?case by simp
next
  case Nil
  then show ?case by (cases "head s'") simp
qed

end

section \<open>The evidence is a hash chain\<close>

definition str_of :: "gval option \<Rightarrow> string option" where
  "str_of v = (case v of Some (GStr s) \<Rightarrow> Some s | _ \<Rightarrow> None)"

text \<open>The link that a verifier reads from an event's metadata.\<close>

definition evidence_link :: "string \<Rightarrow> event \<Rightarrow> link option" where
  "evidence_link key e =
     (case map_of (entries_of (ev_Metadata e)) key of
        Some (GFields (Some kvs)) \<Rightarrow>
          (case (map_of kvs ''sequence'', str_of (map_of kvs ''previous_hash''),
                 str_of (map_of kvs ''canonical_hash''), str_of (map_of kvs ''hash'')) of
             (Some (GInt n), Some p, Some c, Some h) \<Rightarrow> Some (word_of_int n, p, c, h)
           | _ \<Rightarrow> None)
      | _ \<Rightarrow> None)"

definition canonical :: "string \<Rightarrow> event \<Rightarrow> string option" where
  "canonical key e = json_event (e\<lparr>ev_Metadata := cloneFieldsWithoutKey (ev_Metadata e) key\<rparr>)"

definition event_digest :: "hash_fns \<Rightarrow> string \<Rightarrow> event \<Rightarrow> string option" where
  "event_digest hf key e = map_option (\<lambda>t. hex_encode (hf_sha256 hf t)) (canonical key e)"

lemma hashEventForEvidence_digest:
  "hashEventForEvidence hf e key = Inr c \<longleftrightarrow> event_digest hf key e = Some c"
  by (simp add: hashEventForEvidence_def event_digest_def canonical_def split: option.split)

text \<open>One step of the chain, on the head alone.\<close>

definition chain_apply ::
  "hash_fns \<Rightarrow> tamper_evidence \<Rightarrow> event \<Rightarrow> u64 \<times> string \<Rightarrow> (event \<times> u64 \<times> string) option" where
  "chain_apply hf te e a =
     (case event_digest hf (te_metadataKey te) e of
        None \<Rightarrow> None
      | Some c \<Rightarrow>
        (case chain_step hf c e (te\<lparr>te_sequence := fst a, te_previousHash := snd a\<rparr>) of
           (e', te') \<Rightarrow> Some (e', te_sequence te', te_previousHash te')))"

text \<open>The evidence itself is not part of what is hashed.\<close>

lemma opt_fields_member_empty: "opt_fields_member k (Some []) = opt_fields_member k None"
  by (simp add: opt_fields_member_def)

lemma canonical_set:
  "canonical key (e\<lparr>ev_Metadata := Some (entry_set key v (entries_of (ev_Metadata e)))\<rparr>) = canonical key e"
proof (cases "ev_Metadata e")
  case None
  then show ?thesis
    by (simp add: canonical_def cloneFieldsWithoutKey_def json_event_def event_members_def
        opt_fields_member_empty)
next
  case (Some kvs)
  then show ?thesis by (simp add: canonical_def cloneFieldsWithoutKey_def filter_entry_set)
qed

interpretation hc: hash_chain "chain_apply hf te" "\<lambda>a. a" "evidence_link (te_metadataKey te)"
  "event_digest hf (te_metadataKey te)" "hashEvidence hf (te_config te)" for hf te
proof unfold_locales
  fix e :: event and a b :: "u64 \<times> string" and e' n p
  assume step: "chain_apply hf te e a = Some (e', b)" and a: "a = (n, p)"
  then obtain c where c: "event_digest hf (te_metadataKey te) e = Some c"
    by (auto simp: chain_apply_def split: option.splits)
  let ?h = "hashEvidence hf (te_config te) (n + 1) p c"
  have e': "e' = e\<lparr>ev_Metadata := Some (entry_set (te_metadataKey te)
      (evidence_value (te_config te) (n + 1) p c ?h) (entries_of (ev_Metadata e)))\<rparr>"
    and b: "b = (n + 1, ?h)"
    using step c a by (auto simp: chain_apply_def chain_step_def Let_def)
  have "event_digest hf (te_metadataKey te) e' = Some c"
    using c by (simp add: event_digest_def e' canonical_set)
  moreover have "evidence_link (te_metadataKey te) e' = Some (n + 1, p, c, ?h)"
    by (simp add: evidence_link_def e' map_of_entry_set evidence_value_def str_of_def)
  ultimately show "\<exists>c. event_digest hf (te_metadataKey te) e' = Some c \<and>
      evidence_link (te_metadataKey te) e' = Some (n + 1, p, c, hashEvidence hf (te_config te) (n + 1) p c) \<and>
      b = (n + 1, hashEvidence hf (te_config te) (n + 1) p c)"
    using b by blast
qed

section \<open>Runs of Apply\<close>

fun apply_all ::
  "hash_fns \<Rightarrow> event list \<Rightarrow> tamper_evidence option \<Rightarrow> fs \<Rightarrow>
   (event \<times> go_error option) list \<times> tamper_evidence option \<times> fs" where
  "apply_all hf [] ote s = ([], ote, s)"
| "apply_all hf (e # es) ote s =
     (case Apply hf e ote s of
        (r, ote, s) \<Rightarrow> (case apply_all hf es ote s of (rs, ote, s) \<Rightarrow> (r # rs, ote, s)))"

definition te_head :: "tamper_evidence \<Rightarrow> u64 \<times> string" where
  "te_head te = (te_sequence te, te_previousHash te)"

text \<open>What a chain never changes: everything but its head.\<close>

definition same_chain :: "tamper_evidence \<Rightarrow> tamper_evidence \<Rightarrow> bool" where
  "same_chain te te' \<longleftrightarrow> (\<exists>n p. te' = te\<lparr>te_sequence := n, te_previousHash := p\<rparr>)"

lemma same_chain_matches: "same_chain te te' \<Longrightarrow> matches te' e = matches te e"
  by (auto simp: same_chain_def matches_def)

lemma Apply_step:
  assumes "Apply hf e (Some te) s = ((e', err), ote', s')" and "matches te e"
    and "err = None"
  shows "\<exists>te'. ote' = Some te' \<and> same_chain te te' \<and>
    chain_apply hf te e (te_head te) = Some (e', te_head te')"
proof -
  obtain c where c: "hashEventForEvidence hf e (te_metadataKey te) = Inr c"
    using assms by (auto simp: Apply_def split: sum.splits)
  obtain te' where st: "chain_step hf c e te = (e', te')" and o: "ote' = Some te'"
    using assms c by (auto simp: Apply_def split: prod.splits)
  have "same_chain te te'" using st by (auto simp: chain_step_def Let_def same_chain_def)
  moreover have "te\<lparr>te_sequence := fst (te_head te), te_previousHash := snd (te_head te)\<rparr> = te"
    by (simp add: te_head_def)
  ultimately show ?thesis
    using st o c by (simp add: chain_apply_def hashEventForEvidence_digest te_head_def)
qed

lemma same_chain_apply: "same_chain te te' \<Longrightarrow> chain_apply hf te' = chain_apply hf te"
  by (auto simp: same_chain_def chain_apply_def fun_eq_iff cong: option.case_cong)

lemma same_chain_refl: "same_chain te te"
  unfolding same_chain_def by (intro exI [of _ "te_sequence te"] exI [of _ "te_previousHash te"]) simp

lemma same_chain_trans: "same_chain a b \<Longrightarrow> same_chain b c \<Longrightarrow> same_chain a c"
  unfolding same_chain_def by (elim exE, hypsubst) (simp, blast)

lemma apply_all_run:
  "apply_all hf es (Some te) s = (rs, ote', s') \<Longrightarrow> \<forall>e \<in> set es. matches te e \<Longrightarrow>
     \<forall>r \<in> set rs. snd r = None \<Longrightarrow>
     \<exists>te'. ote' = Some te' \<and> same_chain te te' \<and>
       run_chain (chain_apply hf te) es (te_head te) = Some (map fst rs, te_head te')"
proof (induction es arbitrary: te s rs)
  case Nil
  then show ?case by (auto intro: same_chain_refl)
next
  case (Cons e es)
  obtain e1 err ote1 s1 where a: "Apply hf e (Some te) s = ((e1, err), ote1, s1)"
    by (metis prod.collapse)
  obtain rs1 where r: "apply_all hf es ote1 s1 = (rs1, ote', s')" "rs = (e1, err) # rs1"
    using Cons.prems(1) a by (auto split: prod.splits)
  have err: "err = None" using Cons.prems(3) r by simp
  obtain te1 where te1: "ote1 = Some te1" "same_chain te te1"
      "chain_apply hf te e (te_head te) = Some (e1, te_head te1)"
    using Apply_step [OF a _ err] Cons.prems(2) by auto
  obtain te' where "ote' = Some te'" "same_chain te1 te'"
      "run_chain (chain_apply hf te1) es (te_head te1) = Some (map fst rs1, te_head te')"
    using Cons.IH [of te1 s1 rs1] r te1 Cons.prems(2,3) same_chain_matches by auto
  then show ?case
    using te1 r same_chain_trans same_chain_apply [OF te1(2)] by auto
qed

section \<open>Properties\<close>

text \<open>
  C18: the events that pass through \<open>Apply\<close> form one hash chain: each carries the next sequence
  number, the hash of the event before it, the digest of its own JSON without the evidence, and
  the hash over the three; the receiver's state is the end of that chain.
\<close>

theorem Apply_chains:
  assumes "apply_all hf es (Some te) s = (rs, ote', s')"
    and "\<forall>e \<in> set es. matches te e" and "\<forall>r \<in> set rs. snd r = None"
  shows "chained (evidence_link (te_metadataKey te)) (event_digest hf (te_metadataKey te))
      (hashEvidence hf (te_config te)) (te_sequence te, te_previousHash te) (map fst rs) \<and>
    (\<exists>te'. ote' = Some te' \<and> (te_sequence te', te_previousHash te') =
      chain_end (event_digest hf (te_metadataKey te)) (hashEvidence hf (te_config te))
        (te_sequence te, te_previousHash te) (map fst rs))"
proof -
  obtain te' where te': "ote' = Some te'"
    and run: "run_chain (chain_apply hf te) es (te_head te) = Some (map fst rs, te_head te')"
    using apply_all_run [OF assms] by blast
  from hc.run_chained [OF run] te' show ?thesis by (simp add: te_head_def)
qed

definition toy_hash :: hash_fns where
  "toy_hash = \<lparr>hf_sha256 = (\<lambda>m. take 2 (rev m)), hf_hmac = (\<lambda>k m. take 2 (rev m))\<rparr>"

definition toy_evidence :: tamper_evidence where
  "toy_evidence = \<lparr>te_config = no_tamper_config\<lparr>tc_ChainID := ''c''\<rparr>, te_eventTypes = [],
     te_classes = [], te_metadataKey = ''i'', te_previousHash = [], te_sequence = 0\<rparr>"

lemma Apply_chains_witness:
  "\<exists>es. length es = 2 \<and> chained (evidence_link ''i'') (event_digest toy_hash ''i'')
     (hashEvidence toy_hash (te_config toy_evidence)) (0, []) es"
proof -
  let ?s = "\<lparr>fs_files = (\<lambda>_. None), fs_temps = 0, fs_outcomes = []\<rparr>"
  let ?es = "[empty_event, empty_event\<lparr>ev_EventID := ''b''\<rparr>]"
  obtain rs ote s' where run: "apply_all toy_hash ?es (Some toy_evidence) ?s = (rs, ote, s')"
    by (metis prod.collapse)
  have m: "\<forall>e \<in> set ?es. matches toy_evidence e" by (simp add: matches_def toy_evidence_def)
  have "list_all (\<lambda>r. snd r = None) (fst (apply_all toy_hash ?es (Some toy_evidence) ?s)) \<and>
      length (fst (apply_all toy_hash ?es (Some toy_evidence) ?s)) = 2" by code_simp
  then have ok: "\<forall>r \<in> set rs. snd r = None" and len: "length rs = 2"
    using run by (simp_all add: list_all_iff)
  have te: "te_metadataKey toy_evidence = ''i''" "te_sequence toy_evidence = 0" "te_previousHash toy_evidence = []"
    by (simp_all add: toy_evidence_def)
  show ?thesis using Apply_chains [OF run m ok] len unfolding te
    by (intro exI [of _ "map fst rs"]) simp
qed

lemma hashed_digest:
  "chained lnk dig h a es \<Longrightarrow> (n, p, c) \<in> set (hashed dig h a es) \<Longrightarrow> \<exists>e \<in> set es. dig e = Some c"
  by (induction lnk dig h a es rule: chained.induct) (auto split: option.splits)

lemma chained_digests: "chained lnk dig h a es \<Longrightarrow> e \<in> set es \<Longrightarrow> dig e \<noteq> None"
  by (induction lnk dig h a es rule: chained.induct) (auto split: option.splits)

lemma event_digest_hex: "event_digest hf key e = Some c \<Longrightarrow> newline \<notin> set c"
  by (auto simp: event_digest_def newline_not_hex)

text \<open>
  C17: tampering shows.  Take two lists of events with valid evidence that have the same length and
  end in the same hash.  If no two different texts hashed on the way have the same digest, the
  events agree in everything but the evidence: no event was changed, replaced or moved.
\<close>

theorem evidence_commits:
  assumes "chained (evidence_link key) (event_digest hf key) (hashEvidence hf tc) a es"
    and "chained (evidence_link key) (event_digest hf key) (hashEvidence hf tc) b fs"
    and "length es = length fs"
    and "snd (chain_end (event_digest hf key) (hashEvidence hf tc) a es) =
         snd (chain_end (event_digest hf key) (hashEvidence hf tc) b fs)"
    and "\<forall>(n, p, c) \<in> set (hashed (event_digest hf key) (hashEvidence hf tc) a es).
      \<forall>(n', p', c') \<in> set (hashed (event_digest hf key) (hashEvidence hf tc) b fs).
      keyed_hash hf tc (evidence_message (tc_ChainID tc) n p c) =
        keyed_hash hf tc (evidence_message (tc_ChainID tc) n' p' c') \<longrightarrow>
      evidence_message (tc_ChainID tc) n p c = evidence_message (tc_ChainID tc) n' p' c'"
    and "\<forall>t \<in> canonical key ` set es. \<forall>u \<in> canonical key ` set fs.
      hf_sha256 hf (the t) = hf_sha256 hf (the u) \<longrightarrow> t = u"
  shows "map (canonical key) es = map (canonical key) fs"
proof -
  let ?dig = "event_digest hf key"
  have inj: "(n, p, c) = (n', p', c')"
    if mem: "(n, p, c) \<in> set (hashed ?dig (hashEvidence hf tc) a es)"
      "(n', p', c') \<in> set (hashed ?dig (hashEvidence hf tc) b fs)"
      and eq: "hashEvidence hf tc n p c = hashEvidence hf tc n' p' c'" for n p c n' p' c'
  proof -
    have "newline \<notin> set c" "newline \<notin> set c'"
      using hashed_digest [OF assms(1) mem(1)] hashed_digest [OF assms(2) mem(2)] event_digest_hex by blast+
    moreover have "evidence_message (tc_ChainID tc) n p c = evidence_message (tc_ChainID tc) n' p' c'"
      using assms(5) mem hex_encode_inj [OF eq [unfolded hashEvidence_def]] by blast
    ultimately show ?thesis using evidence_message_inj by blast
  qed
  have "\<forall>(n, p, c) \<in> set (hashed ?dig (hashEvidence hf tc) a es).
      \<forall>(n', p', c') \<in> set (hashed ?dig (hashEvidence hf tc) b fs).
      hashEvidence hf tc n p c = hashEvidence hf tc n' p' c' \<longrightarrow> (n, p, c) = (n', p', c')"
    using inj by blast
  from chain_end_commits [OF assms(3,4) this]
  have digs: "map (the \<circ> ?dig) es = map (the \<circ> ?dig) fs" .
  show ?thesis
  proof (rule nth_equalityI)
    fix i assume i: "i < length (map (canonical key) es)"
    then have mem: "es ! i \<in> set es" "fs ! i \<in> set fs" using assms(3) by simp_all
    have "the (?dig (es ! i)) = the (?dig (fs ! i))"
      using arg_cong [OF digs, of "\<lambda>l. l ! i"] i assms(3) by simp
    moreover have "?dig (es ! i) \<noteq> None" "?dig (fs ! i) \<noteq> None"
      using chained_digests [OF assms(1) mem(1)] chained_digests [OF assms(2) mem(2)] by simp_all
    ultimately have "hf_sha256 hf (the (canonical key (es ! i))) = hf_sha256 hf (the (canonical key (fs ! i)))"
      by (auto simp: event_digest_def dest: hex_encode_inj)
    then show "map (canonical key) es ! i = map (canonical key) fs ! i"
      using assms(6) mem i assms(3) by simp
  qed (simp add: assms(3))
qed

lemma evidence_commits_witness:
  "\<exists>e. chained (evidence_link ''i'') (event_digest toy_hash ''i'') (hashEvidence toy_hash (te_config toy_evidence)) (0, []) [e] \<and>
     map (canonical ''i'') [e] = map (canonical ''i'') [e]"
proof -
  obtain e where "fst (the (chain_apply toy_hash toy_evidence empty_event (0, []))) = e" by blast
  moreover have "case chain_apply toy_hash toy_evidence empty_event (0, []) of None \<Rightarrow> False
      | Some (e, _) \<Rightarrow> chained (evidence_link ''i'') (event_digest toy_hash ''i'')
          (hashEvidence toy_hash (te_config toy_evidence)) (0, []) [e]"
    by code_simp
  ultimately have e: "chained (evidence_link ''i'') (event_digest toy_hash ''i'')
     (hashEvidence toy_hash (te_config toy_evidence)) (0, []) [e]"
    by (auto split: option.splits)
  with evidence_commits [OF e e] show ?thesis by (intro exI [of _ e]) auto
qed


definition state_of :: "tamper_evidence \<Rightarrow> tamper_state" where
  "state_of te = \<lparr>ts_ChainID = tc_ChainID (te_config te), ts_PreviousHash = te_previousHash te,
     ts_Sequence = te_sequence te\<rparr>"

lemma saveState_ok:
  assumes "saveState te s = (None, s')" and "trim_space (tc_StatePath (te_config te)) \<noteq> []"
  shows "fs_files s' (Named (tc_StatePath (te_config te))) = Some (json_state (state_of te))"
proof -
  obtain s1 where m: "os_MkdirAll s = (None, s1)"
    using assms by (auto simp: saveState_def Let_def split: prod.splits option.splits)
  obtain tmp s2 where t: "os_CreateTemp s1 = (Inr tmp, s2)"
    using assms m by (auto simp: saveState_def Let_def split: prod.splits sum.splits)
  obtain s3 where w: "os_Write tmp (json_state (state_of te)) s2 = (None, s3)"
    using assms m t by (auto simp: saveState_def Let_def state_of_def split: prod.splits option.splits)
  obtain s4 where c: "os_Close s3 = (None, s4)"
    using assms m t w by (auto simp: saveState_def Let_def state_of_def split: prod.splits option.splits)
  have r: "replaceFile tmp (Named (tc_StatePath (te_config te))) s4 = (None, s')"
    using assms m t w c by (auto simp: saveState_def Let_def state_of_def split: prod.splits option.splits)
  obtain n where n: "tmp = Temp n" "fs_files s2 tmp = Some []"
    using os_CreateTemp_ok [OF t] by auto
  have "fs_files s4 tmp = Some (json_state (state_of te))"
    using os_Write_ok [OF w n(2)] os_Close_files(1) [OF c] by simp
  with replaceFile_ok [OF r] n(1) show ?thesis by simp
qed

text \<open>What the state's encoder writes is decoded again.\<close>

lemma read_u64_dec: "read_u64 (nat_dec (unat x)) = Some x"
proof -
  have "unat x < 2 ^ 64" using unsigned_less [of x, where 'a = nat] by simp
  then show ?thesis by (simp add: read_u64_def nat_dec_digits digits_value_nat_dec)
qed

lemma unmarshal_state_json: "unmarshal_state (json_state st) =
    Some \<lparr>ts_ChainID = to_valid (ts_ChainID st), ts_PreviousHash = to_valid (ts_PreviousHash st), ts_Sequence = ts_Sequence st\<rparr>"
proof -
  let ?ms = "[(''chain_id'', json_string (ts_ChainID st)), (''previous_hash'', json_string (ts_PreviousHash st)),
    (''sequence'', nat_dec (unat (ts_Sequence st)))]"
  let ?ps = "[(''chain_id'', JStr (to_valid (ts_ChainID st))), (''previous_hash'', JStr (to_valid (ts_PreviousHash st))),
    (''sequence'', JNum (nat_dec (unat (ts_Sequence st))))]"
  have names: "to_valid ''chain_id'' = ''chain_id''" "to_valid ''previous_hash'' = ''previous_hash''"
    "to_valid ''sequence'' = ''sequence''" by (rule to_valid_ascii, simp)+
  have "nat_dec n = int_dec (int n)" for n by (simp add: int_dec_def)
  then have num: "parses lim (nat_dec n) (JNum (nat_dec n))" for lim n using parses_int by simp
  have "list_all2 (member_parses (maxNestingDepth - 1)) ?ms ?ps"
    by (simp add: member_parses_def names parses_string num)
  then have "json_parse (json_object ?ms) = Some (JObj ?ps)"
    using parses_object [of "maxNestingDepth - 1" ?ms ?ps] parses_parse by (simp add: maxNestingDepth_def)
  then show ?thesis
    by (simp add: unmarshal_state_def unmarshal_def json_state_def decode_struct_def find_field_def state_table_def
        str_field_def num_field_def read_u64_dec)
qed

text \<open>
  C35: the chain survives a restart: once the state has been saved, loading it into a receiver with
  the same configuration restores sequence number and previous hash, so that the next event
  continues the chain.  The chain's name and the hash are valid UTF-8.
\<close>
theorem tamper_state_resumes:
  assumes "saveState te s = (None, s')" and "trim_space (tc_StatePath (te_config te)) \<noteq> []"
    and "fs_outcomes s' = []" and "te_config te0 = te_config te"
    and "valid_utf8 (tc_ChainID (te_config te))" and "valid_utf8 (te_previousHash te)"
  shows "loadState quote te0 s' =
    (Inr (te0\<lparr>te_previousHash := te_previousHash te, te_sequence := te_sequence te\<rparr>), s')"
  using saveState_ok [OF assms(1,2)] assms(2-6)
  by (simp add: loadState_def os_Read_def Let_def state_of_def unmarshal_state_json to_valid_id)

lemma tamper_state_resumes_witness:
  "\<exists>s'. loadState (\<lambda>s. s)
      (toy_evidence\<lparr>te_config := no_tamper_config\<lparr>tc_ChainID := ''c'', tc_StatePath := ''st''\<rparr>\<rparr>) s' =
     (Inr (toy_evidence\<lparr>te_config := no_tamper_config\<lparr>tc_ChainID := ''c'', tc_StatePath := ''st''\<rparr>,
        te_previousHash := [], te_sequence := 7\<rparr>), s')"
proof -
  let ?tc = "no_tamper_config\<lparr>tc_ChainID := ''c'', tc_StatePath := ''st''\<rparr>"
  let ?te = "toy_evidence\<lparr>te_config := ?tc, te_sequence := 7\<rparr>"
  let ?s = "\<lparr>fs_files = (\<lambda>_. None), fs_temps = 0, fs_outcomes = []\<rparr>"
  have "fst (saveState ?te ?s) = None \<and> fs_outcomes (snd (saveState ?te ?s)) = []" by code_simp
  then have run: "saveState ?te ?s = (None, snd (saveState ?te ?s))"
    and calm: "fs_outcomes (snd (saveState ?te ?s)) = []"
    by (simp_all add: prod_eq_iff)
  have path: "trim_space (tc_StatePath (te_config ?te)) \<noteq> []" by code_simp
  have valid: "valid_utf8 (tc_ChainID (te_config ?te))" "valid_utf8 (te_previousHash ?te)" by code_simp+
  from tamper_state_resumes [OF run path calm _ valid, of "toy_evidence\<lparr>te_config := ?tc\<rparr>" "\<lambda>s. s"]
  show ?thesis by (auto simp: toy_evidence_def)
qed

text \<open>
  An event whose state cannot be saved has already moved the chain on: \<open>Apply\<close> returns an error,
  so the event is dropped, but its sequence number is spent and the next event refers to the hash
  of an event that was never sent.
\<close>

theorem failed_save_moves_chain:
  assumes "Apply hf e (Some te) s = ((e', Some err), ote', s')" and "matches te e"
    and "event_digest hf (te_metadataKey te) e = Some c"
  shows "\<exists>te'. ote' = Some te' \<and> te_sequence te' = te_sequence te + 1 \<and>
    te_previousHash te' = hashEvidence hf (te_config te) (te_sequence te + 1) (te_previousHash te) c"
  using assms
  by (auto simp: Apply_def hashEventForEvidence_digest [symmetric] chain_step_def Let_def
      split: prod.splits)

lemma failed_save_moves_chain_witness:
  "\<exists>te'. fst (snd (Apply toy_hash empty_event
        (Some (toy_evidence\<lparr>te_config := no_tamper_config\<lparr>tc_ChainID := ''c'', tc_StatePath := ''st''\<rparr>\<rparr>))
        (\<lparr>fs_files = (\<lambda>_. None), fs_temps = 0, fs_outcomes = [Fails ''mkdir'']\<rparr>))) = Some te' \<and>
     te_sequence te' = 1"
proof -
  let ?te = "toy_evidence\<lparr>te_config := no_tamper_config\<lparr>tc_ChainID := ''c'', tc_StatePath := ''st''\<rparr>\<rparr>"
  let ?r = "Apply toy_hash empty_event (Some ?te)
    (\<lparr>fs_files = (\<lambda>_. None), fs_temps = 0, fs_outcomes = [Fails ''mkdir'']\<rparr>)"
  have "snd (fst ?r) \<noteq> None" by code_simp
  then obtain e' err ote' s' where r: "?r = ((e', Some err), ote', s')"
    by (metis not_None_eq prod.collapse)
  have "event_digest toy_hash (te_metadataKey ?te) empty_event \<noteq> None" by code_simp
  then obtain c where c: "event_digest toy_hash (te_metadataKey ?te) empty_event = Some c" by blast
  have m: "matches ?te empty_event" by (simp add: matches_def toy_evidence_def)
  from failed_save_moves_chain [OF r m c] r show ?thesis by (auto simp: toy_evidence_def)
qed

end
