(* ===== verification/Counters.thy ===== *)
theory Counters
  imports Sdk_Errors Sdk_Config
begin

text \<open>
  \<open>logcenter/stats.go\<close>, \<open>logcenter/health.go\<close> and the callback arguments of
  \<open>logcenter/hooks.go\<close>.  The counters are \<open>uint64\<close> and wrap around.
\<close>

section \<open>Counters\<close>

record counters =
  ct_queued :: u64
  ct_truncated :: u64
  ct_dropped :: u64
  ct_sentEvents :: u64
  ct_sentBatches :: u64
  ct_failedEvents :: u64
  ct_failedBatches :: u64
  ct_accepted :: u64
  ct_duplicated :: u64
  ct_rejected :: u64
  ct_lastError :: string

definition zero_counters :: counters where
  "zero_counters = \<lparr>ct_queued = 0, ct_truncated = 0, ct_dropped = 0, ct_sentEvents = 0,
     ct_sentBatches = 0, ct_failedEvents = 0, ct_failedBatches = 0, ct_accepted = 0,
     ct_duplicated = 0, ct_rejected = 0, ct_lastError = []\<rparr>"

text \<open>The snapshot has the same fields.\<close>

type_synonym stats = counters

definition snapshot :: "counters \<Rightarrow> stats" where
  "snapshot c = c"

text \<open>The result says whether the text of the last error changed.\<close>

definition counters_setError :: "go_error option \<Rightarrow> counters \<Rightarrow> (string \<times> bool) \<times> counters" where
  "counters_setError err c =
     (case err of
        None \<Rightarrow> (([], False), c)
      | Some e \<Rightarrow>
        ((error_text e, ct_lastError c \<noteq> error_text e), c\<lparr>ct_lastError := error_text e\<rparr>))"

section \<open>Hooks\<close>

text \<open>One constructor for each callback, with the fields of its argument.\<close>

datatype hook_call =
    EventDrop event string "go_error option"
  | EventTruncation event event string
  | BatchFailure "event list" nat "go_error option"
  | EventRejection event event_error
  | ErrorChange string "go_error option"

section \<open>Health\<close>

definition HealthStatusOK :: string where "HealthStatusOK = ''ok''"
definition HealthStatusDegraded :: string where "HealthStatusDegraded = ''degraded''"
definition HealthStatusDisabled :: string where "HealthStatusDisabled = ''disabled''"

record health_report =
  hr_Status :: string
  hr_Enabled :: bool
  hr_SDKVersion :: string
  hr_Runtime :: string
  hr_Service :: string
  hr_Environment :: string
  hr_QueueLength :: nat
  hr_CheckedAt :: string
  hr_Stats :: stats

record health_options =
  ho_DegradedStatusCode :: int
  ho_DisabledStatusCode :: int

definition healthStatus :: "bool \<Rightarrow> stats \<Rightarrow> string" where
  "healthStatus enabled st =
     (if \<not> enabled then HealthStatusDisabled
      else if ct_dropped st > 0 \<or> ct_failedEvents st > 0 \<or> ct_failedBatches st > 0 \<or>
              ct_rejected st > 0 \<or> ct_lastError st \<noteq> []
      then HealthStatusDegraded
      else HealthStatusOK)"

definition healthHTTPStatus :: "string \<Rightarrow> health_options \<Rightarrow> int" where
  "healthHTTPStatus status ho =
     (if status = HealthStatusDegraded \<and> ho_DegradedStatusCode ho > 0 then ho_DegradedStatusCode ho
      else if status = HealthStatusDisabled \<and> ho_DisabledStatusCode ho > 0 then ho_DisabledStatusCode ho
      else 200)"

text \<open>The JSON of a report, and what the handler writes: \<open>Encoder.Encode\<close> adds a line end.\<close>

definition json_u64 :: "u64 \<Rightarrow> string" where
  "json_u64 n = nat_dec (unat n)"

definition stats_members :: "stats \<Rightarrow> (string \<times> string) list" where
  "stats_members st =
     [(''queued'', json_u64 (ct_queued st)),
      (''truncated'', json_u64 (ct_truncated st)),
      (''dropped'', json_u64 (ct_dropped st)),
      (''sent_events'', json_u64 (ct_sentEvents st)),
      (''sent_batches'', json_u64 (ct_sentBatches st)),
      (''failed_events'', json_u64 (ct_failedEvents st)),
      (''failed_batches'', json_u64 (ct_failedBatches st)),
      (''accepted'', json_u64 (ct_accepted st)),
      (''duplicated'', json_u64 (ct_duplicated st)),
      (''rejected'', json_u64 (ct_rejected st))] @
     (if ct_lastError st = [] then [] else [(''last_error'', json_string (ct_lastError st))])"

definition json_health :: "health_report \<Rightarrow> string" where
  "json_health r = json_object
     [(''status'', json_string (hr_Status r)),
      (''enabled'', json_bool (hr_Enabled r)),
      (''sdk_version'', json_string (hr_SDKVersion r)),
      (''runtime'', json_string (hr_Runtime r)),
      (''service'', json_string (hr_Service r)),
      (''environment'', json_string (hr_Environment r)),
      (''queue_length'', nat_dec (hr_QueueLength r)),
      (''checked_at'', json_string (hr_CheckedAt r)),
      (''stats'', json_object (stats_members (hr_Stats r)))]"

definition health_body :: "health_report \<Rightarrow> string" where
  "health_body r = json_health r @ [CHR 0x0A]"

lemma health_status_distinct:
  "distinct [HealthStatusOK, HealthStatusDegraded, HealthStatusDisabled]"
  by code_simp

text \<open>
  The health endpoint answers 200 unless the client is degraded or disabled and a status code
  for that is configured; and it reports \<open>ok\<close> exactly when the client is enabled and nothing was
  dropped, failed or rejected and no error was recorded.
\<close>

theorem health_sound:
  "(healthStatus enabled st = HealthStatusOK \<longleftrightarrow>
      enabled \<and> ct_dropped st = 0 \<and> ct_failedEvents st = 0 \<and> ct_failedBatches st = 0 \<and>
      ct_rejected st = 0 \<and> ct_lastError st = []) \<and>
   (healthHTTPStatus (healthStatus enabled st) ho = 200 \<or>
    \<not> enabled \<and> healthHTTPStatus (healthStatus enabled st) ho = ho_DisabledStatusCode ho \<or>
    healthStatus enabled st = HealthStatusDegraded \<and>
      healthHTTPStatus (healthStatus enabled st) ho = ho_DegradedStatusCode ho)"
  using health_status_distinct
  by (auto simp: healthStatus_def healthHTTPStatus_def word_gt_0)

text \<open>What the health endpoint writes is read back as an object with the report's fields; only the
  strings that are not UTF-8 have changed.\<close>

definition stats_json :: "stats \<Rightarrow> json" where
  "stats_json st = JObj
     ([(''queued'', JNum (json_u64 (ct_queued st))),
       (''truncated'', JNum (json_u64 (ct_truncated st))),
       (''dropped'', JNum (json_u64 (ct_dropped st))),
       (''sent_events'', JNum (json_u64 (ct_sentEvents st))),
       (''sent_batches'', JNum (json_u64 (ct_sentBatches st))),
       (''failed_events'', JNum (json_u64 (ct_failedEvents st))),
       (''failed_batches'', JNum (json_u64 (ct_failedBatches st))),
       (''accepted'', JNum (json_u64 (ct_accepted st))),
       (''duplicated'', JNum (json_u64 (ct_duplicated st))),
       (''rejected'', JNum (json_u64 (ct_rejected st)))] @
      (if ct_lastError st = [] then [] else [(''last_error'', JStr (to_valid (ct_lastError st)))]))"

definition health_json :: "health_report \<Rightarrow> json" where
  "health_json r = JObj
     [(''status'', JStr (to_valid (hr_Status r))),
      (''enabled'', JBool (hr_Enabled r)),
      (''sdk_version'', JStr (to_valid (hr_SDKVersion r))),
      (''runtime'', JStr (to_valid (hr_Runtime r))),
      (''service'', JStr (to_valid (hr_Service r))),
      (''environment'', JStr (to_valid (hr_Environment r))),
      (''queue_length'', JNum (nat_dec (hr_QueueLength r))),
      (''checked_at'', JStr (to_valid (hr_CheckedAt r))),
      (''stats'', stats_json (hr_Stats r))]"

lemma member_parses_key: "list_all (\<lambda>c. byte c < 128) k \<Longrightarrow> parses lim t j \<Longrightarrow> member_parses lim (k, t) (k, j)"
  by (simp add: member_parses_def to_valid_ascii)

lemma parses_nat: "parses lim (nat_dec n) (JNum (nat_dec n))"
  using parses_int [of lim "int n"] by (simp add: int_dec_def)

lemma parses_bool: "parses lim (json_bool b) (JBool b)"
  using parses_literals by (simp add: json_bool_def)

lemma parses_stats: "parses 1 (json_object (stats_members st)) (stats_json st)"
  unfolding stats_json_def
  by (auto simp: stats_members_def json_u64_def parses_nat parses_string intro!: parses_object [of 0, simplified] member_parses_key)

lemma health_body_read: "json_parse (health_body r) = Some (health_json r)"
proof -
  have p: "parses 2 (json_health r) (health_json r)"
    unfolding json_health_def health_json_def
    by (auto simp: parses_nat parses_string parses_bool parses_stats intro!: parses_object [of 1, simplified] member_parses_key)
  have "json_run maxNestingDepth (health_body r) Value [] = Some (health_json r, [CHR 0x0A])"
    using parses_run [OF p, of "[CHR 0x0A]" "[]" maxNestingDepth]
    by (simp add: health_body_def json_run_done maxNestingDepth_def delimited_def is_digit_def in_range_def byte_def)
  then show ?thesis by (simp add: json_parse_def json_space_def)
qed

end
