(* ===== verification/Base64.thy ===== *)
theory Base64
  imports Json_Text
begin

text \<open>
  \<open>encoding/base64\<close> as far as \<open>logcenter/external_provider_exchange.go\<close> and \<open>logcenter/id.go\<close> use it,
  and that its texts can be read back.
\<close>

section \<open>Base64\<close>

text \<open>The alphabets of \<open>base64.StdEncoding\<close> and \<open>base64.RawURLEncoding\<close>.\<close>

definition b64_std :: string where
  "b64_std = ''ABCDEFGHIJKLMNOPQRSTUVWXYZabcdefghijklmnopqrstuvwxyz0123456789+/''"

definition b64_url :: string where
  "b64_url = ''ABCDEFGHIJKLMNOPQRSTUVWXYZabcdefghijklmnopqrstuvwxyz0123456789-_''"

text \<open>\<open>EncodeToString\<close> with padding.\<close>

fun b64_encode :: "string \<Rightarrow> string \<Rightarrow> string" where
  "b64_encode al [] = []"
| "b64_encode al [a] = [al ! (byte a div 4), al ! (byte a mod 4 * 16), CHR ''='', CHR ''='']"
| "b64_encode al [a, b] =
     [al ! (byte a div 4), al ! (byte a mod 4 * 16 + byte b div 16), al ! (byte b mod 16 * 4), CHR ''='']"
| "b64_encode al (a # b # c # rest) =
     al ! (byte a div 4) # al ! (byte a mod 4 * 16 + byte b div 16) #
     al ! (byte b mod 16 * 4 + byte c div 64) # al ! (byte c mod 64) # b64_encode al rest"

text \<open>A raw encoding leaves the padding out.\<close>

definition b64_raw :: "string \<Rightarrow> string \<Rightarrow> string" where
  "b64_raw al s = filter (\<lambda>c. c \<noteq> CHR ''='') (b64_encode al s)"

section \<open>Reading it back\<close>

text \<open>Reading base64 back, group by group.\<close>

definition b64_value :: "string \<Rightarrow> char \<Rightarrow> nat" where
  "b64_value al c = length (takeWhile (\<lambda>d. d \<noteq> c) al)"

fun b64_decode :: "string \<Rightarrow> string \<Rightarrow> string" where
  "b64_decode al (p # q # r # s # rest) =
     char_of (b64_value al p * 4 + b64_value al q div 16) #
     (if r = CHR ''='' then []
      else char_of (b64_value al q mod 16 * 16 + b64_value al r div 4) #
        (if s = CHR ''='' then [] else char_of (b64_value al r mod 4 * 64 + b64_value al s) # b64_decode al rest))"
| "b64_decode al _ = []"

text \<open>An alphabet has 64 different letters, none of them the padding.\<close>

definition b64_proper :: "string \<Rightarrow> bool" where
  "b64_proper al \<longleftrightarrow> length al = 64 \<and> distinct al \<and> CHR ''='' \<notin> set al"

lemma b64_alphabets: "b64_proper b64_std" "b64_proper b64_url"
  by code_simp+

lemma takeWhile_nth: "distinct xs \<Longrightarrow> n < length xs \<Longrightarrow> length (takeWhile (\<lambda>d. d \<noteq> xs ! n) xs) = n"
  using takeWhile_eq_take_P_nth [of n xs "\<lambda>d. d \<noteq> xs ! n"] by (auto simp: nth_eq_iff_index_eq)

lemma b64_value_nth: "b64_proper al \<Longrightarrow> n < 64 \<Longrightarrow> b64_value al (al ! n) = n"
  using takeWhile_nth [of al n] by (simp add: b64_value_def b64_proper_def)

lemma b64_nth_pad: "b64_proper al \<Longrightarrow> n < 64 \<Longrightarrow> al ! n \<noteq> CHR ''=''"
  unfolding b64_proper_def by (metis nth_mem)

lemma char_of_byte [simp]: "char_of (byte c) = c"
  by (simp add: byte_def)

text \<open>The four digits of three bytes are below 64, and the bytes can be read off them.\<close>

lemma two_digits:
  fixes m d k :: nat
  assumes "k < d"
  shows "(m * d + k) div d = m" and "(m * d + k) mod d = k"
  using assms by simp_all

lemma digit_bound: "(m :: nat) < a \<Longrightarrow> k < d \<Longrightarrow> m * d + k < a * d"
  using mult_le_mono1 [of "Suc m" a d] by simp

lemma b64_bytes:
  "byte a div 4 < 64" "byte a mod 4 * 16 + byte b div 16 < 64" "byte b mod 16 * 4 + byte c div 64 < 64"
  "byte c mod 64 < 64" "byte a mod 4 * 16 < 64" "byte b mod 16 * 4 < 64"
  "byte a div 4 * 4 + (byte a mod 4 * 16 + byte b div 16) div 16 = byte a"
  "(byte a mod 4 * 16 + byte b div 16) mod 16 * 16 + (byte b mod 16 * 4 + byte c div 64) div 4 = byte b"
  "(byte b mod 16 * 4 + byte c div 64) mod 4 * 64 + byte c mod 64 = byte c"
proof -
  have lt: "byte a div 4 < 64" "byte b div 16 < 16" "byte c div 64 < 4"
    using byte_less [of a] byte_less [of b] byte_less [of c] by (simp_all add: less_mult_imp_div_less)
  show "byte a div 4 < 64" "byte c mod 64 < 64" "byte a mod 4 * 16 < 64" "byte b mod 16 * 4 < 64"
    using lt by simp_all
  show "byte a mod 4 * 16 + byte b div 16 < 64" using digit_bound [of "byte a mod 4" 4] lt by simp
  show "byte b mod 16 * 4 + byte c div 64 < 64" using digit_bound [of "byte b mod 16" 16] lt by simp
  show "byte a div 4 * 4 + (byte a mod 4 * 16 + byte b div 16) div 16 = byte a"
    unfolding two_digits [OF lt(2)] by simp
  show "(byte a mod 4 * 16 + byte b div 16) mod 16 * 16 + (byte b mod 16 * 4 + byte c div 64) div 4 = byte b"
    unfolding two_digits [OF lt(2)] two_digits [OF lt(3)] by simp
  show "(byte b mod 16 * 4 + byte c div 64) mod 4 * 64 + byte c mod 64 = byte c"
    unfolding two_digits [OF lt(3)] by simp
qed

text \<open>The same with the padding of one and two bytes.\<close>

lemma b64_padded:
  "byte a div 4 * 4 + (byte a mod 4 * 16) div 16 = byte a"
  "(byte a mod 4 * 16 + byte b div 16) mod 16 * 16 + (byte b mod 16 * 4) div 4 = byte b"
proof -
  have "byte b div 16 < 16" using byte_less [of b] by (simp add: less_mult_imp_div_less)
  then show "(byte a mod 4 * 16 + byte b div 16) mod 16 * 16 + (byte b mod 16 * 4) div 4 = byte b"
    using two_digits(2) [of "byte b div 16" 16 "byte a mod 4"] by simp
qed simp

lemma b64_roundtrip: "b64_proper al \<Longrightarrow> b64_decode al (b64_encode al s) = s"
proof (induction al s rule: b64_encode.induct)
  case (2 al a)
  then show ?case using b64_padded(1) [of a] by (simp add: b64_bytes b64_value_nth b64_nth_pad)
next
  case (3 al a b)
  then show ?case using b64_bytes(7) [of a b] b64_padded(2) [of a b]
    by (simp add: b64_bytes(1-6) b64_value_nth b64_nth_pad)
next
  case (4 al a b c rest)
  then show ?case using b64_bytes(7) [of a b] b64_bytes(8) [of a b c] b64_bytes(9) [of b c]
    by (simp add: b64_bytes(1-6) b64_value_nth b64_nth_pad)
qed simp

text \<open>The padding depends on the length only, so texts of one length are told apart without it.\<close>

definition b64_padding :: "nat \<Rightarrow> string" where
  "b64_padding n = replicate ((3 - n mod 3) mod 3) (CHR ''='')"

lemma b64_raw_padding: "b64_proper al \<Longrightarrow> b64_encode al s = b64_raw al s @ b64_padding (length s)"
proof (induction al s rule: b64_encode.induct)
  case (4 al a b c rest)
  have "b64_padding (length (a # b # c # rest)) = b64_padding (length rest)"
    by (simp add: b64_padding_def)
  with 4 show ?case by (simp add: b64_raw_def b64_bytes(1-6) b64_nth_pad)
qed (simp_all add: b64_raw_def b64_padding_def b64_bytes(1-6) b64_nth_pad numeral_2_eq_2)

lemma b64_raw_inj:
  assumes "b64_proper al" and "length s = length t" and "b64_raw al s = b64_raw al t"
  shows "s = t"
  using b64_roundtrip [OF assms(1)] b64_raw_padding [OF assms(1)] assms(2,3) by metis

end
