(* ===== verification/Ids.thy ===== *)
theory Ids
  imports Base64
begin

text \<open>
  The texts of \<open>logcenter/id.go\<close> and \<open>logcenter/id_fallback.go\<close>: sixteen random bytes in URL-safe
  base64, or, when the random source fails, the clock and a counter in base 36.  Which of the two
  is drawn, and the counter's state, are in \<open>Sdk_Client\<close>.
\<close>

section \<open>Base 36\<close>

definition digit36 :: "nat \<Rightarrow> char" where
  "digit36 d = ''0123456789abcdefghijklmnopqrstuvwxyz'' ! d"

text \<open>\<open>strconv.FormatUint(n, 36)\<close> and \<open>strconv.FormatInt(i, 36)\<close>.\<close>

fun nat_base36 :: "nat \<Rightarrow> string" where
  "nat_base36 n = (if n < 36 then [digit36 n] else nat_base36 (n div 36) @ [digit36 (n mod 36)])"

declare nat_base36.simps [simp del]

definition int_base36 :: "int \<Rightarrow> string" where
  "int_base36 i = (if i < 0 then CHR ''-'' # nat_base36 (nat (- i)) else nat_base36 (nat i))"

section \<open>The texts\<close>

definition random_text :: "string \<Rightarrow> string" where
  "random_text bytes = b64_raw b64_url bytes"

definition fallback_text :: "int \<Rightarrow> u64 \<Rightarrow> string" where
  "fallback_text nanos n = int_base36 nanos @ CHR ''_'' # nat_base36 (unat n)"

section \<open>They are told apart\<close>

lemma digits36: "distinct ''0123456789abcdefghijklmnopqrstuvwxyz''" "length ''0123456789abcdefghijklmnopqrstuvwxyz'' = 36"
  "CHR ''-'' \<notin> set ''0123456789abcdefghijklmnopqrstuvwxyz''" "CHR ''_'' \<notin> set ''0123456789abcdefghijklmnopqrstuvwxyz''"
  by code_simp+

lemma digit36_eq: "m < 36 \<Longrightarrow> n < 36 \<Longrightarrow> digit36 m = digit36 n \<longleftrightarrow> m = n"
  using digits36(1,2) by (simp add: digit36_def nth_eq_iff_index_eq)

lemma digit36_letter: "n < 36 \<Longrightarrow> digit36 n \<noteq> CHR ''-'' \<and> digit36 n \<noteq> CHR ''_''"
  unfolding digit36_def using digits36(2-4) by (metis nth_mem)

lemma nat_base36_letters: "c \<in> set (nat_base36 n) \<Longrightarrow> c \<noteq> CHR ''-'' \<and> c \<noteq> CHR ''_''"
proof (induction n rule: nat_base36.induct)
  case (1 n)
  then show ?case
    using digit36_letter [of n] digit36_letter [of "n mod 36"]
    by (cases "n < 36") (auto simp: nat_base36.simps [of n])
qed

lemma nat_base36_nonempty [simp]: "nat_base36 n \<noteq> []" "[] \<noteq> nat_base36 n"
  by (subst nat_base36.simps, simp)+

lemma nat_base36_inj: "nat_base36 m = nat_base36 n \<Longrightarrow> m = n"
proof (induction m arbitrary: n rule: nat_base36.induct)
  case (1 m)
  show ?case
  proof (cases "m < 36"; cases "n < 36")
    assume "\<not> m < 36" "\<not> n < 36"
    moreover from this 1(2) have "nat_base36 (m div 36) = nat_base36 (n div 36)" "m mod 36 = n mod 36"
      by (simp_all add: nat_base36.simps [of m] nat_base36.simps [of n] digit36_eq)
    ultimately show ?thesis using 1(1) by (metis div_mult_mod_eq)
  qed (use 1(2) in \<open>simp_all add: nat_base36.simps [of m] nat_base36.simps [of n] digit36_eq\<close>)
qed

lemma int_base36_inj: "int_base36 i = int_base36 j \<Longrightarrow> i = j"
proof -
  assume eq: "int_base36 i = int_base36 j"
  have "nat_base36 m \<noteq> CHR ''-'' # s" for m s
    using nat_base36_letters [of "CHR ''-''" m] by auto
  with eq have "(i < 0) = (j < 0)" by (auto simp: int_base36_def split: if_splits) metis+
  with eq show "i = j" by (auto simp: int_base36_def split: if_splits dest!: nat_base36_inj)
qed

lemma int_base36_letters: "CHR ''_'' \<notin> set (int_base36 i)"
  using nat_base36_letters by (auto simp: int_base36_def)

lemma random_text_inj: "length s = length t \<Longrightarrow> random_text s = random_text t \<Longrightarrow> s = t"
  using b64_raw_inj [OF b64_alphabets(2)] by (simp add: random_text_def)

lemma fallback_text_inj:
  assumes "fallback_text t m = fallback_text u n"
  shows "t = u \<and> m = n"
proof -
  have "int_base36 t = int_base36 u \<and> nat_base36 (unat m) = nat_base36 (unat n)"
    using assms int_base36_letters [of t] int_base36_letters [of u]
    unfolding fallback_text_def by (rule split_first [rotated 2])
  then show ?thesis by (auto dest!: int_base36_inj nat_base36_inj simp: word_unat_eq_iff)
qed

end
