(* ===== verification/Sdk_Client.thy ===== *)
theory Sdk_Client
  imports Ids Event_Decode Event_Queue Limiter Redactor Request_Context Event_Validation Outbox Tamper_Evidence Counters
begin

text \<open>
  \<open>logcenter/client.go\<close>: the client with its pipeline and its sending side.  The operations are
  functions on the state \<open>'w client\<close>; what runs concurrently (the goroutine of \<open>run\<close>, callers of
  \<open>Flush\<close> and \<open>Close\<close>) is composed of them in \<open>Client_Lifecycle\<close>.

  \<open>'w library\<close> collects what the client takes from outside: the Unicode tables, formatting, the
  digests, the text of a float, and the calls whose answers come from the world \<open>'w\<close>: the clock,
  \<open>rand.Read\<close> (sixteen bytes, or None when it fails), and \<open>HTTPClient.Do\<close> (url, authorization header and body in; an error, or
  status code and body out).  Deadlines of a context act through the answers of \<open>Do\<close>.  Hooks are
  a trace of their calls; \<open>callHook\<close> recovers their panics.
\<close>

section \<open>State\<close>

record 'w library =
  lib_lower :: "string \<Rightarrow> string"
  lib_fold :: "string \<Rightarrow> string list"
  lib_quote :: "string \<Rightarrow> string"
  lib_runtime :: string
  lib_hash :: hash_fns
  lib_float :: "string \<Rightarrow> string"
  lib_now :: "'w \<Rightarrow> int \<times> 'w"
  lib_random :: "'w \<Rightarrow> string option \<times> 'w"
  lib_sleep :: "int \<Rightarrow> 'w \<Rightarrow> 'w"
  lib_new_request :: "string \<Rightarrow> go_error option"
  lib_do :: "string \<Rightarrow> string \<Rightarrow> string \<Rightarrow> 'w \<Rightarrow> (go_error + int \<times> string) \<times> 'w"

record 'w client =
  cl_config :: config
  cl_disabled :: bool
  cl_redactor :: redactor
  cl_limiter :: limiter
  cl_queue :: event_queue
  cl_notify :: bool
  cl_closed :: bool
  cl_stats :: counters
  cl_outbox :: "durable_outbox option"
  cl_tamper :: "tamper_evidence option"
  cl_fs :: fs
  cl_trace :: "hook_call list"
  cl_fallback :: u64
  cl_world :: 'w

definition decode_event :: "'w library \<Rightarrow> string \<Rightarrow> event option" where
  "decode_event L = unmarshal_event (lib_float L)"

definition formatTime :: "int \<Rightarrow> string" where
  "formatTime t = format_rfc3339 t"

definition time_now :: "'w library \<Rightarrow> 'w client \<Rightarrow> int \<times> 'w client" where
  "time_now L c = (case lib_now L (cl_world c) of (t, w) \<Rightarrow> (t, c\<lparr>cl_world := w\<rparr>))"

definition time_Sleep :: "'w library \<Rightarrow> int \<Rightarrow> 'w client \<Rightarrow> 'w client" where
  "time_Sleep L d c = c\<lparr>cl_world := lib_sleep L d (cl_world c)\<rparr>"

text \<open>\<open>Time.UnixNano\<close> of a time in nanoseconds since the year 1.\<close>

definition unix_nano :: "int \<Rightarrow> int" where
  "unix_nano t = wrap64 (t - 62135596800 * 1000000000)"

text \<open>The package's \<open>fallbackCounter\<close> is kept in the client.\<close>

definition fallbackID :: "'w library \<Rightarrow> 'w client \<Rightarrow> string \<times> 'w client" where
  "fallbackID L c =
     (let value = cl_fallback c + 1
      in case time_now L (c\<lparr>cl_fallback := value\<rparr>) of
           (now, c) \<Rightarrow> (fallback_text (unix_nano now) value, c))"

definition newID :: "'w library \<Rightarrow> string \<Rightarrow> 'w client \<Rightarrow> string \<times> 'w client" where
  "newID L pre c =
     (case lib_random L (cl_world c) of
        (None, w) \<Rightarrow> (case fallbackID L (c\<lparr>cl_world := w\<rparr>) of (i, c) \<Rightarrow> (pre @ i, c))
      | (Some bytes, w) \<Rightarrow> (pre @ random_text bytes, c\<lparr>cl_world := w\<rparr>))"

text \<open>
  \<open>NewClient\<close>.  A tamper evidence that cannot be set up is left out; its error is only recorded
  in the counters.
\<close>

definition NewClient :: "'w library \<Rightarrow> config \<Rightarrow> fs \<Rightarrow> 'w \<Rightarrow> 'w client" where
  "NewClient L conf s w =
     (let conf = normalized (lib_runtime L) conf;
          (tamper, s) = newTamperEvidence (lib_quote L) (cfg_TamperEvidence conf) s
      in \<lparr>cl_config = conf,
          cl_disabled = (\<not> isEnabled conf),
          cl_redactor = newRedactor (lib_lower L) (lib_fold L) (entries_of (cfg_SensitiveKeyFragments conf)),
          cl_limiter = newLimiter conf,
          cl_queue = newEventQueue (cfg_BufferSize conf),
          cl_notify = False,
          cl_closed = (\<not> isEnabled conf),
          cl_stats = (case tamper of
             Inl err \<Rightarrow> snd (counters_setError (Some err) zero_counters) | Inr _ \<Rightarrow> zero_counters),
          cl_outbox = newDurableOutbox (cfg_OutboxPath conf),
          cl_tamper = (case tamper of Inl err \<Rightarrow> None | Inr te \<Rightarrow> te),
          cl_fs = s, cl_trace = [], cl_fallback = 0, cl_world = w\<rparr>)"

definition NewNoopClient :: "'w library \<Rightarrow> fs \<Rightarrow> 'w \<Rightarrow> 'w client" where
  "NewNoopClient L s w = NewClient L (empty_config\<lparr>cfg_Enabled := Some False\<rparr>) s w"

definition client_Enabled :: "'w client \<Rightarrow> bool" where
  "client_Enabled c \<longleftrightarrow> \<not> cl_disabled c"

definition client_Stats :: "'w client \<Rightarrow> stats" where
  "client_Stats c = snapshot (cl_stats c)"

definition client_Health :: "'w library \<Rightarrow> 'w client \<Rightarrow> health_report \<times> 'w client" where
  "client_Health L c =
     (case time_now L c of (t, c) \<Rightarrow>
       (\<lparr>hr_Status = healthStatus (client_Enabled c) (client_Stats c),
         hr_Enabled = client_Enabled c,
         hr_SDKVersion = SdkVersion,
         hr_Runtime = lib_runtime L,
         hr_Service = cfg_Service (cl_config c),
         hr_Environment = cfg_Environment (cl_config c),
         hr_QueueLength = queue_len (cl_queue c),
         hr_CheckedAt = formatTime t,
         hr_Stats = client_Stats c\<rparr>, c))"

text \<open>The handler of \<open>HealthHandler\<close>: the status code, the content type and the body.\<close>

definition client_HealthHandler ::
  "'w library \<Rightarrow> health_options list \<Rightarrow> 'w client \<Rightarrow> (int \<times> string \<times> string) \<times> 'w client" where
  "client_HealthHandler L options c =
     (let ho = (case options of [] \<Rightarrow> \<lparr>ho_DegradedStatusCode = 0, ho_DisabledStatusCode = 0\<rparr> | ho # _ \<Rightarrow> ho)
      in case client_Health L c of (report, c) \<Rightarrow>
          ((healthHTTPStatus (hr_Status report) ho, ''application/json'', health_body report), c))"

section \<open>Hooks and counters\<close>

definition call_hook :: "(hooks \<Rightarrow> bool) \<Rightarrow> hook_call \<Rightarrow> 'w client \<Rightarrow> 'w client" where
  "call_hook present call c =
     (if present (cfg_Hooks (cl_config c)) then c\<lparr>cl_trace := cl_trace c @ [call]\<rparr> else c)"

definition count :: "(counters \<Rightarrow> counters) \<Rightarrow> 'w client \<Rightarrow> 'w client" where
  "count f c = c\<lparr>cl_stats := f (cl_stats c)\<rparr>"

definition eventDropped :: "event \<Rightarrow> string \<Rightarrow> go_error option \<Rightarrow> 'w client \<Rightarrow> 'w client" where
  "eventDropped e reason err = call_hook hk_OnEventDropped (EventDrop e reason err)"

definition eventTruncated :: "event \<Rightarrow> event \<Rightarrow> string \<Rightarrow> 'w client \<Rightarrow> 'w client" where
  "eventTruncated before after reason = call_hook hk_OnEventTruncated (EventTruncation before after reason)"

definition client_setError :: "go_error option \<Rightarrow> 'w client \<Rightarrow> 'w client" where
  "client_setError err c =
     (case counters_setError err (cl_stats c) of
        ((lastError, changed), st) \<Rightarrow>
          (let c = c\<lparr>cl_stats := st\<rparr>
           in if \<not> changed then c else call_hook hk_OnErrorChanged (ErrorChange lastError err) c))"

definition add_dropped :: "'w client \<Rightarrow> 'w client" where
  "add_dropped = count (\<lambda>s. s\<lparr>ct_dropped := ct_dropped s + 1\<rparr>)"

section \<open>The pipeline\<close>

text \<open>\<open>now\<close> is read first, an id only when one is missing.\<close>

definition withDefaults :: "'w library \<Rightarrow> event \<Rightarrow> 'w client \<Rightarrow> event \<times> 'w client" where
  "withDefaults L e c =
     (case time_now L c of (now, c) \<Rightarrow>
       (let key = trim_space (ev_IdempotencyKey e);
            id = (if ev_EventID e = [] \<and> key \<noteq> [] then key else ev_EventID e)
        in case (if id = [] then newID L ''evt_'' c else (id, c)) of
             (id, c) \<Rightarrow>
               (e\<lparr>ev_EventID := id,
                  ev_IdempotencyKey := or_else key id,
                  ev_OccurredAt := or_else (ev_OccurredAt e) (formatTime now),
                  ev_Environment := or_else (ev_Environment e) (cfg_Environment (cl_config c)),
                  ev_Service := or_else (ev_Service e) (cfg_Service (cl_config c)),
                  ev_ServiceVersion := or_else (ev_ServiceVersion e) (cfg_Version (cl_config c))\<rparr>, c)))"

definition applyTamperEvidence ::
  "'w library \<Rightarrow> event \<Rightarrow> 'w client \<Rightarrow> (event \<times> go_error option) \<times> 'w client" where
  "applyTamperEvidence L e c =
     (case Apply (lib_hash L) e (cl_tamper c) (cl_fs c) of
        (r, te, s) \<Rightarrow> (r, c\<lparr>cl_tamper := te, cl_fs := s\<rparr>))"

definition note_truncation :: "event \<Rightarrow> event \<Rightarrow> 'w client \<Rightarrow> 'w client" where
  "note_truncation before after c =
     (if before = after then c
      else eventTruncated before after ''payload_limit''
             (count (\<lambda>s. s\<lparr>ct_truncated := ct_truncated s + 1\<rparr>) c))"

definition prepareEvent ::
  "'w library \<Rightarrow> event \<Rightarrow> 'w client \<Rightarrow> (event \<times> go_error option) \<times> 'w client" where
  "prepareEvent L e c =
     (case withDefaults L e c of (e, c) \<Rightarrow>
       (let before = redactEvent (lib_lower L) (cl_redactor c) e
        in case limitEvent (cl_limiter c) before of
             (e, Some err) \<Rightarrow> ((e, Some err), c)
           | (e, None) \<Rightarrow>
             (case applyTamperEvidence L e (note_truncation before e c) of
                ((e, Some err), c) \<Rightarrow> ((e, Some err), c)
              | ((e, None), c) \<Rightarrow> ((e, ValidateEvent (lib_quote L) e), c))))"

definition persistOutbox :: "event list \<Rightarrow> 'w client \<Rightarrow> 'w client" where
  "persistOutbox es c =
     (if cl_outbox c = None \<or> es = [] then c
      else (case outbox_Append (cl_outbox c) (copyEvents es) (cl_fs c) of
              (err, s) \<Rightarrow>
                (let c = c\<lparr>cl_fs := s\<rparr>
                 in if err = None then c else client_setError err c)))"

definition removeOutbox :: "'w library \<Rightarrow> event list \<Rightarrow> 'w client \<Rightarrow> 'w client" where
  "removeOutbox L es c =
     (if cl_outbox c = None \<or> es = [] then c
      else (case outbox_Remove (decode_event L) (cl_outbox c) (eventIDs es) (cl_fs c) of
              (err, s) \<Rightarrow>
                (let c = c\<lparr>cl_fs := s\<rparr>
                 in if err = None then c else client_setError err c)))"

definition signal :: "'w client \<Rightarrow> 'w client" where
  "signal c = c\<lparr>cl_notify := True\<rparr>"

definition drop_failed :: "event \<Rightarrow> go_error \<Rightarrow> 'w client \<Rightarrow> 'w client" where
  "drop_failed e err c =
     eventDropped e (eventDropReason err) (Some err) (client_setError (Some err) (add_dropped c))"

definition push_event :: "event \<Rightarrow> 'w client \<Rightarrow> bool \<times> 'w client" where
  "push_event e c =
     (case push e (cl_queue c) of (r, q) \<Rightarrow>
       (let c = c\<lparr>cl_queue := q\<rparr>;
            c = (case pr_dropped r of
                   None \<Rightarrow> c
                 | Some d \<Rightarrow> eventDropped d (pr_dropReason r) None (add_dropped c))
        in if \<not> pr_queued r then (False, c)
           else (True, signal (count (\<lambda>s. s\<lparr>ct_queued := ct_queued s + 1\<rparr>) c))))"

definition enqueue :: "'w library \<Rightarrow> event \<Rightarrow> 'w client \<Rightarrow> bool \<times> 'w client" where
  "enqueue L e c =
     (if cl_disabled c then (False, c)
      else if cl_closed c then (False, eventDropped e ''client_closed'' None (add_dropped c))
      else
        (case prepareEvent L e c of
           ((e, Some err), c) \<Rightarrow> (False, drop_failed e err c)
         | ((e, None), c) \<Rightarrow> push_event e (persistOutbox [e] c)))"

definition SendEvent :: "'w library \<Rightarrow> goctx \<Rightarrow> event \<Rightarrow> 'w client \<Rightarrow> bool \<times> 'w client" where
  "SendEvent L ctx e c = enqueue L (withContextFields ctx e) c"

section \<open>Sending\<close>

record batch_request =
  bq_BatchID :: string
  bq_SentAt :: string
  bq_Source :: fields
  bq_Events :: "event list"

definition json_batch :: "batch_request \<Rightarrow> string option" where
  "json_batch b =
     (case (json_val (GFields (bq_Source b)), those (map json_event (bq_Events b))) of
        (Some src, Some evs) \<Rightarrow> Some (json_object
          [(''batch_id'', json_string (bq_BatchID b)), (''sent_at'', json_string (bq_SentAt b)),
           (''source'', src), (''events'', json_array evs)])
      | _ \<Rightarrow> None)"

text \<open>\<open>io.LimitReader\<close>: at most \<open>n\<close> bytes are read.\<close>

definition limit_reader :: "int \<Rightarrow> string \<Rightarrow> string" where
  "limit_reader n body = (if int (length body) \<le> n then body else take (nat n) body)"

definition batch_too_large :: "int \<Rightarrow> int \<Rightarrow> go_error" where
  "batch_too_large limit actual =
     PlainError (''logcenter batch exceeds max_batch_bytes: limit_bytes='' @ int_dec limit @
                 '' actual_bytes='' @ int_dec actual)"

definition postBatch ::
  "'w library \<Rightarrow> batch_request \<Rightarrow> 'w client \<Rightarrow> (go_error + batch_response) \<times> 'w client" where
  "postBatch L payload c =
     (case json_batch payload of
        None \<Rightarrow> (Inl (PlainError ''json: unsupported value''), c)
      | Some body \<Rightarrow>
        (let limit = cfg_MaxBatchBytes (cl_config c); url = cfg_Endpoint (cl_config c) @ ''/v1/ingest/batch''
         in if limit > 0 \<and> int (length body) > limit then
              (Inl (batch_too_large limit (int (length body))), c)
            else
              (case lib_new_request L url of
                 Some err \<Rightarrow> (Inl err, c)
               | None \<Rightarrow>
                 (case lib_do L url (''Bearer '' @ cfg_APIKey (cl_config c)) body (cl_world c) of
                    (Inl err, w) \<Rightarrow> (Inl err, c\<lparr>cl_world := w\<rparr>)
                  | (Inr (statusCode, answer), w) \<Rightarrow>
                    (let answer = limit_reader (64 * 1024) answer; c = c\<lparr>cl_world := w\<rparr>
                     in if statusCode < 200 \<or> statusCode \<ge> 300 then (Inl (HttpError statusCode answer), c)
                        else (case unmarshal_response answer of
                                None \<Rightarrow> (Inl (PlainError ''invalid character in response''), c)
                              | Some r \<Rightarrow> (Inr r, c)))))))"

definition recordBatchFailure :: "go_error option \<Rightarrow> event list \<Rightarrow> 'w client \<Rightarrow> 'w client" where
  "recordBatchFailure err es c =
     call_hook hk_OnBatchFailed (BatchFailure es (length es) err)
       (client_setError err
         (count (\<lambda>s. s\<lparr>ct_failedBatches := ct_failedBatches s + 1,
                       ct_failedEvents := ct_failedEvents s + of_nat (length es)\<rparr>) c))"

fun recordEventRejections :: "event list \<Rightarrow> event_error list \<Rightarrow> 'w client \<Rightarrow> 'w client" where
  "recordEventRejections es [] c = c"
| "recordEventRejections es (ee # ees) c =
     (if ee_Index ee < 0 \<or> ee_Index ee \<ge> int (length es) then recordEventRejections es ees c
      else recordEventRejections es ees
             (call_hook hk_OnEventRejected (EventRejection (es ! nat (ee_Index ee)) ee) c))"

definition count_sent :: "nat \<Rightarrow> batch_response \<Rightarrow> 'w client \<Rightarrow> 'w client" where
  "count_sent n r = count (\<lambda>s. s\<lparr>
     ct_sentBatches := ct_sentBatches s + 1,
     ct_sentEvents := ct_sentEvents s + of_nat n,
     ct_accepted := ct_accepted s + of_int (br_Accepted r),
     ct_duplicated := ct_duplicated s + of_int (br_Duplicated r),
     ct_rejected := ct_rejected s + of_int (br_Rejected r)\<rparr>)"

definition batch_sent ::
  "'w library \<Rightarrow> event list \<Rightarrow> bool \<Rightarrow> batch_response \<Rightarrow> 'w client \<Rightarrow> go_error option \<times> 'w client" where
  "batch_sent L es rejectAsError r c =
     (let c = removeOutbox L es (recordEventRejections es (br_Errors r) (count_sent (length es) r c))
      in if rejectAsError \<and> br_Rejected r > 0 then
           (let err = RejectedEvents (br_Errors r) (br_Rejected r)
            in (Some err, client_setError (Some err) c))
         else (None, c))"

text \<open>The retry loop; None in \<open>lastErr\<close> is nil, as before the first attempt.\<close>

text \<open>\<open>time.Duration(attempt+1) * 50 * time.Millisecond\<close>.\<close>

definition retry_wait :: "int \<Rightarrow> int" where
  "retry_wait attempt = wrap64 ((attempt + 1) * 50 * 1000000)"

function send_attempts ::
  "'w library \<Rightarrow> event list \<Rightarrow> bool \<Rightarrow> batch_request \<Rightarrow> int \<Rightarrow> int \<Rightarrow> go_error option \<Rightarrow>
   'w client \<Rightarrow> go_error option \<times> 'w client" where
  "send_attempts L es rejectAsError payload attempts attempt lastErr c =
     (if attempt < attempts then
        (case postBatch L payload c of
           (Inr r, c) \<Rightarrow> batch_sent L es rejectAsError r c
         | (Inl err, c) \<Rightarrow>
           (if \<not> isRetryable err \<or> attempt = attempts - 1 then
              (Some err, recordBatchFailure (Some err) es c)
            else send_attempts L es rejectAsError payload attempts (attempt + 1) (Some err)
              (time_Sleep L (retry_wait attempt) c)))
      else (lastErr, recordBatchFailure lastErr es c))"
  by pat_completeness auto
termination
  by (relation "measure (\<lambda>(_, _, _, _, attempts, attempt, _, _). nat (attempts - attempt))") auto

declare send_attempts.simps [simp del]

definition sendBatchInternal ::
  "'w library \<Rightarrow> event list \<Rightarrow> bool \<Rightarrow> 'w client \<Rightarrow> go_error option \<times> 'w client" where
  "sendBatchInternal L es rejectAsError c =
     (if es = [] then (None, c)
      else if trim_space (cfg_Endpoint (cl_config c)) = [] then
        (let err = Some (PlainError ''logcenter endpoint is empty'') in (err, recordBatchFailure err es c))
      else if trim_space (cfg_APIKey (cl_config c)) = [] then
        (let err = Some (PlainError ''logcenter api key is empty'') in (err, recordBatchFailure err es c))
      else
        (case newID L ''bt_'' c of (batchID, c) \<Rightarrow>
        (case time_now L c of (now, c) \<Rightarrow>
          (let payload = \<lparr>bq_BatchID = batchID, bq_SentAt = formatTime now,
                 bq_Source = RedactFields (lib_lower L) (cl_redactor c) (cfg_Source (cl_config c)),
                 bq_Events = es\<rparr>
           in send_attempts L es rejectAsError payload (wrap64 (cfg_RetryAttempts (cl_config c) + 1)) 0 None c))))"

definition sendBatch :: "'w library \<Rightarrow> event list \<Rightarrow> 'w client \<Rightarrow> go_error option \<times> 'w client" where
  "sendBatch L es c = sendBatchInternal L es False c"

definition sendBatchSync :: "'w library \<Rightarrow> event list \<Rightarrow> 'w client \<Rightarrow> go_error option \<times> 'w client" where
  "sendBatchSync L es c = sendBatchInternal L es True c"

text \<open>\<open>SendEventSync\<close>; a nil context is replaced by the background context.\<close>

definition SendEventSync ::
  "'w library \<Rightarrow> goctx \<Rightarrow> event \<Rightarrow> 'w client \<Rightarrow> go_error option \<times> 'w client" where
  "SendEventSync L ctx e c =
     (if cl_disabled c then (None, c)
      else if cl_closed c then
        (Some ClientClosed, eventDropped e ''client_closed'' (Some ClientClosed) (add_dropped c))
      else
        (case prepareEvent L (withContextFields ctx e) c of
           ((e, Some err), c) \<Rightarrow> (Some err, drop_failed e err c)
         | ((e, None), c) \<Rightarrow>
           (case sendBatchSync L [e] c of
              (None, c) \<Rightarrow> (None, c)
            | (Some err, c) \<Rightarrow> (Some err, if isRetryable err then persistOutbox [e] c else c))))"

text \<open>
  \<open>sendOutbox\<close> loops until the outbox is empty or an error occurs; it need not end, so it takes
  fuel, and None says that the fuel ran out.
\<close>

fun sendOutbox :: "nat \<Rightarrow> 'w library \<Rightarrow> 'w client \<Rightarrow> (go_error option \<times> 'w client) option" where
  "sendOutbox 0 L c = None"
| "sendOutbox (Suc fuel) L c =
     (if cl_outbox c = None then Some (None, c)
      else
        (case outbox_Peek (decode_event L) (cl_outbox c) (cfg_BatchSize (cl_config c)) (cl_fs c) of
           (Inl err, s) \<Rightarrow> Some (Some err, client_setError (Some err) (c\<lparr>cl_fs := s\<rparr>))
         | (Inr es, s) \<Rightarrow>
           (let c = c\<lparr>cl_fs := s\<rparr>
            in if es = [] then Some (None, c)
               else (case sendBatchInternal L es False c of
                       (Some err, c) \<Rightarrow> Some (Some err, c)
                     | (None, c) \<Rightarrow> sendOutbox fuel L c))))"

section \<open>What sending leaves alone\<close>

text \<open>Everything but the counters, the hook trace, the file system and the world.\<close>

definition kept :: "'w client \<Rightarrow> config \<times> bool \<times> redactor \<times> limiter \<times> event_queue \<times> bool \<times> bool \<times>
    durable_outbox option \<times> tamper_evidence option" where
  "kept c = (cl_config c, cl_disabled c, cl_redactor c, cl_limiter c, cl_queue c, cl_notify c, cl_closed c,
     cl_outbox c, cl_tamper c)"

lemma kept_eq:
  "kept c' = kept c \<longleftrightarrow> cl_config c' = cl_config c \<and> cl_disabled c' = cl_disabled c \<and>
     cl_redactor c' = cl_redactor c \<and> cl_limiter c' = cl_limiter c \<and> cl_queue c' = cl_queue c \<and>
     cl_notify c' = cl_notify c \<and> cl_closed c' = cl_closed c \<and> cl_outbox c' = cl_outbox c \<and>
     cl_tamper c' = cl_tamper c"
  by (auto simp: kept_def)

lemma kept_updates [simp]:
  "kept (c\<lparr>cl_stats := st\<rparr>) = kept c" "kept (c\<lparr>cl_trace := tr\<rparr>) = kept c"
  "kept (c\<lparr>cl_fs := s\<rparr>) = kept c" "kept (c\<lparr>cl_world := w\<rparr>) = kept c"
  by (simp_all add: kept_def)

lemma kept_small [simp]:
  "kept (call_hook present call c) = kept c"
  "kept (count f c) = kept c"
  "kept (eventDropped e reason err c) = kept c"
  "kept (eventTruncated e e' reason c) = kept c"
  "kept (add_dropped c) = kept c"
  by (simp_all add: call_hook_def count_def eventDropped_def eventTruncated_def add_dropped_def)

lemma kept_setError [simp]: "kept (client_setError err c) = kept c"
  by (simp add: client_setError_def Let_def split: prod.split)

lemma kept_time [simp]: "time_now L c = (t, c') \<Longrightarrow> kept c' = kept c"
  by (auto simp: time_now_def split: prod.splits)

lemma kept_newID [simp]: "newID L pre c = (i, c') \<Longrightarrow> kept c' = kept c"
  by (auto simp: newID_def fallbackID_def time_now_def kept_def Let_def split: prod.splits option.splits)

lemma kept_persist [simp]: "kept (persistOutbox es c) = kept c"
  by (simp add: persistOutbox_def Let_def split: prod.split)

lemma kept_remove [simp]: "kept (removeOutbox L es c) = kept c"
  by (simp add: removeOutbox_def Let_def split: prod.split)

lemma kept_failure [simp]: "kept (recordBatchFailure err es c) = kept c"
  by (simp add: recordBatchFailure_def)

lemma kept_rejections [simp]: "kept (recordEventRejections es ees c) = kept c"
  by (induction es ees c rule: recordEventRejections.induct) simp_all

lemma kept_batch_sent [simp]: "kept (snd (batch_sent L es b r c)) = kept c"
  by (simp add: batch_sent_def count_sent_def Let_def)

lemma kept_postBatch: "postBatch L payload c = (r, c') \<Longrightarrow> kept c' = kept c"
  by (auto simp: postBatch_def Let_def split: option.splits if_splits prod.splits sum.splits)

lemma kept_send_attempts:
  "send_attempts L es b payload attempts attempt lastErr c = (r, c') \<Longrightarrow> kept c' = kept c"
proof (induction L es b payload attempts attempt lastErr c rule: send_attempts.induct)
  case (1 L es b payload attempts attempt lastErr c)
  show ?case
  proof (cases "attempt < attempts")
    case False
    with "1.prems" show ?thesis by (subst (asm) send_attempts.simps) auto
  next
    case True
    obtain x c1 where p: "postBatch L payload c = (x, c1)" by (cases "postBatch L payload c")
    note k = kept_postBatch [OF p]
    show ?thesis
    proof (cases x)
      case (Inr resp)
      with "1.prems" True p have "(r, c') = batch_sent L es b resp c1"
        by (subst (asm) send_attempts.simps) simp
      then have "c' = snd (batch_sent L es b resp c1)" by (metis snd_conv)
      with k show ?thesis by simp
    next
      case (Inl err)
      show ?thesis
      proof (cases "\<not> isRetryable err \<or> attempt = attempts - 1")
        case t: True
        with "1.prems" True p Inl k show ?thesis by (subst (asm) send_attempts.simps) auto
      next
        case f: False
        then have "send_attempts L es b payload attempts (attempt + 1) (Some err)
            (time_Sleep L (retry_wait attempt) c1) = (r, c')"
          using "1.prems" True p Inl by (subst (asm) send_attempts.simps) auto
        with "1.IH" [OF True p [symmetric] Inl f] k show ?thesis by (simp add: time_Sleep_def)
      qed
    qed
  qed
qed

lemma kept_sendBatchInternal: "sendBatchInternal L es b c = (r, c') \<Longrightarrow> kept c' = kept c"
  by (auto simp: sendBatchInternal_def Let_def split: if_splits prod.splits
      dest!: kept_send_attempts kept_time kept_newID)

lemma kept_sendBatch: "sendBatch L es c = (r, c') \<Longrightarrow> kept c' = kept c"
  by (simp add: sendBatch_def kept_sendBatchInternal)

lemma drain_shorter:
  "drain n q = (es, q') \<Longrightarrow> es \<noteq> [] \<Longrightarrow> length (q_events q') < length (q_events q)"
  using drain_prefix [of n q es q'] by (cases es) auto

section \<open>Draining the queue\<close>

text \<open>The first loop of \<open>sendQueued\<close>; the first error is kept and the loop goes on.\<close>

function drain_queue ::
  "'w library \<Rightarrow> go_error option \<Rightarrow> 'w client \<Rightarrow> go_error option \<times> 'w client" where
  "drain_queue L firstErr c =
     (case drain (cfg_BatchSize (cl_config c)) (cl_queue c) of
        (es, q) \<Rightarrow>
          (if es = [] then (firstErr, c\<lparr>cl_queue := q\<rparr>)
           else (case sendBatch L es (c\<lparr>cl_queue := q\<rparr>) of
                   (err, c) \<Rightarrow>
                     drain_queue L (if err \<noteq> None \<and> firstErr = None then err else firstErr) c)))"
  by pat_completeness auto
termination
proof (relation "measure (\<lambda>(L, err, c). length (q_events (cl_queue c)))", simp)
  fix L :: "'w library" and firstErr and c :: "'w client" and es q err c'
  assume d: "(es, q) = drain (cfg_BatchSize (cl_config c)) (cl_queue c)" "es \<noteq> []"
    and s: "(err, c') = sendBatch L es (c\<lparr>cl_queue := q\<rparr>)"
  have "kept c' = kept (c\<lparr>cl_queue := q\<rparr>)" using kept_sendBatch [OF s [symmetric]] .
  then have "cl_queue c' = q" by (simp add: kept_def)
  then show "((L, if err \<noteq> None \<and> firstErr = None then err else firstErr, c'), L, firstErr, c)
      \<in> measure (\<lambda>(L, err, c). length (q_events (cl_queue c)))"
    using drain_shorter [OF d(1) [symmetric] d(2)] by simp
qed

declare drain_queue.simps [simp del]

definition sendQueued :: "nat \<Rightarrow> 'w library \<Rightarrow> 'w client \<Rightarrow> (go_error option \<times> 'w client) option" where
  "sendQueued fuel L c =
     (case drain_queue L None c of
        (Some err, c) \<Rightarrow> Some (Some err, c)
      | (None, c) \<Rightarrow> sendOutbox fuel L c)"

section \<open>Small steps of the state\<close>

lemma call_hook_fields [frame_simps]:
  "cl_stats (call_hook present call c) = cl_stats c"
  "cl_fs (call_hook present call c) = cl_fs c"
  "cl_world (call_hook present call c) = cl_world c"
  by (simp_all add: call_hook_def)

lemma count_fields [frame_simps]:
  "cl_stats (count f c) = f (cl_stats c)"
  "cl_fs (count f c) = cl_fs c"
  "cl_trace (count f c) = cl_trace c"
  "cl_world (count f c) = cl_world c"
  by (simp_all add: count_def)

lemma setError_fields [frame_simps]:
  "cl_fs (client_setError err c) = cl_fs c"
  "cl_world (client_setError err c) = cl_world c"
  "cl_stats (client_setError err c) =
     (cl_stats c)\<lparr>ct_lastError := (case err of None \<Rightarrow> ct_lastError (cl_stats c) | Some e \<Rightarrow> error_text e)\<rparr>"
  by (auto simp: client_setError_def counters_setError_def call_hook_fields Let_def split: option.split)

lemma dropped_fields [frame_simps]:
  "cl_stats (eventDropped e reason err c) = cl_stats c"
  "cl_fs (eventDropped e reason err c) = cl_fs c"
  "cl_world (eventDropped e reason err c) = cl_world c"
  "cl_stats (add_dropped c) = (cl_stats c)\<lparr>ct_dropped := ct_dropped (cl_stats c) + 1\<rparr>"
  "cl_fs (add_dropped c) = cl_fs c"
  by (simp_all add: eventDropped_def add_dropped_def frame_simps)

lemma rejections_fields [frame_simps]:
  "cl_stats (recordEventRejections es ees c) = cl_stats c"
  "cl_fs (recordEventRejections es ees c) = cl_fs c"
  by (induction es ees c rule: recordEventRejections.induct) (simp_all add: frame_simps)

text \<open>The counters of traffic: everything but the text of the last error.\<close>

definition traffic :: "'w client \<Rightarrow> counters" where
  "traffic c = (cl_stats c)\<lparr>ct_lastError := []\<rparr>"

lemma traffic_simps [simp]:
  "traffic (client_setError err c) = traffic c"
  "traffic (call_hook present call c) = traffic c"
  "traffic (recordEventRejections es ees c) = traffic c"
  "traffic (eventDropped e reason err c) = traffic c"
  "traffic (c\<lparr>cl_fs := s\<rparr>) = traffic c"
  "traffic (c\<lparr>cl_world := w\<rparr>) = traffic c"
  "traffic (c\<lparr>cl_queue := q\<rparr>) = traffic c"
  "traffic (c\<lparr>cl_tamper := te\<rparr>) = traffic c"
  by (simp_all add: traffic_def frame_simps)

lemma traffic_persist [simp]: "traffic (persistOutbox es c) = traffic c"
  by (simp add: persistOutbox_def Let_def split: prod.split)

lemma traffic_remove [simp]: "traffic (removeOutbox L es c) = traffic c"
  by (simp add: removeOutbox_def Let_def split: prod.split)

lemma traffic_time: "time_now L c = (t, c') \<Longrightarrow> traffic c' = traffic c \<and> cl_fs c' = cl_fs c \<and> cl_trace c' = cl_trace c"
  by (auto simp: time_now_def traffic_def split: prod.splits)

lemma traffic_newID: "newID L pre c = (i, c') \<Longrightarrow> traffic c' = traffic c \<and> cl_fs c' = cl_fs c \<and> cl_trace c' = cl_trace c"
  by (auto simp: newID_def fallbackID_def time_now_def traffic_def Let_def split: prod.splits option.splits)

lemma postBatch_keeps:
  assumes "postBatch L payload c = (r, c')"
  shows "\<exists>w. c' = c\<lparr>cl_world := w\<rparr>"
proof -
  have same: "\<exists>w. x = x\<lparr>cl_world := w\<rparr>" for x :: "'a client"
    by (rule exI [of _ "cl_world x"]) simp
  from assms show ?thesis
    unfolding postBatch_def Let_def
    by (auto intro: same split: option.splits if_splits prod.splits sum.splits)
qed

text \<open>Counters after a batch: failed, or sent with the answer's numbers.\<close>

definition failed_batch :: "nat \<Rightarrow> counters \<Rightarrow> counters" where
  "failed_batch n s = s\<lparr>ct_failedBatches := ct_failedBatches s + 1, ct_failedEvents := ct_failedEvents s + of_nat n\<rparr>"

definition sent_batch :: "nat \<Rightarrow> batch_response \<Rightarrow> counters \<Rightarrow> counters" where
  "sent_batch n r s = s\<lparr>ct_sentBatches := ct_sentBatches s + 1, ct_sentEvents := ct_sentEvents s + of_nat n,
     ct_accepted := ct_accepted s + of_int (br_Accepted r), ct_duplicated := ct_duplicated s + of_int (br_Duplicated r),
     ct_rejected := ct_rejected s + of_int (br_Rejected r)\<rparr>"

lemma traffic_failure: "traffic (recordBatchFailure err es c) = failed_batch (length es) (traffic c)"
  by (simp add: recordBatchFailure_def traffic_def frame_simps failed_batch_def)

lemma fs_failure [simp]: "cl_fs (recordBatchFailure err es c) = cl_fs c"
  by (simp add: recordBatchFailure_def frame_simps)

lemma traffic_count_sent: "traffic (count_sent n r c) = sent_batch n r (traffic c)"
  by (simp add: count_sent_def traffic_def frame_simps sent_batch_def)

lemma traffic_batch_sent: "traffic (snd (batch_sent L es b r c)) = sent_batch (length es) r (traffic c)"
  by (simp add: batch_sent_def Let_def traffic_count_sent)

section \<open>Batches\<close>

text \<open>
  The outcome of a batch as a relation: a run of attempts of which all but the last failed with a
  retryable error.  \<open>posted k c c'\<close> says that \<open>k\<close> attempts lead from \<open>c\<close> to \<open>c'\<close>.
\<close>

inductive batch_outcome ::
  "'w library \<Rightarrow> event list \<Rightarrow> bool \<Rightarrow> batch_request \<Rightarrow> int \<Rightarrow> int \<Rightarrow> nat \<Rightarrow> 'w client \<Rightarrow>
   go_error option \<Rightarrow> 'w client \<Rightarrow> bool" where
  delivered: "postBatch L payload c = (Inr r, c1) \<Longrightarrow> attempt < attempts \<Longrightarrow>
     batch_sent L es b r c1 = (err, c') \<Longrightarrow> batch_outcome L es b payload attempts attempt 1 c err c'"
| gave_up: "postBatch L payload c = (Inl e, c1) \<Longrightarrow> attempt < attempts \<Longrightarrow> \<not> isRetryable e \<or> attempt = attempts - 1 \<Longrightarrow>
     c' = recordBatchFailure (Some e) es c1 \<Longrightarrow> batch_outcome L es b payload attempts attempt 1 c (Some e) c'"
| retried: "postBatch L payload c = (Inl e, c1) \<Longrightarrow> isRetryable e \<Longrightarrow> attempt + 1 < attempts \<Longrightarrow>
     batch_outcome L es b payload attempts (attempt + 1) n (time_Sleep L (retry_wait attempt) c1) err c' \<Longrightarrow>
     batch_outcome L es b payload attempts attempt (Suc n) c err c'"

lemma send_attempts_outcome:
  "send_attempts L es b payload attempts attempt lastErr c = (err, c') \<Longrightarrow> attempt < attempts \<Longrightarrow>
     \<exists>n. batch_outcome L es b payload attempts attempt n c err c'"
proof (induction L es b payload attempts attempt lastErr c rule: send_attempts.induct)
  case (1 L es b payload attempts attempt lastErr c)
  obtain x c1 where p: "postBatch L payload c = (x, c1)" by (cases "postBatch L payload c")
  show ?case
  proof (cases x)
    case (Inr r)
    with "1.prems" p have "batch_sent L es b r c1 = (err, c')"
      by (subst (asm) send_attempts.simps) simp
    with p Inr "1.prems"(2) have "batch_outcome L es b payload attempts attempt 1 c err c'"
      by (intro batch_outcome.delivered) auto
    then show ?thesis by blast
  next
    case (Inl e)
    show ?thesis
    proof (cases "\<not> isRetryable e \<or> attempt = attempts - 1")
      case True
      with "1.prems" p Inl have "err = Some e" "c' = recordBatchFailure (Some e) es c1"
        by (auto simp: send_attempts.simps [of L es b payload attempts attempt])
      with p Inl True "1.prems"(2) show ?thesis
        by (auto intro!: exI [of _ 1] batch_outcome.gave_up)
    next
      case False
      then have "send_attempts L es b payload attempts (attempt + 1) (Some e)
          (time_Sleep L (retry_wait attempt) c1) = (err, c')"
        using "1.prems" p Inl by (auto simp: send_attempts.simps [of L es b payload attempts attempt])
      moreover have "attempt + 1 < attempts" using False "1.prems"(2) by auto
      ultimately obtain n where "batch_outcome L es b payload attempts (attempt + 1) n
          (time_Sleep L (retry_wait attempt) c1) err c'"
        using "1.IH" [OF "1.prems"(2) p [symmetric] Inl False] by blast
      then have "batch_outcome L es b payload attempts attempt (Suc n) c err c'"
        using p Inl False "1.prems"(2) by (intro batch_outcome.retried) auto
      then show ?thesis by blast
    qed
  qed
qed

lemma outcome_attempts: "batch_outcome L es b payload attempts attempt n c err c' \<Longrightarrow> 1 \<le> n \<and> int n \<le> attempts - attempt"
  by (induction rule: batch_outcome.induct) auto

text \<open>Either the batch failed, with its files untouched, or it was answered and settled once.\<close>

lemma outcome_effect:
  "batch_outcome L es b payload attempts attempt n c err c' \<Longrightarrow>
     (\<exists>e. err = Some e \<and> traffic c' = failed_batch (length es) (traffic c) \<and> cl_fs c' = cl_fs c) \<or>
     (\<exists>r w. batch_sent L es b r (c\<lparr>cl_world := w\<rparr>) = (err, c') \<and>
        traffic c' = sent_batch (length es) r (traffic c))"
proof (induction rule: batch_outcome.induct)
  case (delivered L payload c r c1 attempt attempts es b err c')
  then obtain w where w: "c1 = c\<lparr>cl_world := w\<rparr>" using postBatch_keeps by blast
  then have "traffic c' = sent_batch (length es) r (traffic c)"
    using delivered(3) traffic_batch_sent [of L es b r c1] by simp
  with delivered(3) w show ?case by blast
next
  case (gave_up L payload c e c1 attempt attempts c' es b)
  then obtain w where w: "c1 = c\<lparr>cl_world := w\<rparr>" using postBatch_keeps by blast
  with gave_up show ?case by (simp add: traffic_failure)
next
  case (retried L payload c e c1 attempt attempts es b n err c')
  then obtain w where w: "c1 = c\<lparr>cl_world := w\<rparr>" using postBatch_keeps by blast
  with retried.IH show ?case by (simp add: time_Sleep_def)
qed

text \<open>
  The same run for the statements about a batch.  \<open>starts_batch\<close> is what happens before the first
  attempt: an id is drawn, the clock is read once, and the request is put together.
  \<open>failed_attempts L payload a k c c'\<close> says that \<open>k\<close> posts of the payload, the first of which is
  attempt \<open>a\<close>, failed one after the other with errors that allow another attempt, and that after
  attempt number \<open>i\<close>, counted from 0, the goroutine slept for \<open>i + 1\<close> times 50 milliseconds.
\<close>

definition starts_batch ::
  "'w library \<Rightarrow> event list \<Rightarrow> 'w client \<Rightarrow> batch_request \<Rightarrow> 'w client \<Rightarrow> bool" where
  "starts_batch L es c payload c0 \<longleftrightarrow>
     (\<exists>i now c1. newID L ''bt_'' c = (i, c1) \<and> time_now L c1 = (now, c0) \<and>
        payload = \<lparr>bq_BatchID = i, bq_SentAt = formatTime now,
          bq_Source = RedactFields (lib_lower L) (cl_redactor c) (cfg_Source (cl_config c)), bq_Events = es\<rparr>)"

inductive failed_attempts ::
  "'w library \<Rightarrow> batch_request \<Rightarrow> int \<Rightarrow> nat \<Rightarrow> 'w client \<Rightarrow> 'w client \<Rightarrow> bool" where
  no_attempt: "failed_attempts L payload a 0 c c"
| one_more: "postBatch L payload c = (Inl e, c1) \<Longrightarrow> isRetryable e \<Longrightarrow>
     failed_attempts L payload (a + 1) k (time_Sleep L (wrap64 ((a + 1) * 50000000)) c1) c2 \<Longrightarrow>
     failed_attempts L payload a (Suc k) c c2"

inductive_cases failed_attempts_0E: "failed_attempts L payload a 0 c c'"

lemma retry_wait_ms: "retry_wait a = wrap64 ((a + 1) * 50000000)"
  by (simp add: retry_wait_def algebra_simps)

lemma outcome_run:
  "batch_outcome L es b payload attempts a n c err c' \<Longrightarrow>
     \<exists>c1 x d. failed_attempts L payload a (n - 1) c c1 \<and> postBatch L payload c1 = (x, d) \<and>
       (case x of
          Inl e \<Rightarrow> err = Some e \<and> c' = recordBatchFailure (Some e) es d \<and>
            (\<not> isRetryable e \<or> a + int n = attempts)
        | Inr r \<Rightarrow> batch_sent L es b r d = (err, c'))"
proof (induction rule: batch_outcome.induct)
  case (delivered L payload c r c1 attempt attempts es b err c')
  then show ?case
    by (intro exI [of _ c] exI [of _ "Inr r"] exI [of _ c1]) (simp add: no_attempt)
next
  case (gave_up L payload c e c1 attempt attempts c' es b)
  then show ?case
    by (intro exI [of _ c] exI [of _ "Inl e"] exI [of _ c1]) (auto simp: no_attempt)
next
  case (retried L payload c e c1 attempt attempts es b n err c')
  obtain c2 x d where ih: "failed_attempts L payload (attempt + 1) (n - 1) (time_Sleep L (retry_wait attempt) c1) c2"
      "postBatch L payload c2 = (x, d)"
      "case x of
          Inl e \<Rightarrow> err = Some e \<and> c' = recordBatchFailure (Some e) es d \<and>
            (\<not> isRetryable e \<or> attempt + 1 + int n = attempts)
        | Inr r \<Rightarrow> batch_sent L es b r d = (err, c')"
    using retried.IH by blast
  have "Suc (n - 1) = Suc n - 1" using outcome_attempts [OF retried(4)] by simp
  moreover have "failed_attempts L payload attempt (Suc (n - 1)) c c2"
    using one_more [OF retried(1,2)] ih(1) by (simp add: retry_wait_ms)
  ultimately show ?case
    using ih(2,3) by (intro exI [of _ c2] exI [of _ x] exI [of _ d]) (auto split: sum.splits)
qed

lemma starts_batch_keeps:
  assumes "starts_batch L es c payload c0"
  shows "kept c0 = kept c" and "traffic c0 = traffic c" and "cl_fs c0 = cl_fs c"
proof -
  from assms obtain i now c1 where run: "newID L ''bt_'' c = (i, c1)" "time_now L c1 = (now, c0)"
    unfolding starts_batch_def by blast
  show "kept c0 = kept c" using kept_newID [OF run(1)] kept_time [OF run(2)] by simp
  show "traffic c0 = traffic c" "cl_fs c0 = cl_fs c"
    using traffic_newID [OF run(1)] traffic_time [OF run(2)] by simp_all
qed

lemma failed_attempts_keeps: "failed_attempts L payload a k c c' \<Longrightarrow> \<exists>w. c' = c\<lparr>cl_world := w\<rparr>"
proof (induction rule: failed_attempts.induct)
  case (no_attempt L payload a c)
  show ?case by (intro exI [of _ "cl_world c"]) simp
next
  case (one_more L payload c e c1 a k c2)
  then show ?case using postBatch_keeps [OF one_more(1)] by (auto simp: time_Sleep_def)
qed

lemma sendBatchInternal_cases:
  assumes "sendBatchInternal L es b c = (err, c')" and "es \<noteq> []"
    and "0 \<le> cfg_RetryAttempts (cl_config c)" and "cfg_RetryAttempts (cl_config c) < 2 ^ 63 - 1"
  obtains (misconfigured) e where "err = Some e" "c' = recordBatchFailure (Some e) es c"
  | (run) payload c1 n where "kept c1 = kept c" "traffic c1 = traffic c" "cl_fs c1 = cl_fs c"
      "bq_Events payload = es"
      "batch_outcome L es b payload (cfg_RetryAttempts (cl_config c) + 1) 0 n c1 err c'"
      "starts_batch L es c payload c1"
proof (cases "trim_space (cfg_Endpoint (cl_config c)) = [] \<or> trim_space (cfg_APIKey (cl_config c)) = []")
  case True
  with assms(1,2) that(1) show ?thesis by (auto simp: sendBatchInternal_def Let_def split: if_splits)
next
  case False
  let ?n = "cfg_RetryAttempts (cl_config c) + 1"
  have w: "wrap64 ?n = ?n" using assms(3,4) by (intro wrap64_id) auto
  obtain i c1 where i: "newID L ''bt_'' c = (i, c1)" by (cases "newID L ''bt_'' c")
  obtain t c2 where t: "time_now L c1 = (t, c2)" by (cases "time_now L c1")
  have k: "kept c2 = kept c" using kept_newID [OF i] kept_time [OF t] by simp
  then have "cl_config c2 = cl_config c" "cl_redactor c2 = cl_redactor c" by (simp_all add: kept_def)
  then obtain payload where p: "send_attempts L es b payload ?n 0 None c2 = (err, c')" "bq_Events payload = es"
      "starts_batch L es c payload c2"
    using assms(1,2) False i t w by (auto simp: sendBatchInternal_def starts_batch_def Let_def)
  from send_attempts_outcome [OF p(1)] assms(3)
  obtain n where "batch_outcome L es b payload ?n 0 n c2 err c'" by auto
  with p(2,3) show ?thesis
    using that(2) [of c2 payload n] k traffic_newID [OF i] traffic_time [OF t] by simp
qed

text \<open>The run of a configured batch, in the terms above.\<close>

lemma configured_run:
  assumes "sendBatchInternal L es b c = (err, c')" and "es \<noteq> []"
    and "0 \<le> cfg_RetryAttempts (cl_config c)" and "cfg_RetryAttempts (cl_config c) < 2 ^ 63 - 1"
    and "\<not> blank (cfg_Endpoint (cl_config c))" and "\<not> blank (cfg_APIKey (cl_config c))"
  shows "\<exists>payload c0 n c1 x d. starts_batch L es c payload c0 \<and>
    batch_outcome L es b payload (cfg_RetryAttempts (cl_config c) + 1) 0 (Suc n) c0 err c' \<and>
    failed_attempts L payload 0 n c0 c1 \<and> int n \<le> cfg_RetryAttempts (cl_config c) \<and>
    postBatch L payload c1 = (x, d) \<and>
    (case x of
       Inl e \<Rightarrow> err = Some e \<and> c' = recordBatchFailure (Some e) es d \<and>
         (\<not> isRetryable e \<or> int n = cfg_RetryAttempts (cl_config c))
     | Inr r \<Rightarrow> batch_sent L es b r d = (err, c'))"
proof -
  let ?n = "cfg_RetryAttempts (cl_config c) + 1"
  have w: "wrap64 ?n = ?n" using assms(3,4) by (intro wrap64_id) auto
  obtain i ca where i: "newID L ''bt_'' c = (i, ca)" by (cases "newID L ''bt_'' c")
  obtain t c0 where t: "time_now L ca = (t, c0)" by (cases "time_now L ca")
  have "kept c0 = kept c" using kept_newID [OF i] kept_time [OF t] by simp
  then have "cl_config c0 = cl_config c" "cl_redactor c0 = cl_redactor c" by (simp_all add: kept_def)
  then obtain payload where p: "send_attempts L es b payload ?n 0 None c0 = (err, c')"
      "starts_batch L es c payload c0"
    using assms(1,2,5,6) i t w by (auto simp: sendBatchInternal_def starts_batch_def blank_def Let_def)
  from send_attempts_outcome [OF p(1)] assms(3)
  obtain m where m: "batch_outcome L es b payload ?n 0 m c0 err c'" by auto
  then obtain n where n: "m = Suc n" "int n \<le> cfg_RetryAttempts (cl_config c)"
    using outcome_attempts [OF m] by (cases m) auto
  from outcome_run [OF m] obtain c1 x d where run: "failed_attempts L payload 0 n c0 c1"
      "postBatch L payload c1 = (x, d)"
      "case x of
         Inl e \<Rightarrow> err = Some e \<and> c' = recordBatchFailure (Some e) es d \<and> (\<not> isRetryable e \<or> 0 + int m = ?n)
       | Inr r \<Rightarrow> batch_sent L es b r d = (err, c')"
    unfolding n(1) by auto
  from run(3) have "case x of
       Inl e \<Rightarrow> err = Some e \<and> c' = recordBatchFailure (Some e) es d \<and>
         (\<not> isRetryable e \<or> int n = cfg_RetryAttempts (cl_config c))
     | Inr r \<Rightarrow> batch_sent L es b r d = (err, c')"
    unfolding n(1) by (auto split: sum.splits)
  with p(2) m n run(1,2) show ?thesis by blast
qed

lemma world_frame [simp]:
  "cl_world (recordBatchFailure e es c) = cl_world c" "cl_world (client_setError e c) = cl_world c"
  "cl_world (removeOutbox L es c) = cl_world c" "cl_world (count f c) = cl_world c"
  "cl_world (call_hook p h c) = cl_world c"
  by (simp_all add: recordBatchFailure_def client_setError_def removeOutbox_def count_def call_hook_def Let_def
      split: prod.split option.split)

section \<open>Properties of sending\<close>


subsection \<open>The retry budget\<close>

text \<open>
  \<open>naps\<close> observes the pauses in a world: \<open>time.Sleep\<close> adds its argument, and the clock, the source of
  ids and the HTTP client add nothing.
\<close>

definition observes_sleep :: "'w library \<Rightarrow> ('w \<Rightarrow> int list) \<Rightarrow> bool" where
  "observes_sleep L naps \<longleftrightarrow>
     (\<forall>d w. naps (lib_sleep L d w) = naps w @ [d]) \<and> (\<forall>w. naps (snd (lib_now L w)) = naps w) \<and>
     (\<forall>w. naps (snd (lib_random L w)) = naps w) \<and> (\<forall>url key body w. naps (snd (lib_do L url key body w)) = naps w)"

lemma world_rejections [simp]: "cl_world (recordEventRejections es ees c) = cl_world c"
  by (induction es ees c rule: recordEventRejections.induct) simp_all

lemma world_batch_sent: "batch_sent L es b r c = (err, c') \<Longrightarrow> cl_world c' = cl_world c"
  by (auto simp: batch_sent_def count_sent_def Let_def split: if_splits)

lemma naps_postBatch:
  assumes "observes_sleep L naps" and "postBatch L payload c = (r, c')"
  shows "naps (cl_world c') = naps (cl_world c)"
proof -
  have do: "naps w = naps v" if "lib_do L url key body v = (x, w)" for url key body v x w
    using assms(1) that unfolding observes_sleep_def by (metis snd_conv)
  from assms(2) show ?thesis
    by (auto simp: postBatch_def Let_def split: option.splits if_splits prod.splits sum.splits dest: do)
qed

lemma naps_ids:
  assumes "observes_sleep L naps"
  shows "newID L pre c = (i, c') \<Longrightarrow> naps (cl_world c') = naps (cl_world c)"
    and "time_now L c = (t, c') \<Longrightarrow> naps (cl_world c') = naps (cl_world c)"
proof -
  have now: "naps w = naps v" if "lib_now L v = (x, w)" for v x w
    using assms that unfolding observes_sleep_def by (metis snd_conv)
  have random: "naps w = naps v" if "lib_random L v = (x, w)" for v x w
    using assms that unfolding observes_sleep_def by (metis snd_conv)
  show "newID L pre c = (i, c') \<Longrightarrow> naps (cl_world c') = naps (cl_world c)"
    by (auto simp: newID_def fallbackID_def time_now_def Let_def split: prod.splits option.splits dest!: now random)
  show "time_now L c = (t, c') \<Longrightarrow> naps (cl_world c') = naps (cl_world c)"
    by (auto simp: time_now_def split: prod.splits dest!: now)
qed

lemma outcome_naps:
  assumes "observes_sleep L naps" and "batch_outcome L es b payload attempts attempt n c err c'"
  shows "naps (cl_world c') = naps (cl_world c) @ map retry_wait [attempt .. attempt + int n - 2]"
  using assms(2,1)
proof (induction rule: batch_outcome.induct)
  case (retried L payload c e c1 attempt attempts es b n err c')
  have "1 \<le> n" using outcome_attempts [OF retried(4)] by simp
  then have "[attempt .. attempt + int (Suc n) - 2] = attempt # [attempt + 1 .. attempt + 1 + int n - 2]"
    by (simp add: upto_rec1 algebra_simps)
  moreover have "naps (cl_world (time_Sleep L (retry_wait attempt) c1)) = naps (cl_world c) @ [retry_wait attempt]"
    using naps_postBatch [OF retried.prems retried(1)] retried.prems by (simp add: time_Sleep_def observes_sleep_def)
  ultimately show ?case using retried.IH [OF retried.prems] by simp
next
  case (delivered L payload c r c1 attempt attempts es b err c')
  then show ?case using naps_postBatch [OF delivered(4,1)] world_batch_sent [OF delivered(3)] by simp
qed (auto dest: naps_postBatch)

text \<open>
  C28: the retry budget is kept.  With an endpoint and a key configured, one request is put together,
  with an id, the time and the redacted source, and posted \<open>n + 1\<close> times, \<open>n\<close> being at most
  \<open>RetryAttempts\<close>.  The first \<open>n\<close> posts failed with a retryable error (no HTTP error, status 429 or
  500 and above); the last one was answered, or failed with an error that is not retryable or after
  which no attempt is left.  The goroutine slept 50 milliseconds after the first post, 50 more after
  each that follows, and at no other time.
\<close>

theorem batch_attempts_bounded:
  assumes "sendBatchInternal L es b c = (err, c')" and "es \<noteq> []"
    and "0 \<le> cfg_RetryAttempts (cl_config c)" and "cfg_RetryAttempts (cl_config c) < 2 ^ 63 - 1"
    and "\<not> blank (cfg_Endpoint (cl_config c))" and "\<not> blank (cfg_APIKey (cl_config c))"
    and "observes_sleep L naps"
  shows "\<exists>i now ca c0 n c1 x d payload.
    newID L ''bt_'' c = (i, ca) \<and> time_now L ca = (now, c0) \<and>
    payload = \<lparr>bq_BatchID = i, bq_SentAt = formatTime now,
      bq_Source = RedactFields (lib_lower L) (cl_redactor c) (cfg_Source (cl_config c)), bq_Events = es\<rparr> \<and>
    failed_attempts L payload 0 n c0 c1 \<and> int n \<le> cfg_RetryAttempts (cl_config c) \<and>
    postBatch L payload c1 = (x, d) \<and>
    (case x of
       Inl e \<Rightarrow> err = Some e \<and> c' = recordBatchFailure (Some e) es d \<and>
         (\<not> isRetryable e \<or> int n = cfg_RetryAttempts (cl_config c))
     | Inr r \<Rightarrow> batch_sent L es b r d = (err, c')) \<and>
    naps (cl_world c') = naps (cl_world c) @ map (\<lambda>k. wrap64 (k * 50000000)) [1 .. int n]"
proof -
  obtain payload c0 n c1 x d where run: "starts_batch L es c payload c0"
      "batch_outcome L es b payload (cfg_RetryAttempts (cl_config c) + 1) 0 (Suc n) c0 err c'"
      "failed_attempts L payload 0 n c0 c1" "int n \<le> cfg_RetryAttempts (cl_config c)"
      "postBatch L payload c1 = (x, d)"
      "case x of
         Inl e \<Rightarrow> err = Some e \<and> c' = recordBatchFailure (Some e) es d \<and>
           (\<not> isRetryable e \<or> int n = cfg_RetryAttempts (cl_config c))
       | Inr r \<Rightarrow> batch_sent L es b r d = (err, c')"
    using configured_run [OF assms(1-6)] by blast
  from run(1) obtain i now ca where start: "newID L ''bt_'' c = (i, ca)" "time_now L ca = (now, c0)"
      "payload = \<lparr>bq_BatchID = i, bq_SentAt = formatTime now,
        bq_Source = RedactFields (lib_lower L) (cl_redactor c) (cfg_Source (cl_config c)), bq_Events = es\<rparr>"
    unfolding starts_batch_def by blast
  have "naps (cl_world c0) = naps (cl_world c)"
    using naps_ids(1) [OF assms(7) start(1)] naps_ids(2) [OF assms(7) start(2)] by simp
  then have "naps (cl_world c') = naps (cl_world c) @ map retry_wait [0 .. int n - 1]"
    using outcome_naps [OF assms(7) run(2)] by simp
  moreover have "map retry_wait [0 .. int n - 1] = map (\<lambda>k. wrap64 (k * 50000000)) [1 .. int n]"
    by (rule nth_equalityI) (simp_all add: retry_wait_ms add.commute)
  ultimately have "naps (cl_world c') = naps (cl_world c) @ map (\<lambda>k. wrap64 (k * 50000000)) [1 .. int n]" by simp
  with start run(3-6) show ?thesis by blast
qed

text \<open>
  The largest retry count sends nothing.  \<open>RetryAttempts + 1\<close> wraps around for \<open>MaxInt64\<close>: the
  loop runs no attempt, the batch counts as failed, and the caller is told nil, success.
\<close>

theorem retry_overflow:
  assumes "cfg_RetryAttempts (cl_config c) = 2 ^ 63 - 1" and "es \<noteq> []"
    and "\<not> blank (cfg_Endpoint (cl_config c))" and "\<not> blank (cfg_APIKey (cl_config c))"
  shows "\<exists>c1. kept c1 = kept c \<and> traffic c1 = traffic c \<and>
    sendBatchInternal L es b c = (None, recordBatchFailure None es c1)"
proof -
  obtain i c1 where i: "newID L ''bt_'' c = (i, c1)" by (cases "newID L ''bt_'' c")
  obtain t c2 where t: "time_now L c1 = (t, c2)" by (cases "time_now L c1")
  have k: "kept c2 = kept c" using kept_newID [OF i] kept_time [OF t] by simp
  then have "cl_config c2 = cl_config c" by (simp add: kept_def)
  moreover have "wrap64 (2 ^ 63) < 0" by code_simp
  ultimately have "sendBatchInternal L es b c = (None, recordBatchFailure None es c2)"
    using assms i t by (simp add: sendBatchInternal_def Let_def blank_def send_attempts.simps)
  with k traffic_newID [OF i] traffic_time [OF t] show ?thesis by auto
qed

section \<open>The pipeline\<close>

lemma withDefaults_event:
  assumes "withDefaults L e c = (e', c')"
  obtains r now where
    "e' = e\<lparr>ev_EventID := or_else (ev_EventID e) (or_else (trim_space (ev_IdempotencyKey e)) (''evt_'' @ r)),
       ev_IdempotencyKey := or_else (trim_space (ev_IdempotencyKey e))
         (or_else (ev_EventID e) (or_else (trim_space (ev_IdempotencyKey e)) (''evt_'' @ r))),
       ev_OccurredAt := or_else (ev_OccurredAt e) (formatTime now),
       ev_Environment := or_else (ev_Environment e) (cfg_Environment (cl_config c)),
       ev_Service := or_else (ev_Service e) (cfg_Service (cl_config c)),
       ev_ServiceVersion := or_else (ev_ServiceVersion e) (cfg_Version (cl_config c))\<rparr>"
    and "kept c' = kept c" and "traffic c' = traffic c" and "cl_fs c' = cl_fs c"
proof -
  obtain now c1 where t: "time_now L c = (now, c1)" by (cases "time_now L c")
  obtain i c2 where n: "newID L ''evt_'' c1 = (i, c2)" by (cases "newID L ''evt_'' c1")
  then obtain r where r: "i = ''evt_'' @ r" by (auto simp: newID_def split: prod.splits option.splits)
  have cfg: "cl_config c1 = cl_config c" "cl_config c2 = cl_config c"
    using kept_time [OF t] kept_newID [OF n] by (simp_all add: kept_def)
  let ?k = "trim_space (ev_IdempotencyKey e)"
  let ?ev = "e\<lparr>ev_EventID := or_else (ev_EventID e) (or_else ?k (''evt_'' @ r)),
       ev_IdempotencyKey := or_else ?k (or_else (ev_EventID e) (or_else ?k (''evt_'' @ r))),
       ev_OccurredAt := or_else (ev_OccurredAt e) (formatTime now),
       ev_Environment := or_else (ev_Environment e) (cfg_Environment (cl_config c)),
       ev_Service := or_else (ev_Service e) (cfg_Service (cl_config c)),
       ev_ServiceVersion := or_else (ev_ServiceVersion e) (cfg_Version (cl_config c))\<rparr>"
  consider (has) "ev_EventID e \<noteq> []" | (key) "ev_EventID e = []" "?k \<noteq> []"
    | (fresh) "ev_EventID e = []" "?k = []" by blast
  then have "withDefaults L e c = (?ev, if ev_EventID e = [] \<and> ?k = [] then c2 else c1)"
    by cases (simp_all add: withDefaults_def t n r cfg or_else_def Let_def)
  with assms have ev: "e' = ?ev" and c': "c' = c1 \<or> c' = c2" by (simp_all split: if_splits)
  have "kept c' = kept c" "traffic c' = traffic c" "cl_fs c' = cl_fs c"
    using c' kept_time [OF t] kept_newID [OF n] traffic_time [OF t] traffic_newID [OF n] by auto
  with ev that show ?thesis by blast
qed

text \<open>What preparing an event leaves alone: the queue, the switches, and the counters of traffic
  other than the truncations.\<close>

definition idle :: "'w client \<Rightarrow> 'w client \<Rightarrow> bool" where
  "idle c c' \<longleftrightarrow> cl_queue c' = cl_queue c \<and> cl_closed c' = cl_closed c \<and> cl_disabled c' = cl_disabled c \<and>
     cl_config c' = cl_config c \<and> cl_outbox c' = cl_outbox c \<and> cl_redactor c' = cl_redactor c \<and>
     cl_limiter c' = cl_limiter c \<and>
     (\<exists>n. traffic c' = (traffic c)\<lparr>ct_truncated := n\<rparr>)"

lemma idle_kept: "kept c' = kept c \<Longrightarrow> traffic c' = traffic c \<Longrightarrow> idle c c'"
  unfolding idle_def kept_eq by (auto intro: exI [of _ "ct_truncated (traffic c)"])

lemma idle_trans: "idle c c1 \<Longrightarrow> idle c1 c2 \<Longrightarrow> idle c c2"
  by (auto simp: idle_def)

lemma idle_truncation: "idle c (note_truncation before after c)"
proof (cases "before = after")
  case True
  then show ?thesis by (simp add: note_truncation_def idle_kept)
next
  case False
  have "traffic (note_truncation before after c) = (traffic c)\<lparr>ct_truncated := ct_truncated (traffic c) + 1\<rparr>"
    using False by (simp add: note_truncation_def eventTruncated_def traffic_def frame_simps)
  moreover have "kept (note_truncation before after c) = kept c"
    using False by (simp add: note_truncation_def)
  ultimately show ?thesis unfolding idle_def kept_eq by auto
qed

lemma idle_tamper: "applyTamperEvidence L e c = (r, c') \<Longrightarrow> idle c c'"
  by (auto simp: applyTamperEvidence_def idle_def traffic_def split: prod.splits
      intro: exI [of _ "ct_truncated (cl_stats c)"])

lemma prepareEvent_stages:
  assumes "prepareEvent L e c = ((e', err), c')"
  obtains d c1 where "withDefaults L e c = (d, c1)" and "idle c c'"
    and "err = None \<Longrightarrow> \<exists>c2 c3.
      limitEvent (cl_limiter c) (redactEvent (lib_lower L) (cl_redactor c) d) =
        (limit_fields_of (cl_limiter c) (redactEvent (lib_lower L) (cl_redactor c) d), None) \<and>
      cl_tamper c2 = cl_tamper c \<and>
      applyTamperEvidence L (limit_fields_of (cl_limiter c) (redactEvent (lib_lower L) (cl_redactor c) d)) c2 =
        ((e', None), c3) \<and> ValidateEvent (lib_quote L) e' = None"
proof -
  obtain d c1 where d: "withDefaults L e c = (d, c1)" by (cases "withDefaults L e c")
  have wd: "kept c1 = kept c" "traffic c1 = traffic c" using withDefaults_event [OF d] by metis+
  have same: "cl_redactor c1 = cl_redactor c" "cl_limiter c1 = cl_limiter c" "cl_tamper c1 = cl_tamper c"
    using wd(1) by (simp_all add: kept_def)
  have i1: "idle c c1" using idle_kept wd by blast
  let ?r = "redactEvent (lib_lower L) (cl_redactor c) d"
  let ?l = "limit_fields_of (cl_limiter c) ?r"
  obtain lerr where lim: "limitEvent (cl_limiter c) ?r = (?l, lerr)"
    using fst_limitEvent [of "cl_limiter c" ?r] by (metis prod.collapse)
  show ?thesis
  proof (cases lerr)
    case (Some x)
    then have "c' = c1" "err = Some x" using assms d lim same by (auto simp: prepareEvent_def Let_def)
    with that [OF d] i1 show ?thesis by simp
  next
    case None
    let ?c2 = "note_truncation ?r ?l c1"
    obtain t terr c3 where ta: "applyTamperEvidence L ?l ?c2 = ((t, terr), c3)"
      by (metis prod.collapse)
    have i3: "idle c c3" using i1 idle_truncation idle_tamper [OF ta] idle_trans by blast
    have tm: "cl_tamper ?c2 = cl_tamper c"
      using same by (simp add: note_truncation_def eventTruncated_def call_hook_def count_def)
    show ?thesis
    proof (cases terr)
      case (Some x)
      then have "c' = c3" "err = Some x" using assms d lim same None ta by (auto simp: prepareEvent_def Let_def)
      with that [OF d] i3 show ?thesis by simp
    next
      case n2: None
      then have r: "c' = c3" "e' = t" "err = ValidateEvent (lib_quote L) t"
        using assms d lim same None ta by (auto simp: prepareEvent_def Let_def)
      with that [OF d] i3 lim None ta n2 tm show ?thesis by auto
    qed
  qed
qed

lemma applyTamper_event:
  assumes "applyTamperEvidence L e c = ((e', None), c')"
  shows "\<exists>key v. e' = e \<or> e' = e\<lparr>ev_Metadata := Some (entry_set key v (entries_of (ev_Metadata e)))\<rparr>"
  using assms
  by (auto simp: applyTamperEvidence_def Apply_def chain_step_def Let_def
      split: option.splits if_splits sum.splits prod.splits)

lemma prepared_event:
  assumes "prepareEvent L e c = ((e', None), c')" and "0 < lm_maxEventBytes (cl_limiter c)"
  shows "let d = fst (withDefaults L e c); r = redactEvent (lib_lower L) (cl_redactor c) d;
      l = limit_fields_of (cl_limiter c) r in
    (\<forall>v \<in> {GFields (ev_Metadata r), GFields (ev_Data r), ev_Changes r, ev_OldValue r, ev_NewValue r}.
       masked (IsSensitiveKey (lib_lower L) (cl_redactor c)) v) \<and>
    (\<exists>t. json_event l = Some t \<and> int (length t) \<le> lm_maxEventBytes (cl_limiter c)) \<and>
    (e' = l \<or> (\<exists>key v. e' = l\<lparr>ev_Metadata := Some (entry_set key v (entries_of (ev_Metadata l)))\<rparr>)) \<and>
    well_formed_event e'"
proof -
  obtain d c1 c2 c3 where d: "withDefaults L e c = (d, c1)"
    and lim: "limitEvent (cl_limiter c) (redactEvent (lib_lower L) (cl_redactor c) d) =
        (limit_fields_of (cl_limiter c) (redactEvent (lib_lower L) (cl_redactor c) d), None)"
    and ta: "applyTamperEvidence L (limit_fields_of (cl_limiter c) (redactEvent (lib_lower L) (cl_redactor c) d)) c2 =
        ((e', None), c3)" and v: "ValidateEvent (lib_quote L) e' = None"
    using prepareEvent_stages [OF assms(1)] by metis
  let ?r = "redactEvent (lib_lower L) (cl_redactor c) d"
  have "\<forall>v \<in> {GFields (ev_Metadata ?r), GFields (ev_Data ?r), ev_Changes ?r, ev_OldValue ?r, ev_NewValue ?r}.
       masked (IsSensitiveKey (lib_lower L) (cl_redactor c)) v"
    by (simp add: stage_simps RedactFields_masked redact_masked RedactNamedValue_masked del: masked.simps)
  moreover have "\<exists>t. json_event (limit_fields_of (cl_limiter c) ?r) = Some t \<and>
      int (length t) \<le> lm_maxEventBytes (cl_limiter c)"
    using limitEvent_ok [OF assms(2), of ?r] lim by simp
  moreover have "well_formed_event e'" using v by (simp add: ValidateEvent_spec)
  ultimately show ?thesis
    unfolding Let_def d fst_conv using applyTamper_event [OF ta] by blast
qed

text \<open>
  C1: what leaves the pipeline.  An event that \<open>prepareEvent\<close> accepts is well-formed; it is the
  caller's event with the defaults filled in, redacted (every value under a sensitive key masked),
  then limited (its JSON within \<open>MaxEventBytes\<close>), in that order; after that at most one metadata
  entry, the tamper evidence, is added.
\<close>
theorem prepareEvent_pipeline:
  assumes "prepareEvent L e c = ((e', None), c')" and "0 < lm_maxEventBytes (cl_limiter c)"
  shows "let d = fst (withDefaults L e c); r = redactEvent (lib_lower L) (cl_redactor c) d;
      l = limit_fields_of (cl_limiter c) r in
    (\<forall>v \<in> {GFields (ev_Metadata r), GFields (ev_Data r), ev_Changes r, ev_OldValue r, ev_NewValue r}.
       masked (IsSensitiveKey (lib_lower L) (cl_redactor c)) v) \<and>
    (\<exists>t. json_event l = Some t \<and> int (length t) \<le> lm_maxEventBytes (cl_limiter c)) \<and>
    (e' = l \<or> (\<exists>key v. e' = l\<lparr>ev_Metadata := Some (entry_set key v (entries_of (ev_Metadata l)))\<rparr>)) \<and>
    well_formed_event e'"
  using prepared_event [OF assms] .

section \<open>Enqueueing\<close>

lemma traffic_drop: "traffic (drop_failed e err c) = (traffic c)\<lparr>ct_dropped := ct_dropped (traffic c) + 1\<rparr>"
  by (simp add: drop_failed_def) (simp add: traffic_def frame_simps)

lemma kept_drop [simp]: "kept (drop_failed e err c) = kept c"
  by (simp add: drop_failed_def)

lemma push_event_effect:
  assumes "push_event e c = (ok, c')"
  shows "\<exists>r. push_outcome e (cl_queue c) r (cl_queue c') \<and> ok = pr_queued r \<and>
    traffic c' = (traffic c)\<lparr>
      ct_dropped := ct_dropped (traffic c) + (if pr_dropped r = None then 0 else 1),
      ct_queued := ct_queued (traffic c) + (if ok then 1 else 0)\<rparr> \<and>
    (ok \<longrightarrow> cl_notify c') \<and> cl_fs c' = cl_fs c"
proof -
  obtain r q where p: "push e (cl_queue c) = (r, q)" by (cases "push e (cl_queue c)")
  let ?c1 = "c\<lparr>cl_queue := q\<rparr>"
  let ?c2 = "case pr_dropped r of None \<Rightarrow> ?c1 | Some d \<Rightarrow> eventDropped d (pr_dropReason r) None (add_dropped ?c1)"
  have t2: "traffic ?c2 = (traffic c)\<lparr>ct_dropped := ct_dropped (traffic c) + (if pr_dropped r = None then 0 else 1)\<rparr>"
    by (cases "pr_dropped r") (simp_all, simp_all add: traffic_def frame_simps)
  have k2: "kept ?c2 = kept ?c1" by (cases "pr_dropped r") simp_all
  have f2: "cl_fs ?c2 = cl_fs c" by (cases "pr_dropped r") (simp_all add: frame_simps)
  have res: "(ok, c') = (if \<not> pr_queued r then (False, ?c2)
      else (True, signal (count (\<lambda>s. s\<lparr>ct_queued := ct_queued s + 1\<rparr>) ?c2)))"
    using assms p by (simp add: push_event_def Let_def)
  have "cl_queue c' = q"
    using res k2 by (auto simp: kept_def signal_def count_def split: if_splits)
  moreover have "traffic c' = (traffic c)\<lparr>
      ct_dropped := ct_dropped (traffic c) + (if pr_dropped r = None then 0 else 1),
      ct_queued := ct_queued (traffic c) + (if ok then 1 else 0)\<rparr>"
  proof (cases "pr_queued r")
    case True
    then have "ok" "c' = signal (count (\<lambda>s. s\<lparr>ct_queued := ct_queued s + 1\<rparr>) ?c2)" using res by simp_all
    moreover have "traffic (signal (count (\<lambda>s. s\<lparr>ct_queued := ct_queued s + 1\<rparr>) ?c2)) =
        (traffic ?c2)\<lparr>ct_queued := ct_queued (traffic ?c2) + 1\<rparr>"
      by (simp add: traffic_def signal_def count_def)
    ultimately show ?thesis unfolding t2 by simp
  next
    case False
    then have "\<not> ok" "c' = ?c2" using res by simp_all
    then show ?thesis using t2 by simp
  qed
  ultimately show ?thesis
    using push_refines [OF p] res f2 by (intro exI [of _ r]) (auto simp: signal_def count_def split: if_splits)
qed

lemma prepare_ok_formed: "prepareEvent L e c = ((e', None), c') \<Longrightarrow> well_formed_event e'"
  using prepareEvent_stages ValidateEvent_spec by metis

text \<open>
  C2: every call of \<open>enqueue\<close> on an open client has one of two outcomes, and the counters tell them
  apart.  Either the event was refused before the queue: the answer is false, the queue is as it
  was and one drop is counted.  Or a well-formed event was offered to the queue: the answer and the
  new queue are those of \<open>push\<close>, a drop is counted exactly when \<open>push\<close> gave one up, and an
  accepted event is counted as queued and the sender is notified.
\<close>

theorem enqueue_outcomes:
  assumes "enqueue L e c = (ok, c')" and "\<not> cl_disabled c" and "\<not> cl_closed c"
  shows "(\<not> ok \<and> cl_queue c' = cl_queue c \<and> ct_dropped (traffic c') = ct_dropped (traffic c) + 1 \<and>
      ct_queued (traffic c') = ct_queued (traffic c)) \<or>
    (\<exists>e' r. well_formed_event e' \<and> push_outcome e' (cl_queue c) r (cl_queue c') \<and> ok = pr_queued r \<and>
      ct_dropped (traffic c') = ct_dropped (traffic c) + (if pr_dropped r = None then 0 else 1) \<and>
      ct_queued (traffic c') = ct_queued (traffic c) + (if ok then 1 else 0) \<and> (ok \<longrightarrow> cl_notify c'))"
proof -
  obtain e1 err c1 where p: "prepareEvent L e c = ((e1, err), c1)" by (metis prod.collapse)
  have idle: "idle c c1" using prepareEvent_stages [OF p] by metis
  then have same: "cl_queue c1 = cl_queue c" "ct_dropped (traffic c1) = ct_dropped (traffic c)"
      "ct_queued (traffic c1) = ct_queued (traffic c)"
    by (auto simp: idle_def)
  show ?thesis
  proof (cases err)
    case (Some x)
    then have "ok = False" "c' = drop_failed e1 x c1" using assms p by (simp_all add: enqueue_def)
    moreover have "cl_queue (drop_failed e1 x c1) = cl_queue c1" using kept_drop [of e1 x c1] by (simp add: kept_def)
    ultimately show ?thesis using same by (simp add: traffic_drop)
  next
    case None
    then have "push_event e1 (persistOutbox [e1] c1) = (ok, c')" using assms p by (simp add: enqueue_def)
    from push_event_effect [OF this]
    obtain r where "push_outcome e1 (cl_queue (persistOutbox [e1] c1)) r (cl_queue c')" "ok = pr_queued r"
        "traffic c' = (traffic c1)\<lparr>
          ct_dropped := ct_dropped (traffic c1) + (if pr_dropped r = None then 0 else 1),
          ct_queued := ct_queued (traffic c1) + (if ok then 1 else 0)\<rparr>" "ok \<longrightarrow> cl_notify c'"
      by auto
    moreover have "cl_queue (persistOutbox [e1] c1) = cl_queue c"
      using kept_persist [of "[e1]" c1] same(1) by (simp add: kept_def)
    moreover have "well_formed_event e1" using p None prepare_ok_formed by blast
    ultimately show ?thesis using same by (intro disjI2 exI [of _ e1] exI [of _ r]) simp
  qed
qed

text \<open>
  A disabled client does nothing: no operation changes its state or reports an error.  A closed
  client refuses events, counts each as dropped and queues and sends nothing.
\<close>

theorem disabled_and_closed:
  "(cl_disabled c \<longrightarrow> enqueue L e c = (False, c) \<and> SendEventSync L ctx e c = (None, c)) \<and>
   (\<not> cl_disabled c \<and> cl_closed c \<longrightarrow>
      fst (enqueue L e c) = False \<and> fst (SendEventSync L ctx e c) = Some ClientClosed \<and>
      (\<forall>c' \<in> {snd (enqueue L e c), snd (SendEventSync L ctx e c)}.
         kept c' = kept c \<and> cl_fs c' = cl_fs c \<and> cl_world c' = cl_world c \<and>
         traffic c' = (traffic c)\<lparr>ct_dropped := ct_dropped (traffic c) + 1\<rparr>))"
  by (auto simp: enqueue_def SendEventSync_def frame_simps add_dropped_def count_def eventDropped_def traffic_def)

section \<open>Errors of the pipeline\<close>

lemma wrap_error_plain: "wrap_error what err \<noteq> RejectedEvents errs n"
  by (simp add: wrap_error_def)

lemma saveState_error: "saveState te s = (Some err, s') \<Longrightarrow> err \<noteq> RejectedEvents errs n"
  by (auto simp: saveState_def replaceFile_def wrap_error_plain Let_def
      split: if_splits prod.splits option.splits sum.splits os_error.splits)

lemma prepareEvent_error:
  assumes "prepareEvent L e c = ((e', Some err), c')"
  shows "err \<noteq> RejectedEvents errs n"
proof -
  obtain d c1 where d: "withDefaults L e c = (d, c1)" by (cases "withDefaults L e c")
  obtain l lerr where lim: "limitEvent (cl_limiter c1) (redactEvent (lib_lower L) (cl_redactor c1) d) = (l, lerr)"
    by (cases "limitEvent (cl_limiter c1) (redactEvent (lib_lower L) (cl_redactor c1) d)")
  show ?thesis
  proof (cases lerr)
    case (Some x)
    then have "err = x" using assms d lim by (auto simp: prepareEvent_def Let_def)
    moreover have "\<exists>why. x = InvalidEvent why"
      using lim Some by (auto simp: limitEvent_def Let_def split: if_splits option.splits)
    ultimately show ?thesis by auto
  next
    case None
    let ?c2 = "note_truncation (redactEvent (lib_lower L) (cl_redactor c1) d) l c1"
    obtain t terr c3 where ta: "applyTamperEvidence L l ?c2 = ((t, terr), c3)" by (metis prod.collapse)
    show ?thesis
    proof (cases terr)
      case (Some x)
      then have "err = x" using assms d lim None ta by (auto simp: prepareEvent_def Let_def)
      moreover have "x \<noteq> RejectedEvents errs n"
        using ta Some saveState_error
        by (auto simp: applyTamperEvidence_def Apply_def hashEventForEvidence_def
            split: prod.splits option.splits if_splits sum.splits)
      ultimately show ?thesis by simp
    next
      case n: None
      then have "ValidateEvent (lib_quote L) t = Some err"
        using assms d lim None ta by (auto simp: prepareEvent_def Let_def)
      then show ?thesis using ValidateEvent_invalid by fastforce
    qed
  qed
qed

text \<open>
  \<open>SendEventSync\<close> stores an event that the server has just refused: the error for rejected
  events counts as retryable, so the event is appended to the outbox and will be sent, and
  refused, again.
\<close>

theorem rejected_event_is_stored:
  assumes "SendEventSync L ctx e c = (Some (RejectedEvents errs n), c')"
  shows "\<exists>e' c1. c' = persistOutbox [e'] c1 \<and> well_formed_event e'"
proof -
  have open_: "\<not> cl_disabled c" "\<not> cl_closed c" using assms by (auto simp: SendEventSync_def split: if_splits)
  obtain e1 err c1 where p: "prepareEvent L (withContextFields ctx e) c = ((e1, err), c1)"
    by (metis prod.collapse)
  show ?thesis
  proof (cases err)
    case None
    with assms open_ p have "\<exists>c2. c' = persistOutbox [e1] c2"
      by (auto simp: SendEventSync_def split: prod.splits option.splits)
    with p None prepare_ok_formed show ?thesis by blast
  next
    case (Some x)
    then have "x = RejectedEvents errs n" using assms open_ p by (simp add: SendEventSync_def)
    with p Some prepareEvent_error show ?thesis by blast
  qed
qed

text \<open>
  A long id is fatal.  The limiter cuts the idempotency key but not the event id, so an event
  whose id is longer than \<open>MaxStringBytes\<close> never passes validation.
\<close>

theorem long_id_is_invalid:
  assumes "0 < lm_maxStringBytes l" and "lm_maxStringBytes l < int (length (trim_space (ev_EventID e)))"
    and "ev_IdempotencyKey e = ev_EventID e" and "\<not> blank (limit_string l (ev_EventID e))"
  shows "ValidateEvent quote (fst (limitEvent l e)) =
    Some (InvalidEvent ''idempotency_key must match event_id when both are set'')"
proof -
  let ?e = "fst (limitEvent l e)"
  have "ev_EventID ?e = ev_EventID e" "ev_IdempotencyKey ?e = limit_string l (ev_EventID e)"
    using assms(3) by (simp_all add: fst_limitEvent limit_fields_of_def)
  moreover have "trim_space (ev_EventID e) \<noteq> trim_space (limit_string l (ev_EventID e))"
    using length_trim_space [of "limit_string l (ev_EventID e)"] limit_string_bound [OF assms(1), of "ev_EventID e"]
      assms(2) by auto
  ultimately show ?thesis using assms(4) by (simp add: ValidateEvent_def blank_def)
qed

section \<open>Ids\<close>

lemma newID_parts:
  assumes "newID L pre c = (i, d)"
  shows "fst (lib_random L (cl_world c)) = Some bytes \<Longrightarrow> i = pre @ random_text bytes"
    and "fst (lib_random L (cl_world c)) = None \<Longrightarrow>
      \<exists>t. i = pre @ fallback_text t (cl_fallback c + 1) \<and> cl_fallback d = cl_fallback c + 1"
  using assms by (auto simp: newID_def fallbackID_def time_now_def Let_def split: prod.splits option.splits)

text \<open>
  C36: when ids repeat.  Two ids with one prefix that both come from the random source, with as many
  bytes each, are equal only when the source gave the same bytes to both; two ids that are both
  drawn without it are equal only when the counter stood at the same value for both; and the counter
  moves on with each such id, so that among the ids drawn without the random source none comes back
  before the counter has gone through all 64-bit values.  A random id is not compared with one drawn
  without the random source.
\<close>
theorem ids_differ:
  assumes "newID L pre c = (i, d)" and "newID L pre c' = (j, d')"
    and "fst (lib_random L (cl_world c)) = r" and "fst (lib_random L (cl_world c')) = r'"
    and "map_option length r = map_option length r'"
  shows "(i = j \<longrightarrow> r = r' \<and> (r = None \<longrightarrow> cl_fallback c = cl_fallback c')) \<and>
    (r = None \<longrightarrow> cl_fallback d = cl_fallback c + 1)"
  using assms newID_parts [OF assms(1)] newID_parts [OF assms(2)]
  by (cases r; cases r') (auto dest: random_text_inj fallback_text_inj)

end
