(* ===== verification/Outbox_Replay.thy ===== *)
theory Outbox_Replay
  imports Sdk_Client
begin

text \<open>
  \<open>sendOutbox\<close> of \<open>logcenter/client.go\<close> over the outbox file of \<open>Outbox\<close>: on a working file
  system a successful batch of stored events leaves the file without them, so replaying ends when
  every stored event has an id, and it need not end otherwise.
\<close>

section \<open>The outbox of a client\<close>

text \<open>The file system works: no call fails and the outbox file is whole.\<close>

definition calm :: "string \<Rightarrow> fs \<Rightarrow> bool" where
  "calm name s \<longleftrightarrow> fs_outcomes s = [] \<and> log_whole name s"

lemma no_fault_ops [simp]:
  assumes "fs_outcomes s = []"
  shows "fst (os_Write p t s) = None" and "fs_outcomes (snd (os_Write p t s)) = []"
    and "fs_outcomes (snd (os_Remove p s)) = []" and "fs_outcomes (snd (os_CreateTemp s)) = []"
    and "\<exists>q. fst (os_CreateTemp s) = Inr q" and "fst (os_Remove p s) \<in> {None, Some NotExist}"
    and "fs_outcomes (snd (os_Rename p q s)) = []" and "fs_files s p \<noteq> None \<Longrightarrow> fst (os_Rename p q s) = None"
    and "os_Read p s = ((case fs_files s p of None \<Rightarrow> Inl NotExist | Some c \<Rightarrow> Inr c), s)"
  using assms by (auto simp: os_Write_def os_Remove_def os_CreateTemp_def os_Rename_def os_Read_def
      failure_def Let_def split: option.split)

lemma rewrite_loop_calm:
  "fs_outcomes s = [] \<Longrightarrow> scan_all maxLine body \<noteq> None \<Longrightarrow>
     \<exists>k s'. rewrite_loop decode ids tmp body n s = (RewriteDone k, s') \<and> fs_outcomes s' = []"
proof (induction decode ids tmp body n s rule: rewrite_loop.induct)
  case (1 decode ids tmp body n s)
  show ?case
  proof (cases "next_line maxLine body")
    case ScanEnd
    with "1.prems" show ?thesis by (subst rewrite_loop.simps) simp
  next
    case TooLong
    with "1.prems" show ?thesis by (subst (asm) scan_all.simps) simp
  next
    case (Line l r)
    then have sc: "scan_all maxLine r \<noteq> None"
      using "1.prems"(2) by (subst (asm) scan_all.simps) auto
    show ?thesis
    proof (cases "line_removed decode ids l")
      case True
      from "1.IH"(1) [OF Line True [unfolded line_removed_def] "1.prems"(1) sc] Line True show ?thesis
        by (subst rewrite_loop.simps) (simp add: line_removed_def)
    next
      case False
      obtain s1 where w: "os_Write tmp (l @ [newline]) s = (None, s1)"
        using no_fault_ops(1) [OF "1.prems"(1)] by (metis prod.collapse)
      then have "fs_outcomes s1 = []" using no_fault_ops(2) [OF "1.prems"(1)] by (metis snd_conv)
      from "1.IH"(2) [OF Line False [unfolded line_removed_def] w [symmetric] refl this sc] Line False w
      show ?thesis by (subst rewrite_loop.simps) (simp add: line_removed_def)
    qed
  qed
qed

lemma finish_remove_calm:
  assumes "fs_outcomes s = []" and "fs_files s (Temp n) \<noteq> None"
  shows "fst (finish_remove name (Temp n) k s) = None \<and> fs_outcomes (snd (finish_remove name (Temp n) k s)) = []"
proof (cases "k = 0")
  case True
  have "fs_outcomes (discard_temp (Temp n) s) = []" using assms(1) by (simp add: discard_temp_def)
  from no_fault_ops(3,6) [OF this, of "Named name"] assms(1) True show ?thesis
    by (auto simp: finish_remove_def split: prod.splits)
next
  case False
  obtain r s1 where rm: "os_Remove (Named name) s = (r, s1)" by (cases "os_Remove (Named name) s")
  have r: "r \<in> {None, Some NotExist}" and s1: "fs_outcomes s1 = []"
    using no_fault_ops(3,6) [OF assms(1), of "Named name"] rm by simp_all
  have "fs_files s1 (Temp n) \<noteq> None" using os_Remove_other [OF rm, of "Temp n"] assms(2) by simp
  then obtain s2 where rn: "os_Rename (Temp n) (Named name) s1 = (None, s2)" "fs_outcomes s2 = []"
    using no_fault_ops(7,8) [OF s1] by (metis prod.collapse)
  then have "replaceFile (Temp n) (Named name) s = (None, s2)"
    using rm r by (auto simp: replaceFile_def)
  with assms(1) False rn(2) show ?thesis by (simp add: finish_remove_def)
qed

lemma outbox_Remove_calm:
  assumes "calm name s"
  shows "\<exists>s'. outbox_Remove decode (Some name) ids s = (None, s') \<and> calm name s'"
proof -
  define ks where "ks = filter (\<lambda>i. i \<noteq> []) ids"
  have nf: "fs_outcomes s = []" and whole: "log_whole name s" using assms by (simp_all add: calm_def)
  have "\<exists>s'. outbox_Remove decode (Some name) ids s = (None, s') \<and> fs_outcomes s' = []"
  proof (cases "ks = [] \<or> fs_files s (Named name) = None")
    case True
    then show ?thesis using nf by (auto simp: outbox_Remove_def ks_def [symmetric] Let_def)
  next
    case False
    then obtain body where body: "fs_files s (Named name) = Some body" by blast
    obtain tmp s1 where t: "os_CreateTemp s = (Inr tmp, s1)" and nf1: "fs_outcomes s1 = []"
      using no_fault_ops(4,5) [OF nf] by (metis prod.collapse)
    obtain n where n: "tmp = Temp n" "fs_files s1 (Temp n) = Some []"
      using os_CreateTemp_ok [OF t] by auto
    have "scan_all maxLine body \<noteq> None"
      using whole body by (auto simp: log_whole_def file_text_def scan_all_unlines)
    then obtain k s2 where w: "rewrite_loop decode ks (Temp n) body 0 s1 = (RewriteDone k, s2)" "fs_outcomes s2 = []"
      using rewrite_loop_calm [OF nf1] by blast
    have "fs_files s2 (Temp n) \<noteq> None" using rewrite_loop_done [OF w(1) n(2)] by auto
    from finish_remove_calm [OF w(2) this] obtain s3 where
        "finish_remove name (Temp n) k s2 = (None, s3)" "fs_outcomes s3 = []"
      by (metis prod.collapse)
    then show ?thesis
      using False body nf t n w by (auto simp: outbox_Remove_def ks_def [symmetric] Let_def)
  qed
  then show ?thesis using outbox_Remove_ok [OF _ whole] by (auto simp: calm_def)
qed

lemma outbox_Peek_calm:
  assumes "calm name s"
  shows "outbox_Peek decode (Some name) n s =
    (Inr (if n \<le> 0 then log_events decode name s else take (nat n) (log_events decode name s)), s)"
proof -
  have nf: "fs_outcomes s = []" and whole: "log_whole name s" using assms by (simp_all add: calm_def)
  show ?thesis
  proof (cases "fs_files s (Named name)")
    case None
    then have "log_events decode name s = []"
      by (simp add: log_events_def file_text_def scan_all.simps [of _ "[]"] next_line_def map_filter_simps)
    with None nf show ?thesis by (simp add: outbox_Peek_def)
  next
    case (Some body)
    then obtain ls where "list_all (line_ok maxLine) ls" "body = unlines ls"
      using whole by (auto simp: log_whole_def file_text_def)
    then have sc: "scan_all maxLine body = Some ls" by (simp add: scan_all_unlines)
    then have "log_events decode name s = List.map_filter decode ls"
      using Some by (simp add: log_events_def file_text_def)
    with peek_loop_scan [OF sc, of n "[]" decode] Some nf show ?thesis by (simp add: outbox_Peek_def)
  qed
qed

text \<open>A successful batch of the outbox removes its events from the file.\<close>

lemma batch_sent_removes:
  assumes "batch_sent L es False r c = (err, c')" and "cl_outbox c = Some name" and "es \<noteq> []"
    and "calm name (cl_fs c)"
  shows "err = None \<and> calm name (cl_fs c') \<and>
    outbox_Remove (decode_event L) (Some name) (eventIDs es) (cl_fs c) = (None, cl_fs c')"
proof -
  obtain s' where rm: "outbox_Remove (decode_event L) (Some name) (eventIDs es) (cl_fs c) = (None, s')"
    and s': "calm name s'"
    using outbox_Remove_calm [OF assms(4)] by blast
  let ?c1 = "recordEventRejections es (br_Errors r) (count_sent (length es) r c)"
  have fs1: "cl_fs ?c1 = cl_fs c" by (simp add: frame_simps count_sent_def)
  have "kept ?c1 = kept c" by (simp add: count_sent_def)
  then have ob1: "cl_outbox ?c1 = Some name" using assms(2) by (simp add: kept_def)
  have rmv: "removeOutbox L es ?c1 = ?c1\<lparr>cl_fs := s'\<rparr>"
    using rm assms(3) ob1 fs1 by (simp add: removeOutbox_def)
  have "err = None" "c' = removeOutbox L es ?c1" using assms(1) by (simp_all add: batch_sent_def Let_def)
  then have "err = None" "cl_fs c' = s'" unfolding rmv by simp_all
  with rm s' show ?thesis by simp
qed

lemma eventIDs_all: "\<forall>e \<in> set es. ev_EventID e \<noteq> [] \<Longrightarrow> eventIDs es = map ev_EventID es"
  by (simp add: eventIDs_def filter_id_conv)

text \<open>A round that was sent without an error leaves a calm file that holds fewer events.\<close>

lemma replay_round:
  assumes "cl_outbox c = Some name" and "calm name (cl_fs c)"
    and peek: "outbox_Peek (decode_event L) (Some name) n (cl_fs c) = (Inr es, cl_fs c)"
    and "es \<noteq> []" and keys: "\<forall>e \<in> set es. ev_EventID e \<noteq> []"
    and "0 \<le> cfg_RetryAttempts (cl_config c)" and "cfg_RetryAttempts (cl_config c) < 2 ^ 63 - 1"
    and sb: "sendBatchInternal L es False c = (None, c')"
  shows "calm name (cl_fs c')"
    and "length (log_events (decode_event L) name (cl_fs c')) < length (log_events (decode_event L) name (cl_fs c))"
    and "set (log_events (decode_event L) name (cl_fs c')) \<subseteq> set (log_events (decode_event L) name (cl_fs c))"
proof -
  let ?dec = "decode_event L"
  from sb assms(4,6,7)
  have "calm name (cl_fs c') \<and> outbox_Remove ?dec (Some name) (map ev_EventID es) (cl_fs c) = (None, cl_fs c')"
  proof (cases rule: sendBatchInternal_cases)
    case (run payload c1 k)
    from outcome_effect [OF run(5)] obtain r w
      where bs: "batch_sent L es False r (c1\<lparr>cl_world := w\<rparr>) = (None, c')" by auto
    have "cl_outbox (c1\<lparr>cl_world := w\<rparr>) = Some name" using run(1) assms(1) by (simp add: kept_def)
    with batch_sent_removes [OF bs _ assms(4)] run(3) assms(2) eventIDs_all [OF keys]
    show ?thesis by simp
  qed simp
  then have "calm name (cl_fs c')"
    and rm: "outbox_Remove ?dec (Some name) (map ev_EventID es) (cl_fs c) = (None, cl_fs c')" by simp_all
  moreover have "log_whole name (cl_fs c)" using assms(2) by (simp add: calm_def)
  moreover have "ev_EventID (hd es) \<noteq> []" using keys assms(4) by simp
  ultimately show "calm name (cl_fs c')"
    and "length (log_events ?dec name (cl_fs c')) < length (log_events ?dec name (cl_fs c))"
    and "set (log_events ?dec name (cl_fs c')) \<subseteq> set (log_events ?dec name (cl_fs c))"
    using obx.progress [OF _ peek rm assms(4)] by blast+
qed

text \<open>
  C15: replaying the outbox ends.  When the file system works and every stored event has an id,
  one step more than there are stored events is enough fuel for \<open>sendOutbox\<close>, whatever the server
  answers; and when it reports no error, the outbox is empty.
\<close>

theorem sendOutbox_terminates:
  assumes "cl_outbox c = Some name" and "calm name (cl_fs c)"
    and "\<forall>e \<in> set (log_events (decode_event L) name (cl_fs c)). ev_EventID e \<noteq> []"
    and "0 \<le> cfg_RetryAttempts (cl_config c)" and "cfg_RetryAttempts (cl_config c) < 2 ^ 63 - 1"
    and "length (log_events (decode_event L) name (cl_fs c)) < fuel"
  shows "\<exists>err c'. sendOutbox fuel L c = Some (err, c') \<and>
    (err = None \<longrightarrow> log_events (decode_event L) name (cl_fs c') = [])"
  using assms
proof (induction fuel arbitrary: c)
  case (Suc fuel)
  let ?log = "\<lambda>s. log_events (decode_event L) name s"
  let ?n = "cfg_BatchSize (cl_config c)"
  define es where "es = (if ?n \<le> 0 then ?log (cl_fs c) else take (nat ?n) (?log (cl_fs c)))"
  have peek: "outbox_Peek (decode_event L) (Some name) ?n (cl_fs c) = (Inr es, cl_fs c)"
    using outbox_Peek_calm [OF Suc.prems(2)] by (simp add: es_def)
  show ?case
  proof (cases "es = []")
    case True
    then have "?log (cl_fs c) = []" by (auto simp: es_def split: if_splits)
    with True peek Suc.prems(1) show ?thesis by simp
  next
    case False
    have "set es \<subseteq> set (?log (cl_fs c))" by (auto simp: es_def dest: in_set_takeD)
    with Suc.prems(3) have keys: "\<forall>e \<in> set es. ev_EventID e \<noteq> []" by blast
    obtain err c' where sb: "sendBatchInternal L es False c = (err, c')"
      by (cases "sendBatchInternal L es False c")
    have loop: "sendOutbox (Suc fuel) L c = (case err of Some e \<Rightarrow> Some (Some e, c') | None \<Rightarrow> sendOutbox fuel L c')"
      using peek Suc.prems(1) False sb by (simp split: option.split)
    show ?thesis
    proof (cases err)
      case None
      note round = replay_round [OF Suc.prems(1,2) peek False keys Suc.prems(4,5) sb [unfolded None]]
      have "cl_outbox c' = Some name" "cl_config c' = cl_config c"
        using kept_sendBatchInternal [OF sb] Suc.prems(1) by (simp_all add: kept_def)
      with Suc.IH [of c'] round Suc.prems(3-6) loop None show ?thesis by auto
    qed (use loop in \<open>simp del: sendOutbox.simps\<close>)
  qed
qed simp

text \<open>
  Replaying need not end.  A line of the outbox that decodes to an event without an id is sent
  and answered with success over and over: \<open>Remove\<close> ignores empty ids, so the line stays, and
  \<open>sendOutbox\<close> runs out of any fuel.
\<close>

theorem sendOutbox_diverges:
  assumes "cl_outbox c = Some name" and "calm name (cl_fs c)"
    and "log_events (decode_event L) name (cl_fs c) = [e]" and "ev_EventID e = []"
    and "\<And>c'. kept c' = kept c \<Longrightarrow> cl_fs c' = cl_fs c \<Longrightarrow> cl_world c' = cl_world c \<Longrightarrow>
      \<exists>r. sendBatchInternal L [e] False c' = (None, r) \<and> cl_world r = cl_world c"
    and "0 \<le> cfg_RetryAttempts (cl_config c)" and "cfg_RetryAttempts (cl_config c) < 2 ^ 63 - 1"
    and "0 < cfg_BatchSize (cl_config c)"
  shows "sendOutbox fuel L c = None"
proof -
  have "kept d = kept c \<Longrightarrow> cl_fs d = cl_fs c \<Longrightarrow> cl_world d = cl_world c \<Longrightarrow> sendOutbox fuel L d = None" for d
  proof (induction fuel arbitrary: d)
    case (Suc fuel)
    from Suc.prems(1) assms(1) have d: "cl_outbox d = Some name" "cl_config d = cl_config c"
      by (simp_all add: kept_def)
    have "take (nat (cfg_BatchSize (cl_config c))) [e] = [e]" using assms(8) by (simp add: take_Cons')
    then have peek: "outbox_Peek (decode_event L) (Some name) (cfg_BatchSize (cl_config c)) (cl_fs c) = (Inr [e], cl_fs c)"
      using outbox_Peek_calm [OF assms(2), of "decode_event L"] assms(3,8) by simp
    obtain d' where sb: "sendBatchInternal L [e] False d = (None, d')" and w: "cl_world d' = cl_world c"
      using assms(5) [OF Suc.prems] by blast
    have kept: "kept d' = kept c" using kept_sendBatchInternal [OF sb] Suc.prems(1) by simp
    have "cl_fs d' = cl_fs c"
    proof (rule sendBatchInternal_cases [OF sb])
      fix payload c1 n assume run: "kept c1 = kept d" "traffic c1 = traffic d" "cl_fs c1 = cl_fs d"
        "batch_outcome L [e] False payload (cfg_RetryAttempts (cl_config d) + 1) 0 n c1 None d'"
        "starts_batch L [e] d payload c1"
      from outcome_effect [OF run(4)] obtain r w
        where bs: "batch_sent L [e] False r (c1\<lparr>cl_world := w\<rparr>) = (None, d')" by auto
      have ob: "cl_outbox (c1\<lparr>cl_world := w\<rparr>) = Some name" using run(1) d(1) by (simp add: kept_def)
      have "eventIDs [e] = []" using assms(4) by (simp add: eventIDs_def)
      with batch_sent_removes [OF bs ob] run(3) Suc.prems(2) assms(2)
      have "outbox_Remove (decode_event L) (Some name) [] (cl_fs c) = (None, cl_fs d')" by simp
      then show ?thesis by (simp add: outbox_Remove_def)
    qed (use assms(6,7) d(2) in simp_all)
    with kept w have "sendOutbox fuel L d' = None" by (intro Suc.IH)
    moreover have "outbox_Peek (decode_event L) (cl_outbox d) (cfg_BatchSize (cl_config d)) (cl_fs d) =
        (Inr [e], cl_fs d)" using peek d Suc.prems(2) by simp
    ultimately show ?case using sb d(1) by simp
  qed simp
  then show ?thesis by simp
qed

end
