(* ===== verification/Client_Lifecycle.thy ===== *)
theory Client_Lifecycle
  imports Sdk_Client
begin

text \<open>
  \<open>run\<close>, \<open>Flush\<close> and \<open>Close\<close> of \<open>logcenter/client.go\<close>: the goroutine that sends, with the calls
  that run beside it.  A step is one thing that one goroutine does while it holds what it needs;
  which goroutine moves next is open.  A call of \<open>enqueue\<close> is two steps, for it reads the closed
  flag first and reaches the queue later, and the goroutine may do anything in between; a batch is
  taken out of the queue in one step and sent in another.  Channels are what their operations can
  observe: \<open>notify\<close> is the flag of the client, \<open>flushes\<close> the callers that wait at it, \<open>closeCh\<close> and
  \<open>done\<close> are closed or not.  The fields from \<open>sy_accepted\<close> on are history: no step reads them.
\<close>

section \<open>The state\<close>

text \<open>Why the goroutine sends, and where it is: at its \<open>select\<close>, before a \<open>drain\<close>, with a batch
  in its hands, before \<open>sendOutbox\<close>, or gone.\<close>

datatype cause = Notified | Ticked | Flushing nat | Closing

datatype phase =
    Selecting
  | Collecting cause "go_error option"
  | Posting cause "go_error option" "event list"
  | Replaying cause
  | Finished

type_synonym batch_result = "event list \<times> go_error option"

record flush_answer =
  fa_caller :: nat
  fa_error :: "go_error option"
  fa_queued :: "event list"
  fa_batches :: "batch_result list"
  fa_displaced :: "event list"

record 'w system =
  sy_client :: "'w client"
  sy_phase :: phase
  sy_closing :: bool
  sy_inflight :: "event list"
  sy_waiting :: "nat list"
  sy_accepted :: "event list"
  sy_attempted :: "event list"
  sy_displaced :: "event list"
  sy_mark :: "event list"
  sy_round :: "batch_result list"
  sy_gone :: "event list"
  sy_answers :: "flush_answer list"
  sy_late :: nat
  sy_raced :: nat

definition starting :: "'w client \<Rightarrow> 'w system" where
  "starting c = \<lparr>sy_client = c, sy_phase = Selecting, sy_closing = False, sy_inflight = [],
     sy_waiting = [], sy_accepted = [], sy_attempted = [], sy_displaced = [], sy_mark = [],
     sy_round = [], sy_gone = [], sy_answers = [], sy_late = 0, sy_raced = 0\<rparr>"

section \<open>The goroutine\<close>

text \<open>\<open>sendQueued\<close> begins: its loop has no error yet.\<close>

definition begin_round :: "cause \<Rightarrow> 'w system \<Rightarrow> 'w system" where
  "begin_round w s = s\<lparr>sy_phase := Collecting w None, sy_mark := q_events (cl_queue (sy_client s)),
     sy_round := [], sy_gone := []\<rparr>"

text \<open>\<open>sendQueued\<close> has returned: \<open>run\<close> answers a flush, ends after a close, else selects again.\<close>

definition end_round :: "cause \<Rightarrow> go_error option \<Rightarrow> 'w system \<Rightarrow> 'w system" where
  "end_round w err s =
     (case w of
        Flushing i \<Rightarrow> s\<lparr>sy_phase := Selecting, sy_answers := sy_answers s @
           [\<lparr>fa_caller = i, fa_error = err, fa_queued = sy_mark s, fa_batches = sy_round s, fa_displaced = sy_gone s\<rparr>]\<rparr>
      | Closing \<Rightarrow> s\<lparr>sy_phase := Finished\<rparr>
      | _ \<Rightarrow> s\<lparr>sy_phase := Selecting\<rparr>)"

definition on_notify :: "'w system \<Rightarrow> 'w system" where
  "on_notify s =
     (let s = s\<lparr>sy_client := (sy_client s)\<lparr>cl_notify := False\<rparr>\<rparr>
      in if int (queue_len (cl_queue (sy_client s))) \<ge> cfg_BatchSize (cl_config (sy_client s))
         then begin_round Notified s else s)"

definition after_batches :: "cause \<Rightarrow> go_error option \<Rightarrow> 'w system \<Rightarrow> 'w system" where
  "after_batches w firstErr s =
     (if firstErr \<noteq> None then end_round w firstErr s else s\<lparr>sy_phase := Replaying w\<rparr>)"

definition collect :: "cause \<Rightarrow> go_error option \<Rightarrow> 'w system \<Rightarrow> 'w system" where
  "collect w firstErr s =
     (case drain (cfg_BatchSize (cl_config (sy_client s))) (cl_queue (sy_client s)) of
        (es, q) \<Rightarrow>
          (let s = s\<lparr>sy_client := (sy_client s)\<lparr>cl_queue := q\<rparr>\<rparr>
           in if es = [] then after_batches w firstErr s
              else s\<lparr>sy_phase := Posting w firstErr es\<rparr>))"

definition post :: "'w library \<Rightarrow> cause \<Rightarrow> go_error option \<Rightarrow> event list \<Rightarrow> 'w system \<Rightarrow> 'w system" where
  "post L w firstErr es s =
     (case sendBatch L es (sy_client s) of
        (err, c) \<Rightarrow> s\<lparr>sy_client := c, sy_attempted := sy_attempted s @ es, sy_round := sy_round s @ [(es, err)],
          sy_phase := Collecting w (if err \<noteq> None \<and> firstErr = None then err else firstErr)\<rparr>)"

inductive loop_step :: "'w library \<Rightarrow> 'w system \<Rightarrow> 'w system \<Rightarrow> bool" for L where
  notified: "sy_phase s = Selecting \<Longrightarrow> cl_notify (sy_client s) \<Longrightarrow> loop_step L s (on_notify s)"
| ticked: "sy_phase s = Selecting \<Longrightarrow> loop_step L s (begin_round Ticked s)"
| flushing: "sy_phase s = Selecting \<Longrightarrow> i \<in> set (sy_waiting s) \<Longrightarrow>
     loop_step L s (begin_round (Flushing i) (s\<lparr>sy_waiting := remove1 i (sy_waiting s)\<rparr>))"
| closing: "sy_phase s = Selecting \<Longrightarrow> sy_closing s \<Longrightarrow> loop_step L s (begin_round Closing s)"
| collected: "sy_phase s = Collecting w firstErr \<Longrightarrow> loop_step L s (collect w firstErr s)"
| posted: "sy_phase s = Posting w firstErr es \<Longrightarrow> loop_step L s (post L w firstErr es s)"
| replayed: "sy_phase s = Replaying w \<Longrightarrow> sendOutbox fuel L (sy_client s) = Some (err, c) \<Longrightarrow>
     loop_step L s (end_round w err (s\<lparr>sy_client := c\<rparr>))"

section \<open>The callers\<close>

text \<open>The first half of \<open>enqueue\<close>: what it does before it reaches the queue.\<close>

definition admit :: "'w library \<Rightarrow> event \<Rightarrow> 'w client \<Rightarrow> event option \<times> 'w client" where
  "admit L e c =
     (if cl_disabled c then (None, c)
      else if cl_closed c then (None, eventDropped e ''client_closed'' None (add_dropped c))
      else
        (case prepareEvent L e c of
           ((e, Some err), c) \<Rightarrow> (None, drop_failed e err c)
         | ((e, None), c) \<Rightarrow> (Some e, persistOutbox [e] c)))"

text \<open>After its last \<open>drain\<close> the goroutine never looks at the queue again.\<close>

definition past_last_drain :: "phase \<Rightarrow> bool" where
  "past_last_drain p \<longleftrightarrow> p = Replaying Closing \<or> p = Finished"

text \<open>The second half, with its part of the history: an accepted event, and the event that it
  displaced, if any.\<close>

definition put :: "event \<Rightarrow> 'w system \<Rightarrow> 'w system" where
  "put e s =
     (let r = fst (push e (cl_queue (sy_client s)));
          s = s\<lparr>sy_client := snd (push_event e (sy_client s)), sy_inflight := remove1 e (sy_inflight s)\<rparr>
      in if \<not> pr_queued r then s
         else (let old = (case pr_dropped r of None \<Rightarrow> [] | Some d \<Rightarrow> [d])
               in s\<lparr>sy_accepted := sy_accepted s @ [e], sy_displaced := sy_displaced s @ old,
                    sy_gone := sy_gone s @ old,
                    sy_raced := sy_raced s + (if past_last_drain (sy_phase s) then 1 else 0)\<rparr>))"

text \<open>\<open>Close\<close>: the flag is set and \<open>closeCh\<close> closed, once.\<close>

definition close_client :: "'w system \<Rightarrow> 'w system" where
  "close_client s =
     (if cl_disabled (sy_client s) \<or> sy_closing s then s
      else s\<lparr>sy_client := (sy_client s)\<lparr>cl_closed := True\<rparr>, sy_closing := True,
             sy_late := length (sy_inflight s)\<rparr>)"

inductive caller_step :: "'w library \<Rightarrow> 'w system \<Rightarrow> 'w system \<Rightarrow> bool" for L where
  admitted: "admit L e (sy_client s) = (Some e', c) \<Longrightarrow>
     caller_step L s (s\<lparr>sy_client := c, sy_inflight := e' # sy_inflight s\<rparr>)"
| refused: "admit L e (sy_client s) = (None, c) \<Longrightarrow> caller_step L s (s\<lparr>sy_client := c\<rparr>)"
| reached: "e \<in> set (sy_inflight s) \<Longrightarrow> caller_step L s (put e s)"
| sent: "SendEventSync L ctx e (sy_client s) = (r, c) \<Longrightarrow> caller_step L s (s\<lparr>sy_client := c\<rparr>)"
| flush: "caller_step L s (s\<lparr>sy_waiting := i # sy_waiting s\<rparr>)"
| expired: "caller_step L s (s\<lparr>sy_waiting := remove1 i (sy_waiting s)\<rparr>)"
| closed: "caller_step L s (close_client s)"

text \<open>What a waiting call may return: \<open>select\<close> takes any channel that is ready.\<close>

inductive flush_returns :: "'w system \<Rightarrow> nat \<Rightarrow> go_error option \<Rightarrow> bool" for s where
  answered: "a \<in> set (sy_answers s) \<Longrightarrow> flush_returns s (fa_caller a) (fa_error a)"
| timed_out: "e \<in> {CanceledError, DeadlineExceeded} \<Longrightarrow> flush_returns s i (Some e)"
| gone: "sy_phase s = Finished \<Longrightarrow> flush_returns s i None"
| disabled: "cl_disabled (sy_client s) \<Longrightarrow> flush_returns s i None"

inductive close_returns :: "'w system \<Rightarrow> go_error option \<Rightarrow> bool" for s where
  finished: "sy_phase s = Finished \<Longrightarrow> close_returns s None"
| disabled: "cl_disabled (sy_client s) \<Longrightarrow> close_returns s None"
| timed_out: "e \<in> {CanceledError, DeadlineExceeded} \<Longrightarrow> close_returns s (Some e)"

inductive reachable :: "'w library \<Rightarrow> 'w client \<Rightarrow> 'w system \<Rightarrow> bool" for L c where
  start: "\<not> cl_disabled c \<Longrightarrow> \<not> cl_closed c \<Longrightarrow> q_events (cl_queue c) = [] \<Longrightarrow> reachable L c (starting c)"
| loop: "reachable L c s \<Longrightarrow> loop_step L s s' \<Longrightarrow> reachable L c s'"
| caller: "reachable L c s \<Longrightarrow> caller_step L s s' \<Longrightarrow> reachable L c s'"

lemma enqueue_halves:
  "enqueue L e c = (case admit L e c of (None, c) \<Rightarrow> (False, c) | (Some e, c) \<Rightarrow> push_event e c)"
  by (simp add: enqueue_def admit_def split: prod.split option.split)

section \<open>What the steps leave alone\<close>

definition switches :: "'w client \<Rightarrow> event_queue \<times> bool \<times> bool \<times> config \<times> durable_outbox option" where
  "switches c = (cl_queue c, cl_closed c, cl_disabled c, cl_config c, cl_outbox c)"

lemma switches_eq: "switches c' = switches c \<longleftrightarrow> cl_queue c' = cl_queue c \<and> cl_closed c' = cl_closed c \<and>
    cl_disabled c' = cl_disabled c \<and> cl_config c' = cl_config c \<and> cl_outbox c' = cl_outbox c"
  by (auto simp: switches_def)

lemma switches_kept: "kept c' = kept c \<Longrightarrow> switches c' = switches c"
  by (simp add: kept_eq switches_def)

lemma switches_prepare: "prepareEvent L e c = (r, c') \<Longrightarrow> switches c' = switches c"
  by (erule prepareEvent_stages [of L e c "fst r" "snd r" c', simplified]) (auto simp: idle_def switches_def)

lemma switches_small [simp]:
  "switches (drop_failed e err c) = switches c" "switches (persistOutbox es c) = switches c"
  "switches (eventDropped e why cause c) = switches c" "switches (add_dropped c) = switches c"
  by (rule switches_kept, simp)+

lemma switches_admit:
  assumes "admit L e c = (r, c')"
  shows "switches c' = switches c"
proof -
  obtain e1 err c1 where p: "prepareEvent L e c = ((e1, err), c1)" by (metis prod.collapse)
  have "switches c1 = switches c" using switches_prepare [OF p] .
  then show ?thesis
    using assms p by (cases err) (auto simp: admit_def split: if_splits)
qed

lemma switches_sync:
  assumes "SendEventSync L ctx e c = (r, c')"
  shows "switches c' = switches c"
proof -
  obtain e1 err c1 where p: "prepareEvent L (withContextFields ctx e) c = ((e1, err), c1)" by (metis prod.collapse)
  obtain err2 c2 where b: "sendBatchSync L [e1] c1 = (err2, c2)" by (cases "sendBatchSync L [e1] c1")
  have "switches c2 = switches c1"
    using switches_kept [OF kept_sendBatchInternal] b by (simp add: sendBatchSync_def)
  moreover have "switches c1 = switches c" using switches_prepare [OF p] .
  ultimately show ?thesis
    using assms p b by (cases err; cases err2) (auto simp: SendEventSync_def split: if_splits)
qed

lemma kept_sendOutbox: "sendOutbox fuel L c = Some (err, c') \<Longrightarrow> kept c' = kept c"
proof (induction fuel arbitrary: c)
  case (Suc fuel)
  show ?case
  proof (cases "cl_outbox c")
    case None
    with Suc.prems show ?thesis by simp
  next
    case (Some name)
    obtain p s where pk: "outbox_Peek (decode_event L) (Some name) (cfg_BatchSize (cl_config c)) (cl_fs c) = (p, s)"
      by (cases "outbox_Peek (decode_event L) (Some name) (cfg_BatchSize (cl_config c)) (cl_fs c)")
    show ?thesis
    proof (cases "case p of Inl _ \<Rightarrow> True | Inr es \<Rightarrow> es = []")
      case True
      with Suc.prems Some pk show ?thesis by (auto split: sum.splits)
    next
      case False
      then obtain es where es: "p = Inr es" "es \<noteq> []" by (cases p) auto
      obtain e1 c1 where sb: "sendBatchInternal L es False (c\<lparr>cl_fs := s\<rparr>) = (e1, c1)"
        by (cases "sendBatchInternal L es False (c\<lparr>cl_fs := s\<rparr>)")
      have k: "kept c1 = kept c" using kept_sendBatchInternal [OF sb] by simp
      show ?thesis
        using Suc.prems Some pk es sb k Suc.IH [of c1] by (cases e1) auto
    qed
  qed
qed simp

lemma push_counts:
  assumes "push e q = (r, q')"
  shows "pr_queued r \<Longrightarrow>
      mset (q_events q') + mset (case pr_dropped r of None \<Rightarrow> [] | Some d \<Rightarrow> [d]) = add_mset e (mset (q_events q))"
    and "\<not> pr_queued r \<Longrightarrow> q_events q' = q_events q"
  using push_refines [OF assms] by (auto elim!: push_outcomeE)

lemma push_event_switches:
  assumes "push_event e c = (ok, c')" and "push e (cl_queue c) = (r, q)"
  shows "ok = pr_queued r" and "switches c' = (q, cl_closed c, cl_disabled c, cl_config c, cl_outbox c)"
  using assms by (auto simp: push_event_def switches_def Let_def signal_def count_def eventDropped_def
      add_dropped_def call_hook_def split: if_splits option.splits)

section \<open>The ledger\<close>

definition held :: "phase \<Rightarrow> event list" where
  "held p = (case p of Posting _ _ es \<Rightarrow> es | _ \<Rightarrow> [])"

text \<open>Every accepted event was handed to a batch, or displaced, or is on its way.\<close>

definition ledger :: "'w system \<Rightarrow> bool" where
  "ledger s \<longleftrightarrow> mset (sy_accepted s) =
     mset (sy_attempted s) + mset (sy_displaced s) + mset (held (sy_phase s)) + mset (q_events (cl_queue (sy_client s)))"

text \<open>In a round: what was in the queue when it began is in its batches, or displaced, or still
  ahead; and the error that is kept is the first one.\<close>

definition batched :: "'w system \<Rightarrow> event multiset" where
  "batched s = mset (concat (map fst (sy_round s))) + mset (sy_gone s)"

abbreviation queued :: "'w system \<Rightarrow> event multiset" where
  "queued s \<equiv> mset (q_events (cl_queue (sy_client s)))"

fun round_inv :: "phase \<Rightarrow> event multiset \<Rightarrow> event multiset \<Rightarrow> event multiset \<Rightarrow> go_error option \<Rightarrow> bool" where
  "round_inv (Collecting w fe) mark past ahead err \<longleftrightarrow> mark \<subseteq># past + ahead \<and> fe = err"
| "round_inv (Posting w fe es) mark past ahead err \<longleftrightarrow> mark \<subseteq># past + mset es + ahead \<and> fe = err"
| "round_inv (Replaying w) mark past ahead err \<longleftrightarrow> mark \<subseteq># past \<and> err = None"
| "round_inv _ mark past ahead err \<longleftrightarrow> True"

definition round_ok :: "'w system \<Rightarrow> bool" where
  "round_ok s \<longleftrightarrow>
     round_inv (sy_phase s) (mset (sy_mark s)) (batched s) (queued s) (first_error (map snd (sy_round s)))"

definition answer_ok :: "flush_answer \<Rightarrow> bool" where
  "answer_ok a \<longleftrightarrow>
     mset (fa_queued a) \<subseteq># mset (concat (map fst (fa_batches a))) + mset (fa_displaced a) \<and>
     (fa_error a = None \<longrightarrow> (\<forall>b \<in> set (fa_batches a). snd b = None))"

definition round_cause :: "phase \<Rightarrow> cause option" where
  "round_cause p = (case p of Collecting w _ \<Rightarrow> Some w | Posting w _ _ \<Rightarrow> Some w | Replaying w \<Rightarrow> Some w | _ \<Rightarrow> None)"

text \<open>Closing: the flag stays, nothing is admitted any more, and only what was in flight can still
  reach the queue behind the goroutine's back.\<close>

definition closing_ok :: "'w system \<Rightarrow> bool" where
  "closing_ok s \<longleftrightarrow> \<not> cl_disabled (sy_client s) \<and> (sy_closing s \<longleftrightarrow> cl_closed (sy_client s)) \<and>
     (sy_closing s \<longrightarrow> sy_raced s + length (sy_inflight s) \<le> sy_late s) \<and>
     (sy_phase s = Finished \<or> round_cause (sy_phase s) = Some Closing \<longrightarrow> sy_closing s) \<and>
     (past_last_drain (sy_phase s) \<longrightarrow> length (q_events (cl_queue (sy_client s))) \<le> sy_raced s) \<and>
     (\<not> past_last_drain (sy_phase s) \<longrightarrow> sy_raced s = 0)"

definition sound :: "'w system \<Rightarrow> bool" where
  "sound s \<longleftrightarrow> ledger s \<and> round_ok s \<and> list_all answer_ok (sy_answers s) \<and> closing_ok s"

lemma sound_starting:
  "\<not> cl_disabled c \<Longrightarrow> \<not> cl_closed c \<Longrightarrow> q_events (cl_queue c) = [] \<Longrightarrow> sound (starting c)"
  by (simp add: sound_def starting_def ledger_def round_ok_def closing_ok_def held_def past_last_drain_def
      round_cause_def)

lemma sound_client:
  assumes "sound s" and "switches c = switches (sy_client s)"
  shows "sound (s\<lparr>sy_client := c\<rparr>)"
  using assms by (auto simp: sound_def ledger_def round_ok_def batched_def closing_ok_def switches_eq)

lemma sound_admitted:
  assumes "sound s" and "admit L e (sy_client s) = (Some e', c)"
  shows "sound (s\<lparr>sy_client := c, sy_inflight := e' # sy_inflight s\<rparr>)"
proof -
  have "\<not> cl_closed (sy_client s)" using assms(2) by (auto simp: admit_def split: if_splits)
  moreover have "sound (s\<lparr>sy_client := c\<rparr>)" using sound_client [OF assms(1) switches_admit [OF assms(2)]] .
  moreover have "switches c = switches (sy_client s)" using switches_admit [OF assms(2)] .
  ultimately show ?thesis
    by (auto simp: sound_def ledger_def round_ok_def batched_def closing_ok_def switches_eq)
qed

lemma first_error_snoc:
  "first_error (es @ [e]) = (if e \<noteq> None \<and> first_error es = None then e else first_error es)"
  by (induction es rule: first_error.induct) (cases e, auto)

lemma sound_begin:
  assumes "sound s" and "sy_phase s = Selecting" and "w = Closing \<longrightarrow> sy_closing s"
  shows "sound (begin_round w s)"
  using assms by (auto simp: sound_def begin_round_def ledger_def round_ok_def batched_def closing_ok_def
      held_def past_last_drain_def round_cause_def)

lemma sound_end:
  assumes "ledger s" and "list_all answer_ok (sy_answers s)" and "closing_ok s" and "held (sy_phase s) = []"
    and "round_cause (sy_phase s) = Some w" and "mset (sy_mark s) \<subseteq># batched s"
    and "err = None \<longrightarrow> first_error (map snd (sy_round s)) = None"
    and "w = Closing \<longrightarrow> length (q_events (cl_queue (sy_client s))) \<le> sy_raced s"
    and "w \<noteq> Closing \<longrightarrow> sy_raced s = 0"
  shows "sound (end_round w err s)"
proof (cases w)
  case (Flushing i)
  with assms show ?thesis
    by (auto simp: sound_def end_round_def ledger_def round_ok_def closing_ok_def held_def past_last_drain_def
        round_cause_def answer_ok_def batched_def first_error_None)
qed (use assms in \<open>auto simp: sound_def end_round_def ledger_def round_ok_def closing_ok_def held_def
        past_last_drain_def round_cause_def\<close>)

lemma drain_all: "drain n q = ([], q') \<Longrightarrow> q_events q = [] \<and> q_events q' = []"
  by (auto simp: drain_def Let_def split: if_splits)

lemma sound_collect:
  assumes "sound s" and "sy_phase s = Collecting w fe"
  shows "sound (collect w fe s)"
proof -
  obtain es q where d: "drain (cfg_BatchSize (cl_config (sy_client s))) (cl_queue (sy_client s)) = (es, q)"
    by (cases "drain (cfg_BatchSize (cl_config (sy_client s))) (cl_queue (sy_client s))")
  note pre = drain_prefix [OF d]
  let ?s = "s\<lparr>sy_client := (sy_client s)\<lparr>cl_queue := q\<rparr>\<rparr>"
  have ctx: "\<not> past_last_drain (sy_phase s)" "round_cause (sy_phase s) = Some w" "held (sy_phase s) = []"
    using assms(2) by (simp_all add: past_last_drain_def round_cause_def held_def)
  have raced: "sy_raced s = 0" using assms(1) ctx(1) by (simp add: sound_def closing_ok_def)
  show ?thesis
  proof (cases "es = []")
    case False
    then show ?thesis
      using assms d pre raced
      by (auto simp: collect_def sound_def ledger_def round_ok_def batched_def closing_ok_def held_def
          past_last_drain_def round_cause_def add.assoc)
  next
    case True
    then have empty: "q_events (cl_queue (sy_client s)) = []" "q_events q = []" using drain_all d by blast+
    have parts: "ledger ?s" "closing_ok ?s" "list_all answer_ok (sy_answers ?s)" "mset (sy_mark ?s) \<subseteq># batched ?s"
        "fe = first_error (map snd (sy_round ?s))"
      using assms empty by (auto simp: sound_def ledger_def closing_ok_def round_ok_def batched_def)
    show ?thesis
    proof (cases fe)
      case None
      have "collect w fe s = ?s\<lparr>sy_phase := Replaying w\<rparr>" using d True None by (simp add: collect_def after_batches_def)
      moreover have "sound (?s\<lparr>sy_phase := Replaying w\<rparr>)"
        using parts None empty raced ctx assms(2)
        by (auto simp: sound_def ledger_def round_ok_def batched_def closing_ok_def held_def past_last_drain_def
            round_cause_def)
      ultimately show ?thesis by simp
    next
      case (Some e)
      have "collect w fe s = end_round w (Some e) ?s" using d True Some by (simp add: collect_def after_batches_def)
      moreover have "sound (end_round w (Some e) ?s)"
        using parts empty raced ctx by (intro sound_end) simp_all
      ultimately show ?thesis by simp
    qed
  qed
qed

lemma sound_post:
  assumes "sound s" and "sy_phase s = Posting w fe es"
  shows "sound (post L w fe es s)"
proof -
  obtain err c where b: "sendBatch L es (sy_client s) = (err, c)" by (cases "sendBatch L es (sy_client s)")
  have "switches c = switches (sy_client s)" using switches_kept [OF kept_sendBatch [OF b]] .
  with assms b show ?thesis
    by (auto simp: post_def sound_def ledger_def round_ok_def batched_def closing_ok_def held_def past_last_drain_def
        round_cause_def switches_eq first_error_snoc ac_simps)
qed

lemma sound_notified:
  assumes "sound s" and "sy_phase s = Selecting"
  shows "sound (on_notify s)"
proof -
  let ?s = "s\<lparr>sy_client := (sy_client s)\<lparr>cl_notify := False\<rparr>\<rparr>"
  have "sound ?s" by (rule sound_client [OF assms(1)]) (simp add: switches_def)
  with sound_begin [of ?s Notified] assms(2) show ?thesis by (simp add: on_notify_def Let_def)
qed

lemma sound_loop:
  assumes "sound s" and "loop_step L s s'"
  shows "sound s'"
  using assms(2)
proof (cases rule: loop_step.cases)
  case (flushing i)
  have "sound (s\<lparr>sy_waiting := remove1 i (sy_waiting s)\<rparr>)"
    using assms(1) by (auto simp: sound_def ledger_def round_ok_def batched_def closing_ok_def)
  then show ?thesis unfolding flushing(1) by (rule sound_begin) (simp_all add: flushing(2))
next
  case (replayed w fuel err c)
  have sw: "switches c = switches (sy_client s)" using switches_kept [OF kept_sendOutbox [OF replayed(3)]] .
  then have "sound (s\<lparr>sy_client := c\<rparr>)" by (rule sound_client [OF assms(1)])
  then show ?thesis
    unfolding replayed(1) using replayed(2)
    by (intro sound_end) (auto simp: sound_def round_ok_def batched_def closing_ok_def held_def round_cause_def
        past_last_drain_def)
qed (use assms(1) in \<open>auto intro: sound_notified sound_begin sound_collect sound_post\<close>)

lemma sound_put:
  assumes "sound s" and "e \<in> set (sy_inflight s)"
  shows "sound (put e s)"
proof -
  obtain r q where p: "push e (cl_queue (sy_client s)) = (r, q)" by (cases "push e (cl_queue (sy_client s))")
  obtain ok c where pe: "push_event e (sy_client s) = (ok, c)" by (cases "push_event e (sy_client s)")
  note sw = push_event_switches [OF pe p]
  note cnt = push_counts [OF p]
  have len: "length (sy_inflight s) = Suc (length (remove1 e (sy_inflight s)))"
    using assms(2) length_pos_if_in_set [OF assms(2)] by (simp add: length_remove1)
  define old where "old = (case pr_dropped r of None \<Rightarrow> [] | Some d \<Rightarrow> [d])"
  show ?thesis
  proof (cases "pr_queued r")
    case False
    then have q: "q_events q = q_events (cl_queue (sy_client s))" using cnt(2) by simp
    have s': "put e s = s\<lparr>sy_client := c, sy_inflight := remove1 e (sy_inflight s)\<rparr>"
      using False p pe by (simp add: put_def)
    show ?thesis
      using assms(1) q sw(2) len
      by (auto simp: s' sound_def ledger_def round_ok_def batched_def closing_ok_def switches_def)
  next
    case True
    have q: "mset (q_events q) + mset old = add_mset e (queued s)" using cnt(1) True by (simp add: old_def)
    have "size (mset (q_events q) + mset old) = size (add_mset e (queued s))" using q by (rule arg_cong)
    then have size: "length (q_events q) \<le> length (q_events (cl_queue (sy_client s))) + 1"
      unfolding size_union size_mset size_add_mset by simp
    define s' where "s' = put e s"
    have s'_fields: "sy_client s' = c" "sy_inflight s' = remove1 e (sy_inflight s)"
        "sy_accepted s' = sy_accepted s @ [e]" "sy_displaced s' = sy_displaced s @ old" "sy_gone s' = sy_gone s @ old"
        "sy_raced s' = sy_raced s + (if past_last_drain (sy_phase s) then 1 else 0)"
        "sy_phase s' = sy_phase s" "sy_closing s' = sy_closing s" "sy_attempted s' = sy_attempted s"
        "sy_mark s' = sy_mark s" "sy_round s' = sy_round s" "sy_answers s' = sy_answers s" "sy_late s' = sy_late s"
      using True p pe by (simp_all add: s'_def put_def Let_def old_def)
    have new: "cl_queue c = q" "cl_closed c = cl_closed (sy_client s)" "cl_disabled c = cl_disabled (sy_client s)"
      using sw(2) by (simp_all add: switches_def)
    have "ledger s'"
      using assms(1) q unfolding sound_def ledger_def s'_fields new
      by (simp add: ac_simps)
    moreover have "round_ok s'"
    proof -
      have up: "m \<subseteq># x + mset old + mset (q_events q)" if "m \<subseteq># x + queued s" for m x
      proof -
        have "x + mset old + mset (q_events q) = x + (mset (q_events q) + mset old)" by (simp add: ac_simps)
        then have "x + mset old + mset (q_events q) = (x + queued s) + {#e#}" unfolding q by simp
        then show ?thesis using that by (metis mset_subset_eq_add_left subset_mset.order_trans)
      qed
      have up2: "m \<subseteq># x + mset old" if "m \<subseteq># x" for m x :: "event multiset"
        using that by (simp add: subset_mset.add_increasing2)
      have batch: "batched s' = batched s + mset old" by (simp add: batched_def s'_fields ac_simps)
      have "round_ok s" using assms(1) by (simp add: sound_def)
      then show ?thesis
        using up [of "mset (sy_mark s)" "batched s"] up2 [of "mset (sy_mark s)" "batched s"]
          up [of "mset (sy_mark s)" "batched s + mset (held (sy_phase s))"]
        unfolding round_ok_def s'_fields batch new
        by (cases "sy_phase s") (simp_all add: held_def ac_simps)
    qed
    moreover have "closing_ok s'"
      using assms(1) len size unfolding sound_def closing_ok_def s'_fields new by auto
    ultimately show ?thesis
      using assms(1) unfolding sound_def s'_def [symmetric] s'_fields by simp
  qed
qed

lemma sound_caller:
  assumes "sound s" and "caller_step L s s'"
  shows "sound s'"
  using assms(2)
proof (cases rule: caller_step.cases)
  case (admitted e e' c)
  then show ?thesis using sound_admitted [OF assms(1)] by simp
next
  case (refused e c)
  then show ?thesis using sound_client [OF assms(1) switches_admit] by simp
next
  case (reached e)
  then show ?thesis using sound_put [OF assms(1)] by simp
next
  case (sent ctx e r c)
  then show ?thesis using sound_client [OF assms(1) switches_sync] by simp
qed (use assms(1) in \<open>auto simp: close_client_def sound_def ledger_def round_ok_def batched_def closing_ok_def
      past_last_drain_def round_cause_def\<close>)

lemma reachable_sound: "reachable L c s \<Longrightarrow> sound s"
  by (induction rule: reachable.induct) (auto intro: sound_starting sound_loop sound_caller)

section \<open>What the callers may rely on\<close>

text \<open>
  C4: no accepted event disappears silently.  At any moment, in any interleaving of producers, the
  sending goroutine, flushes and a close, the events for which \<open>enqueue\<close> answered true are, counted
  with multiplicity, those handed to a batch, those displaced by a later event, those of the batch
  in hand and those in the queue.
\<close>
theorem accepted_accounted:
  assumes "reachable L c s"
  shows "mset (sy_accepted s) =
    mset (sy_attempted s) + mset (sy_displaced s) + mset (held (sy_phase s)) + queued s"
  using reachable_sound [OF assms] by (simp add: sound_def ledger_def)

text \<open>
  C8: what a flush means.  When \<open>Flush\<close> returns nil, either the client is closed and its goroutine
  has ended, or every event that was in the queue when the goroutine took the request was since
  displaced by a later event or sent in a batch of that round, and no batch of the round failed.
\<close>
theorem flush_delivers:
  assumes "reachable L c s" and "flush_returns s i None"
  shows "sy_phase s = Finished \<or>
    (\<exists>a \<in> set (sy_answers s). fa_caller a = i \<and> (\<forall>b \<in> set (fa_batches a). snd b = None) \<and>
       mset (fa_queued a) \<subseteq># mset (concat (map fst (fa_batches a))) + mset (fa_displaced a))"
  using assms(2)
proof (cases rule: flush_returns.cases)
  case (answered a)
  have "answer_ok a" using reachable_sound [OF assms(1)] answered(3) by (simp add: sound_def list_all_iff)
  with answered show ?thesis by (auto simp: answer_ok_def)
next
  case disabled
  with reachable_sound [OF assms(1)] show ?thesis by (simp add: sound_def closing_ok_def)
qed simp_all

text \<open>
  C9: what a close means.  When \<open>Close\<close> returns nil, the accepted events are the attempted ones, the
  displaced ones and what is left in the queue, and no more is left there than there were calls of
  \<open>enqueue\<close> under way when \<open>Close\<close> was called; without such a call everything was handed to a
  batch or displaced.
\<close>
theorem close_drains:
  assumes "reachable L c s" and "close_returns s None"
  shows "mset (sy_accepted s) = mset (sy_attempted s) + mset (sy_displaced s) + queued s \<and>
    size (queued s) \<le> sy_late s \<and>
    (sy_late s = 0 \<longrightarrow> mset (sy_accepted s) = mset (sy_attempted s) + mset (sy_displaced s))"
proof -
  have "\<not> cl_disabled (sy_client s)" using reachable_sound [OF assms(1)] by (simp add: sound_def closing_ok_def)
  with assms(2) have "sy_phase s = Finished" by (cases rule: close_returns.cases) simp_all
  with reachable_sound [OF assms(1)] show ?thesis
    by (auto simp: sound_def ledger_def closing_ok_def held_def past_last_drain_def)
qed

section \<open>A close comes to its end\<close>

lemma loop_frame:
  assumes "loop_step L s s'"
  shows "sy_closing s' = sy_closing s" and "cl_outbox (sy_client s') = cl_outbox (sy_client s)"
proof -
  have "sy_closing s' = sy_closing s \<and> cl_outbox (sy_client s') = cl_outbox (sy_client s)"
    using assms
  proof (cases rule: loop_step.cases)
    case (posted w fe es)
    obtain err d where b: "sendBatch L es (sy_client s) = (err, d)" by (cases "sendBatch L es (sy_client s)")
    with posted show ?thesis using switches_kept [OF kept_sendBatch [OF b]] by (simp add: post_def switches_eq)
  next
    case (replayed w fuel err d)
    then show ?thesis using switches_kept [OF kept_sendOutbox [OF replayed(3)]]
      by (auto simp: end_round_def switches_eq split: cause.split)
  qed (auto simp: on_notify_def begin_round_def collect_def after_batches_def end_round_def Let_def
      split: cause.split prod.split)
  then show "sy_closing s' = sy_closing s" "cl_outbox (sy_client s') = cl_outbox (sy_client s)" by simp_all
qed

definition after_round :: "cause \<Rightarrow> phase" where
  "after_round w = (if w = Closing then Finished else Selecting)"

text \<open>A round has come to its end: the goroutine is where it goes next, a flush has its answer, and the
  calls that wait for another round still wait.\<close>

definition round_done :: "cause \<Rightarrow> 'w system \<Rightarrow> 'w system \<Rightarrow> bool" where
  "round_done w s s' \<longleftrightarrow> sy_phase s' = after_round w \<and> sy_waiting s' = sy_waiting s \<and>
     (\<forall>i. w = Flushing i \<longrightarrow> i \<in> fa_caller ` set (sy_answers s'))"

lemma end_round_done: "round_done w s (end_round w err (s\<lparr>sy_client := c\<rparr>))"
  by (simp add: round_done_def end_round_def after_round_def split: cause.split)

lemma round_done_step:
  assumes "loop_step L s t" and "sy_phase s \<noteq> Selecting" and "\<exists>u. (loop_step L)\<^sup>*\<^sup>* t u \<and> round_done w t u"
  shows "\<exists>u. (loop_step L)\<^sup>*\<^sup>* s u \<and> round_done w s u"
proof -
  have "sy_waiting t = sy_waiting s"
    using assms(1,2) by (cases rule: loop_step.cases)
      (auto simp: collect_def post_def after_batches_def end_round_def Let_def split: cause.split prod.split)
  then show ?thesis using assms(1,3) by (metis converse_rtranclp_into_rtranclp round_done_def)
qed

text \<open>
  What the goroutine needs of the outbox to come to its end: a condition on the client that its own
  steps preserve, and under which a replay ends.
\<close>

locale replayable =
  fixes L :: "'w library" and ready :: "'w client \<Rightarrow> bool"
  assumes ready_notify: "ready c \<Longrightarrow> ready (c\<lparr>cl_notify := b\<rparr>)"
    and ready_queue: "ready c \<Longrightarrow> ready (c\<lparr>cl_queue := q\<rparr>)"
    and ready_batch: "ready c \<Longrightarrow> sendBatch L es c = (err, d) \<Longrightarrow> ready d"
    and ready_replay: "ready c \<Longrightarrow> sendOutbox fuel L c = Some (err, d) \<Longrightarrow> ready d"
    and replay_stops: "ready c \<Longrightarrow> \<exists>fuel err d. sendOutbox fuel L c = Some (err, d)"
begin

lemma ready_step:
  assumes "loop_step L s s'" and "ready (sy_client s)"
  shows "ready (sy_client s')"
  using assms
proof (cases rule: loop_step.cases)
  case (posted w fe es)
  obtain err d where "sendBatch L es (sy_client s) = (err, d)" by (cases "sendBatch L es (sy_client s)")
  with posted assms(2) ready_batch show ?thesis by (simp add: post_def)
next
  case (replayed w fuel err d)
  with assms(2) ready_replay show ?thesis by (auto simp: end_round_def split: cause.split)
qed (use assms(2) ready_notify ready_queue in \<open>auto simp: on_notify_def begin_round_def collect_def
      after_batches_def end_round_def Let_def split: cause.split prod.split\<close>)

lemma replay_ends:
  assumes "sy_phase s = Replaying w" and "ready (sy_client s)"
  shows "\<exists>s'. (loop_step L)\<^sup>*\<^sup>* s s' \<and> round_done w s s'"
proof -
  obtain fuel err d where "sendOutbox fuel L (sy_client s) = Some (err, d)" using replay_stops [OF assms(2)] by blast
  from loop_step.replayed [OF assms(1) this] show ?thesis using end_round_done by blast
qed

lemma round_ends:
  "sy_phase s = Collecting w fe \<Longrightarrow> ready (sy_client s) \<Longrightarrow>
     \<exists>s'. (loop_step L)\<^sup>*\<^sup>* s s' \<and> round_done w s s'"
proof (induction "length (q_events (cl_queue (sy_client s)))" arbitrary: s fe rule: less_induct)
  case less
  obtain es q where d: "drain (cfg_BatchSize (cl_config (sy_client s))) (cl_queue (sy_client s)) = (es, q)"
    by (cases "drain (cfg_BatchSize (cl_config (sy_client s))) (cl_queue (sy_client s))")
  have one: "loop_step L s (collect w fe s)" using loop_step.collected [OF less.prems(1)] .
  have rdy: "ready (sy_client (collect w fe s))" using ready_step [OF one less.prems(2)] .
  show ?case
  proof (cases "es = []")
    case True
    show ?thesis
    proof (cases fe)
      case None
      then have "sy_phase (collect w fe s) = Replaying w" using True d by (simp add: collect_def after_batches_def)
      from round_done_step [OF one _ replay_ends [OF this rdy]] less.prems(1) show ?thesis by simp
    next
      case (Some e)
      then have "collect w fe s = end_round w fe (s\<lparr>sy_client := (sy_client s)\<lparr>cl_queue := q\<rparr>\<rparr>)"
        using True d by (simp add: collect_def after_batches_def)
      with one show ?thesis using end_round_done by (metis r_into_rtranclp)
    qed
  next
    case False
    let ?s1 = "collect w fe s"
    have s1: "sy_phase ?s1 = Posting w fe es" "cl_queue (sy_client ?s1) = q"
      using False d by (simp_all add: collect_def)
    have two: "loop_step L ?s1 (post L w fe es ?s1)" using loop_step.posted [OF s1(1)] .
    obtain err c where b: "sendBatch L es (sy_client ?s1) = (err, c)" by (cases "sendBatch L es (sy_client ?s1)")
    have "cl_queue c = q" using switches_kept [OF kept_sendBatch [OF b]] s1(2) by (simp add: switches_eq)
    then have "length (q_events (cl_queue (sy_client (post L w fe es ?s1)))) < length (q_events (cl_queue (sy_client s)))"
      using drain_shorter [OF d False] b by (simp add: post_def)
    moreover have "sy_phase (post L w fe es ?s1) = Collecting w (if err \<noteq> None \<and> fe = None then err else fe)"
      using b by (simp add: post_def)
    moreover have "ready (sy_client (post L w fe es ?s1))" using ready_step [OF two rdy] .
    ultimately have "\<exists>u. (loop_step L)\<^sup>*\<^sup>* (post L w fe es ?s1) u \<and> round_done w (post L w fe es ?s1) u"
      using less.hyps by blast
    then have "\<exists>u. (loop_step L)\<^sup>*\<^sup>* ?s1 u \<and> round_done w ?s1 u" using round_done_step [OF two] s1(1) by simp
    then show ?thesis using round_done_step [OF one] less.prems(1) by simp
  qed
qed

lemma to_selecting:
  assumes "ready (sy_client s)"
  shows "\<exists>s'. (loop_step L)\<^sup>*\<^sup>* s s' \<and> sy_phase s' \<in> {Selecting, Finished} \<and> sy_waiting s' = sy_waiting s"
proof -
  have next_: "sy_phase u \<in> {Selecting, Finished} \<and> sy_waiting u = sy_waiting s" if "round_done w s u" for u w
    using that by (simp add: round_done_def after_round_def)
  show ?thesis
  proof (cases "sy_phase s")
    case (Posting w fe es)
    have one: "loop_step L s (post L w fe es s)" using loop_step.posted [OF Posting] .
    obtain err c where "sendBatch L es (sy_client s) = (err, c)" by (cases "sendBatch L es (sy_client s)")
    then have "sy_phase (post L w fe es s) = Collecting w (if err \<noteq> None \<and> fe = None then err else fe)"
      by (simp add: post_def)
    from round_done_step [OF one _ round_ends [OF this ready_step [OF one assms]]] Posting next_ show ?thesis by blast
  next
    case (Collecting w fe)
    from round_ends [OF this assms] next_ show ?thesis by blast
  next
    case (Replaying w)
    from replay_ends [OF this assms] next_ show ?thesis by blast
  qed blast+
qed

text \<open>From its \<open>select\<close> the goroutine can begin and end a round for any cause that is there.\<close>

lemma round_from_selecting:
  assumes "loop_step L t (begin_round w t')" and "ready (sy_client t)"
  shows "\<exists>u. (loop_step L)\<^sup>*\<^sup>* t u \<and> round_done w (begin_round w t') u"
proof -
  have "sy_phase (begin_round w t') = Collecting w None" by (simp add: begin_round_def)
  from round_ends [OF this ready_step [OF assms]] assms(1) show ?thesis
    by (meson converse_rtranclp_into_rtranclp)
qed

lemma ready_steps:
  "(loop_step L)\<^sup>*\<^sup>* s t \<Longrightarrow> ready (sy_client s) \<Longrightarrow> ready (sy_client t) \<and> sy_closing t = sy_closing s"
  by (induction rule: rtranclp_induct) (auto dest: loop_frame ready_step)

lemma close_ends:
  assumes "sy_closing s" and "ready (sy_client s)"
  shows "\<exists>s'. (loop_step L)\<^sup>*\<^sup>* s s' \<and> close_returns s' None"
proof -
  obtain t where t: "(loop_step L)\<^sup>*\<^sup>* s t" "sy_phase t \<in> {Selecting, Finished}" using to_selecting [OF assms(2)] by blast
  show ?thesis
  proof (cases "sy_phase t = Finished")
    case True
    with t(1) show ?thesis by (blast intro: close_returns.finished)
  next
    case False
    then have "loop_step L t (begin_round Closing t)"
      using t ready_steps [OF t(1) assms(2)] assms(1) by (intro loop_step.closing) auto
    from round_from_selecting [OF this] ready_steps [OF t(1) assms(2)]
    obtain u where "(loop_step L)\<^sup>*\<^sup>* t u" "round_done Closing (begin_round Closing t) u" by blast
    then show ?thesis using t(1) by (auto simp: round_done_def after_round_def intro: close_returns.finished rtranclp_trans)
  qed
qed

lemma flush_ends:
  assumes "i \<in> set (sy_waiting s)" and "ready (sy_client s)"
  shows "\<exists>s' r. (loop_step L)\<^sup>*\<^sup>* s s' \<and> flush_returns s' i r \<and>
    (sy_phase s' = Finished \<or> i \<in> fa_caller ` set (sy_answers s'))"
proof -
  obtain t where t: "(loop_step L)\<^sup>*\<^sup>* s t" "sy_phase t \<in> {Selecting, Finished}" "sy_waiting t = sy_waiting s"
    using to_selecting [OF assms(2)] by blast
  show ?thesis
  proof (cases "sy_phase t = Finished")
    case True
    with t(1) show ?thesis by (blast intro: flush_returns.gone)
  next
    case False
    let ?t = "t\<lparr>sy_waiting := remove1 i (sy_waiting t)\<rparr>"
    have "loop_step L t (begin_round (Flushing i) ?t)" using False t(2,3) assms(1) by (intro loop_step.flushing) auto
    from round_from_selecting [OF this] ready_steps [OF t(1) assms(2)]
    obtain u where u: "(loop_step L)\<^sup>*\<^sup>* t u" "round_done (Flushing i) (begin_round (Flushing i) ?t) u" by blast
    then obtain a where "a \<in> set (sy_answers u)" "fa_caller a = i" by (auto simp: round_done_def)
    with t(1) u(1) show ?thesis by (metis flush_returns.answered image_eqI rtranclp_trans)
  qed
qed

end

text \<open>Without an outbox a replay does nothing.\<close>

interpretation no_outbox: replayable L "\<lambda>c. cl_outbox c = None" for L :: "'w library"
proof
  fix c d :: "'w client" and es err fuel
  show "cl_outbox c = None \<Longrightarrow> sendBatch L es c = (err, d) \<Longrightarrow> cl_outbox d = None"
    using kept_sendBatch [of L es c err d] by (simp add: kept_eq)
  show "cl_outbox c = None \<Longrightarrow> sendOutbox fuel L c = Some (err, d) \<Longrightarrow> cl_outbox d = None"
    using kept_sendOutbox [of fuel L c err d] by (simp add: kept_eq)
  have "cl_outbox c = None \<Longrightarrow> sendOutbox 1 L c = Some (None, c)" by simp
  then show "cl_outbox c = None \<Longrightarrow> \<exists>fuel err d. sendOutbox fuel L c = Some (err, d)" by blast
qed simp_all

text \<open>
  C10: a close can always come to its end.  Once \<open>Close\<close> was called, from whatever state the
  goroutine is in and however full the queue is, its own steps can take it to the end of \<open>run\<close>,
  where \<open>Close\<close> returns nil; no step of any other goroutine is needed.  (Without an outbox; with one
  see \<open>Delivery\<close>.)
\<close>
theorem close_can_finish:
  assumes "sy_closing s" and "cl_outbox (sy_client s) = None"
  shows "\<exists>s'. (loop_step L)\<^sup>*\<^sup>* s s' \<and> close_returns s' None"
  using assms by (rule no_outbox.close_ends)

section \<open>The race at a close\<close>

text \<open>
  The bound of a close is reached.  A call of \<open>enqueue\<close> that read the closed flag before \<open>Close\<close>
  set it can put its event into the queue after the last \<open>drain\<close>: it answers true, \<open>Close\<close> has
  returned nil, and the goroutine, which has no step left, never sends the event.
\<close>
theorem accepted_but_never_sent:
  assumes "admit L e c = (Some e', c1)" and "q_events (cl_queue c) = []" and "0 < q_capacity (cl_queue c)"
    and "cl_outbox c = None"
  shows "\<exists>s. reachable L c s \<and> close_returns s None \<and> sy_accepted s = [e'] \<and> sy_attempted s = [] \<and>
    sy_displaced s = [] \<and> (\<forall>s'. \<not> loop_step L s s')"
proof -
  have open_: "\<not> cl_disabled c" "\<not> cl_closed c" using assms(1) by (auto simp: admit_def split: if_splits)
  have sw: "cl_queue c1 = cl_queue c" "cl_disabled c1 = cl_disabled c" "cl_outbox c1 = None"
    using switches_admit [OF assms(1)] assms(4) by (simp_all add: switches_eq)
  define s1 where "s1 = (starting c)\<lparr>sy_client := c1, sy_inflight := [e']\<rparr>"
  define s2 where "s2 = close_client s1"
  define s3 where "s3 = begin_round Closing s2"
  define s4 where "s4 = collect Closing None s3"
  define s5 where "s5 = end_round Closing None (s4\<lparr>sy_client := sy_client s4\<rparr>)"
  define s6 where "s6 = put e' s5"
  have s2: "sy_client s2 = c1\<lparr>cl_closed := True\<rparr>" "sy_phase s2 = Selecting" "sy_closing s2" "sy_inflight s2 = [e']"
      "sy_accepted s2 = []" "sy_attempted s2 = []" "sy_displaced s2 = []"
    using sw open_ by (simp_all add: s2_def s1_def close_client_def starting_def)
  have d: "drain n (cl_queue c1) = ([], cl_queue c1)" for n using sw assms(2) by (simp add: drain_def)
  have s4: "sy_phase s4 = Replaying Closing" "sy_client s4 = c1\<lparr>cl_closed := True\<rparr>" "sy_inflight s4 = [e']"
      "sy_accepted s4 = []" "sy_attempted s4 = []" "sy_displaced s4 = []"
    using s2 d by (simp_all add: s4_def s3_def begin_round_def collect_def after_batches_def Let_def)
  have s5: "sy_phase s5 = Finished" "sy_client s5 = c1\<lparr>cl_closed := True\<rparr>" "sy_inflight s5 = [e']"
      "sy_accepted s5 = []" "sy_attempted s5 = []" "sy_displaced s5 = []"
    using s4 by (simp_all add: s5_def end_round_def)
  have "reachable L c (starting c)" using open_ assms(2) by (rule reachable.start)
  moreover have "caller_step L (starting c) s1"
    using caller_step.admitted [of L e "starting c" e' c1] assms(1) by (simp add: s1_def starting_def)
  moreover have "caller_step L s1 s2" unfolding s2_def by (rule caller_step.closed)
  moreover have "loop_step L s2 s3" unfolding s3_def using s2 by (intro loop_step.closing)
  moreover have "loop_step L s3 s4"
    unfolding s4_def by (rule loop_step.collected) (simp add: s3_def begin_round_def)
  moreover have "loop_step L s4 s5"
    unfolding s5_def using s4(1,2) sw(3) by (intro loop_step.replayed [where fuel = 1]) simp_all
  moreover have "caller_step L s5 s6" unfolding s6_def by (rule caller_step.reached) (simp add: s5)
  ultimately have "reachable L c s6" by (meson reachable.loop reachable.caller)
  moreover have s6: "sy_phase s6 = Finished" "sy_accepted s6 = [e']" "sy_attempted s6 = []" "sy_displaced s6 = []"
    using s5 assms(2,3) sw(1) by (simp_all add: s6_def put_def push_def Let_def)
  moreover have "\<not> loop_step L s6 s'" for s'
    using s6(1) by (auto elim!: loop_step.cases)
  ultimately show ?thesis by (blast intro: close_returns.finished)
qed

end
