(* ===== verification/Event_Flow.thy ===== *)
theory Event_Flow
  imports Client_Lifecycle
begin

text \<open>
  The pipeline of \<open>prepareEvent\<close> composed with the goroutine of \<open>run\<close> (\<open>logcenter/client.go\<close>): what
  can be in the queue, in a batch or on its way, in any interleaving of callers and goroutine.
\<close>

section \<open>The settings stay\<close>

text \<open>
  The redactor and the limiter of a client are set by \<open>NewClient\<close> and never changed, and so is
  whether it has tamper evidence.
\<close>

type_synonym setting = "redactor \<times> limiter \<times> bool"

definition settings :: "'w client \<Rightarrow> setting" where
  "settings c = (cl_redactor c, cl_limiter c, cl_tamper c = None)"

lemma settings_kept: "kept c' = kept c \<Longrightarrow> settings c' = settings c"
  by (simp add: kept_eq settings_def)

lemma tamper_note [simp]: "cl_tamper (note_truncation before after c) = cl_tamper c"
  by (simp add: note_truncation_def eventTruncated_def call_hook_def count_def)

lemma Apply_off: "Apply h e te s = (r, te', s') \<Longrightarrow> te' = None \<longleftrightarrow> te = None"
  by (auto simp: Apply_def Let_def split: option.splits sum.splits if_splits prod.splits)

lemma tamper_prepare:
  assumes "prepareEvent L e c = (r, c')"
  shows "cl_tamper c' = None \<longleftrightarrow> cl_tamper c = None"
proof -
  obtain d c1 where d: "withDefaults L e c = (d, c1)" by (cases "withDefaults L e c")
  have "kept c1 = kept c" using withDefaults_event [OF d] by metis
  then have same: "cl_tamper c1 = cl_tamper c" by (simp add: kept_eq)
  have off: "cl_tamper c3 = None \<longleftrightarrow> cl_tamper c2 = None" if "applyTamperEvidence L l c2 = (x, c3)" for l c2 x and c3 :: "'a client"
  proof -
    obtain y te s where "Apply (lib_hash L) l (cl_tamper c2) (cl_fs c2) = (y, te, s)" by (metis prod.collapse)
    then show ?thesis using that Apply_off by (fastforce simp: applyTamperEvidence_def)
  qed
  from assms d same show ?thesis
    by (auto simp: prepareEvent_def Let_def dest!: off split: prod.splits option.splits)
qed

lemma settings_prepare:
  assumes "prepareEvent L e c = (r, c')"
  shows "settings c' = settings c"
proof -
  have "idle c c'"
    using assms by (elim prepareEvent_stages [of L e c "fst r" "snd r" c', simplified]) simp
  then show ?thesis using tamper_prepare [OF assms] by (simp add: idle_def settings_def)
qed

lemma settings_small [simp]:
  "settings (drop_failed e err c) = settings c" "settings (persistOutbox es c) = settings c"
  "settings (eventDropped e why cause c) = settings c" "settings (add_dropped c) = settings c"
  "settings (count f c) = settings c"
  by (rule settings_kept, simp)+

lemma settings_updates [simp]:
  "settings (c\<lparr>cl_queue := q\<rparr>) = settings c" "settings (c\<lparr>cl_notify := b\<rparr>) = settings c"
  "settings (c\<lparr>cl_closed := b\<rparr>) = settings c" "settings (signal c) = settings c"
  by (simp_all add: settings_def signal_def)

text \<open>\<open>admit\<close> lets through what the pipeline made.\<close>

definition passed :: "'w library \<Rightarrow> setting \<Rightarrow> event \<Rightarrow> bool" where
  "passed L rl e \<longleftrightarrow> (\<exists>e0 c0 c1. prepareEvent L e0 c0 = ((e, None), c1) \<and> settings c0 = rl)"

lemma admit_passed:
  assumes "admit L e c = (r, c')"
  shows "settings c' = settings c" and "r = Some e' \<Longrightarrow> passed L (settings c) e'"
proof -
  obtain e1 err c1 where p: "prepareEvent L e c = ((e1, err), c1)" by (metis prod.collapse)
  show "settings c' = settings c" "r = Some e' \<Longrightarrow> passed L (settings c) e'"
    using assms p settings_prepare [OF p]
    by (cases err; auto simp: admit_def passed_def split: if_splits)+
qed

lemma settings_push_event: "push_event e c = (ok, c') \<Longrightarrow> settings c' = settings c"
  by (auto simp: push_event_def Let_def split: prod.splits option.splits if_splits)

lemma settings_sync:
  assumes "SendEventSync L ctx e c = (r, c')"
  shows "settings c' = settings c"
proof -
  obtain e1 err c1 where p: "prepareEvent L (withContextFields ctx e) c = ((e1, err), c1)" by (metis prod.collapse)
  obtain err2 c2 where b: "sendBatchSync L [e1] c1 = (err2, c2)" by (cases "sendBatchSync L [e1] c1")
  have "settings c2 = settings c1"
    using settings_kept [OF kept_sendBatchInternal] b by (simp add: sendBatchSync_def)
  with assms p b settings_prepare [OF p] show ?thesis
    by (cases err; cases err2) (auto simp: SendEventSync_def split: if_splits)
qed

section \<open>The invariant\<close>

text \<open>What a caller or the goroutine holds of the events that have passed the pipeline.\<close>

definition flows :: "'w library \<Rightarrow> setting \<Rightarrow> 'w system \<Rightarrow> bool" where
  "flows L rl s \<longleftrightarrow> settings (sy_client s) = rl \<and> (\<forall>e \<in> set (sy_inflight s @ sy_accepted s). passed L rl e)"

lemma flows_loop:
  assumes "loop_step L s s'" and "flows L rl s"
  shows "flows L rl s'"
proof -
  have "settings (sy_client s') = settings (sy_client s) \<and> sy_inflight s' = sy_inflight s \<and> sy_accepted s' = sy_accepted s"
    using assms(1)
  proof (cases rule: loop_step.cases)
    case (posted w fe es)
    obtain err d where b: "sendBatch L es (sy_client s) = (err, d)" by (cases "sendBatch L es (sy_client s)")
    with posted show ?thesis using settings_kept [OF kept_sendBatch [OF b]] by (simp add: post_def)
  next
    case (replayed w fuel err d)
    then show ?thesis using settings_kept [OF kept_sendOutbox [OF replayed(3)]]
      by (auto simp: end_round_def split: cause.split)
  qed (auto simp: on_notify_def begin_round_def collect_def after_batches_def end_round_def Let_def
      split: cause.split prod.split)
  with assms(2) show ?thesis by (simp add: flows_def)
qed

lemma flows_put:
  assumes "e \<in> set (sy_inflight s)" and "flows L rl s"
  shows "flows L rl (put e s)"
proof -
  obtain ok c where p: "push_event e (sy_client s) = (ok, c)" by (cases "push_event e (sy_client s)")
  have "set (remove1 e (sy_inflight s)) \<subseteq> set (sy_inflight s)" by (rule set_remove1_subset)
  then show ?thesis
    using assms p settings_push_event [OF p] by (auto simp: flows_def put_def Let_def)
qed

lemma flows_caller:
  assumes "caller_step L s s'" and "flows L rl s"
  shows "flows L rl s'"
  using assms(1)
proof (cases rule: caller_step.cases)
  case (admitted e e' c)
  then show ?thesis using assms(2) admit_passed [OF admitted(2)] by (auto simp: flows_def)
next
  case (refused e c)
  then show ?thesis using assms(2) admit_passed(1) [OF refused(2)] by (auto simp: flows_def)
next
  case (reached e)
  then show ?thesis using flows_put assms(2) by simp
next
  case (sent ctx e r c)
  then show ?thesis using assms(2) settings_sync [OF sent(2)] by (simp add: flows_def)
qed (use assms(2) in \<open>auto simp: flows_def close_client_def\<close>)

lemma reachable_flows: "reachable L c s \<Longrightarrow> flows L (settings c) s"
  by (induction rule: reachable.induct) (auto simp: flows_def starting_def dest: flows_loop flows_caller)

lemma passed_bare:
  assumes "prepareEvent L e0 c0 = ((e, None), c1)" and "cl_tamper c0 = None"
  shows "e = limit_fields_of (cl_limiter c0) (redactEvent (lib_lower L) (cl_redactor c0) (fst (withDefaults L e0 c0)))"
proof -
  obtain d c2 c3 where d: "withDefaults L e0 c0 = (d, c2)"
    using prod.exhaust by metis
  have "applyTamperEvidence L l c = ((l, None), c)" if "cl_tamper c = None" for l and c :: "'a client"
    using that by (simp add: applyTamperEvidence_def Apply_def)
  with assms d show ?thesis
    by (elim prepareEvent_stages [of L e0 c0 e None c1]) auto
qed

text \<open>
  C7: nothing goes through the queue unprepared.  In every reachable state, every event in the queue,
  in the goroutine's hands or handed by it from the queue to a batch is well-formed, and it is an
  event that was redacted with the client's key fragments, so that what redaction looks into has no
  value under a sensitive key, then limited, so that it was within \<open>MaxEventBytes\<close>, and then given at
  most one tamper entry in its metadata.  The ceiling holds for the event before that entry; without
  tamper evidence, where there is no such entry, it holds for the event itself.
\<close>
theorem only_prepared_events_leave:
  assumes "reachable L c s" and "0 < lm_maxEventBytes (cl_limiter c)"
    and "e \<in># mset (sy_attempted s) + mset (held (sy_phase s)) + queued s"
  shows "well_formed_event e \<and>
    (\<exists>d r l. r = redactEvent (lib_lower L) (cl_redactor c) d \<and> l = limit_fields_of (cl_limiter c) r \<and>
      (\<forall>v \<in> {GFields (ev_Metadata r), GFields (ev_Data r), ev_Changes r, ev_OldValue r, ev_NewValue r}.
         masked (IsSensitiveKey (lib_lower L) (cl_redactor c)) v) \<and>
      (\<exists>t. json_event l = Some t \<and> int (length t) \<le> lm_maxEventBytes (cl_limiter c)) \<and>
      (e = l \<or> cl_tamper c \<noteq> None \<and>
        (\<exists>key v. e = l\<lparr>ev_Metadata := Some (entry_set key v (entries_of (ev_Metadata l)))\<rparr>)))"
proof -
  have "mset (sy_attempted s) + mset (held (sy_phase s)) + queued s \<subseteq># mset (sy_accepted s)"
    using reachable_sound [OF assms(1)] by (simp add: sound_def ledger_def ac_simps)
  with assms(3) have "e \<in> set (sy_accepted s)" by (metis mset_subset_eqD set_mset_mset)
  then have "passed L (settings c) e" using reachable_flows [OF assms(1)] by (simp add: flows_def)
  then obtain e0 c0 c1 where p: "prepareEvent L e0 c0 = ((e, None), c1)"
    and same: "cl_redactor c0 = cl_redactor c" "cl_limiter c0 = cl_limiter c"
      "cl_tamper c0 = None \<longleftrightarrow> cl_tamper c = None"
    by (auto simp: passed_def settings_def)
  let ?r = "redactEvent (lib_lower L) (cl_redactor c) (fst (withDefaults L e0 c0))"
  let ?l = "limit_fields_of (cl_limiter c) ?r"
  have "0 < lm_maxEventBytes (cl_limiter c0)" using assms(2) same(2) by simp
  note made = prepared_event [OF p this, unfolded Let_def same(1,2)]
  have "cl_tamper c = None \<Longrightarrow> e = ?l" using passed_bare [OF p] same by simp
  with made have "e = ?l \<or> cl_tamper c \<noteq> None \<and>
      (\<exists>key v. e = ?l\<lparr>ev_Metadata := Some (entry_set key v (entries_of (ev_Metadata ?l)))\<rparr>)" by blast
  with made show ?thesis by (intro conjI exI [of _ "fst (withDefaults L e0 c0)"] exI [of _ ?r] exI [of _ ?l]) simp_all
qed

end
