(* ===== verification/Delivery.thy ===== *)
theory Delivery
  imports Event_Flow Outbox_Replay
begin

text \<open>
  The outbox composed with the pipeline, the queue, the goroutine and its callers: on a working
  file system, what has been accepted is in the outbox file until a server has answered for it.
  The runs of \<open>Client_Lifecycle\<close> are labelled with what they persisted and which ids were answered.
\<close>

section \<open>The outbox file is left alone\<close>

text \<open>A file is undisturbed when it keeps its text and no fault arises.\<close>

definition undisturbed :: "string \<Rightarrow> fs \<Rightarrow> fs \<Rightarrow> bool" where
  "undisturbed name s s' \<longleftrightarrow> fs_files s' (Named name) = fs_files s (Named name) \<and>
     (fs_outcomes s = [] \<longrightarrow> fs_outcomes s' = [])"

lemma undisturbed_refl [simp]: "undisturbed name s s"
  by (simp add: undisturbed_def)

lemma undisturbed_trans [trans]: "undisturbed name s t \<Longrightarrow> undisturbed name t u \<Longrightarrow> undisturbed name s u"
  by (simp add: undisturbed_def)

lemma undisturbed_calm: "undisturbed name s s' \<Longrightarrow> calm name s \<Longrightarrow>
    calm name s' \<and> log_events decode name s' = log_events decode name s"
  by (simp add: undisturbed_def calm_def log_whole_def log_events_def file_text_def)

lemma os_simple_undisturbed: "undisturbed name s (snd (os_simple s))"
  by (simp add: undisturbed_def os_simple_def next_outcome_def split: list.split)

lemma os_undisturbed:
  "undisturbed name s (snd (os_MkdirAll s))" "undisturbed name s (snd (os_Close s))"
  "undisturbed name s (snd (os_CreateTemp s))"
  "p \<noteq> Named name \<Longrightarrow> undisturbed name s (snd (os_Write p t s))"
  "p \<noteq> Named name \<Longrightarrow> undisturbed name s (snd (os_Remove p s))"
  "p \<noteq> Named name \<Longrightarrow> q \<noteq> Named name \<Longrightarrow> undisturbed name s (snd (os_Rename p q s))"
proof -
  note simple = os_simple_undisturbed [of name s]
  show "undisturbed name s (snd (os_MkdirAll s))" "undisturbed name s (snd (os_Close s))"
    using simple by (simp_all add: os_MkdirAll_def os_Close_def)
  show "undisturbed name s (snd (os_CreateTemp s))"
    using simple by (auto simp: os_CreateTemp_def undisturbed_def dest: os_simple_eq split: prod.split option.split)
  show "undisturbed name s (snd (os_Write p t s))" if "p \<noteq> Named name"
    using that by (auto simp: os_Write_def undisturbed_def next_outcome_def Let_def split: list.split)
  show "undisturbed name s (snd (os_Remove p s))" if "p \<noteq> Named name"
    using simple that by (auto simp: os_Remove_def undisturbed_def dest: os_simple_eq split: prod.split option.split)
  show "undisturbed name s (snd (os_Rename p q s))" if "p \<noteq> Named name" "q \<noteq> Named name"
    using simple that by (auto simp: os_Rename_def undisturbed_def dest: os_simple_eq split: prod.split option.split)
qed

lemma replaceFile_undisturbed:
  assumes "p \<noteq> Named name" and "q \<noteq> Named name"
  shows "undisturbed name s (snd (replaceFile p q s))"
proof -
  have rm: "undisturbed name s (snd (os_Remove q s))" using os_undisturbed(5) assms(2) .
  moreover have "undisturbed name t (snd (os_Rename p q t))" for t using os_undisturbed(6) assms .
  ultimately show ?thesis
    unfolding replaceFile_def
    by (auto split: prod.split option.split os_error.split dest: undisturbed_trans) (metis snd_conv undisturbed_trans)+
qed

text \<open>The state of the tamper evidence is another file.\<close>

lemma saveState_undisturbed:
  assumes "tc_StatePath (te_config te) \<noteq> name"
  shows "undisturbed name s (snd (saveState te s))"
proof (cases "trim_space (tc_StatePath (te_config te)) = []")
  case False
  let ?j = "json_state \<lparr>ts_ChainID = tc_ChainID (te_config te),
      ts_PreviousHash = te_previousHash te, ts_Sequence = te_sequence te\<rparr>"
  let ?q = "Named (tc_StatePath (te_config te))"
  obtain r1 s1 where m: "os_MkdirAll s = (r1, s1)" by (cases "os_MkdirAll s")
  obtain r2 s2 where t: "os_CreateTemp s1 = (r2, s2)" by (cases "os_CreateTemp s1")
  have d2: "undisturbed name s s1" "undisturbed name s1 s2"
    using os_undisturbed(1,3) m t by (metis snd_conv)+
  show ?thesis
  proof (cases "r1 = None \<and> (\<exists>tmp. r2 = Inr tmp)")
    case True
    then obtain tmp where tmp: "r2 = Inr tmp" "tmp \<noteq> Named name" using os_CreateTemp_ok [of s1 _ s2] t by auto
    obtain r3 s3 where w: "os_Write tmp ?j s2 = (r3, s3)" by (cases "os_Write tmp ?j s2")
    obtain r4 s4 where c: "os_Close s3 = (r4, s4)" by (cases "os_Close s3")
    obtain r5 s5 where p: "replaceFile tmp ?q s4 = (r5, s5)" by (cases "replaceFile tmp ?q s4")
    have d5: "undisturbed name s2 s3" "undisturbed name s3 s4" "undisturbed name s4 s5"
      using os_undisturbed(2,4) replaceFile_undisturbed tmp(2) assms w c p by (metis path.inject(1) snd_conv)+
    have d: "undisturbed name s s4" "undisturbed name s s5"
      using d2 d5 by (blast intro: undisturbed_trans)+
    have rm: "undisturbed name u (snd (os_Remove tmp u))" for u using os_undisturbed(5) tmp(2) .
    have "snd (saveState te s) \<in> {s4, s5, snd (os_Remove tmp s4), snd (os_Remove tmp s5)}"
      using True False m t tmp w c p by (auto simp: saveState_def Let_def split: option.split)
    with d rm show ?thesis by (auto intro: undisturbed_trans)
  next
    case bad: False
    then have "snd (saveState te s) \<in> {s1, s2}"
      using False m t by (auto simp: saveState_def Let_def split: option.split sum.split)
    with d2 show ?thesis by (auto intro: undisturbed_trans)
  qed
qed (simp add: saveState_def Let_def)

section \<open>One call at a time\<close>

text \<open>What the outbox file holds, by the ids of its events.\<close>

definition stock :: "'w library \<Rightarrow> string \<Rightarrow> 'w client \<Rightarrow> string set" where
  "stock L name c = ev_EventID ` set (log_events (decode_event L) name (cl_fs c))"

text \<open>A client whose outbox file works, with a retry budget that does not overflow, and whose tamper
  state is kept elsewhere.\<close>

definition outboxed :: "string \<Rightarrow> 'w client \<Rightarrow> bool" where
  "outboxed name c \<longleftrightarrow> cl_outbox c = Some name \<and> calm name (cl_fs c) \<and>
     (\<forall>te. cl_tamper c = Some te \<longrightarrow> tc_StatePath (te_config te) \<noteq> name) \<and>
     0 \<le> cfg_RetryAttempts (cl_config c) \<and> cfg_RetryAttempts (cl_config c) < 2 ^ 63 - 1"

text \<open>An event that is one line of the outbox and is read back under its id.\<close>

definition keepable :: "'w library \<Rightarrow> event \<Rightarrow> bool" where
  "keepable L e \<longleftrightarrow> (\<exists>t e'. json_event e = Some t \<and> line_ok maxLine t \<and>
     decode_event L t = Some e' \<and> ev_EventID e' = ev_EventID e)"

text \<open>
  What an event needs for that: a text below the scanner's limit, values that JSON can give back (no
  nesting beyond the decoder's bound, no number beyond a float), and an id in valid UTF-8.
\<close>

definition restorable :: "event \<Rightarrow> bool" where
  "restorable e \<longleftrightarrow> (\<exists>t. json_event e = Some t \<and> int (length t) < maxLine) \<and> event_readable e \<and>
     (\<forall>v \<in> {ev_Changes e, ev_OldValue e, ev_NewValue e, GFields (ev_Metadata e), GFields (ev_Data e)}.
        others_printable v) \<and>
     valid_utf8 (ev_EventID e)"

lemma restorable_keepable:
  assumes "restorable e"
  shows "keepable L e"
proof -
  obtain t where t: "json_event e = Some t" "int (length t) < maxLine" using assms by (auto simp: restorable_def)
  have e: "event_readable e" "valid_utf8 (ev_EventID e)"
    and others: "\<forall>v \<in> {ev_Changes e, ev_OldValue e, ev_NewValue e, GFields (ev_Metadata e), GFields (ev_Data e)}.
      others_printable v" using assms unfolding restorable_def by blast+
  have "line_ok maxLine t" using printable_line [OF json_event_printable [OF others t(1)] t(2)] .
  moreover obtain e' where "unmarshal_event (lib_float L) t = Some e'" "ev_EventID e' = to_valid (ev_EventID e)"
    using event_back [OF t(1) e(1), of "lib_float L"] by (auto simp: valid_strings_def)
  ultimately show ?thesis using t(1) to_valid_id [OF e(2)] by (simp add: keepable_def decode_event_def)
qed

text \<open>A batch was answered when there was no error, or only the server's rejections.\<close>

fun answered :: "go_error option \<Rightarrow> bool" where
  "answered None = True"
| "answered (Some (RejectedEvents es n)) = True"
| "answered (Some _) = False"

text \<open>From one state to the next: what was in the file, and what is new, is in the file then, or
  answered; and nothing else has come into the file.\<close>

definition keeps :: "'w library \<Rightarrow> string \<Rightarrow> string set \<Rightarrow> string set \<Rightarrow> 'w client \<Rightarrow> 'w client \<Rightarrow> bool" where
  "keeps L name new gone c c' \<longleftrightarrow> outboxed name c' \<and>
     stock L name c \<union> new \<subseteq> stock L name c' \<union> gone \<and> stock L name c' \<subseteq> stock L name c \<union> new"

lemma keeps_trans:
  "keeps L name new gone c c1 \<Longrightarrow> keeps L name new' gone' c1 c' \<Longrightarrow> keeps L name (new \<union> new') (gone \<union> gone') c c'"
  by (auto simp: keeps_def)

lemma keeps_quiet: "keeps L name {} {} c c1 \<Longrightarrow> keeps L name new gone c1 c' \<Longrightarrow> keeps L name new gone c c'"
  using keeps_trans [of L name "{}" "{}" c c1 new gone c'] by simp

definition shelf :: "'w client \<Rightarrow> durable_outbox option \<times> tamper_evidence option \<times> config \<times> fs" where
  "shelf c = (cl_outbox c, cl_tamper c, cl_config c, cl_fs c)"

lemma keeps_shelf: "outboxed name c \<Longrightarrow> shelf c' = shelf c \<Longrightarrow> keeps L name {} {} c c'"
  by (simp add: keeps_def outboxed_def shelf_def stock_def)

lemma shelf_kept: "kept c' = kept c \<Longrightarrow> cl_fs c' = cl_fs c \<Longrightarrow> shelf c' = shelf c"
  by (simp add: kept_eq shelf_def)

lemma shelf_small [simp]:
  "shelf (drop_failed e err c) = shelf c" "shelf (eventDropped e why cause c) = shelf c"
  "shelf (add_dropped c) = shelf c" "shelf (count f c) = shelf c" "shelf (client_setError x c) = shelf c"
  by (rule shelf_kept, simp, simp add: drop_failed_def frame_simps)+

lemma shelf_updates [simp]:
  "shelf (c\<lparr>cl_queue := q\<rparr>) = shelf c" "shelf (c\<lparr>cl_notify := b\<rparr>) = shelf c"
  "shelf (c\<lparr>cl_closed := b\<rparr>) = shelf c" "shelf (signal c) = shelf c" "shelf (c\<lparr>cl_world := w\<rparr>) = shelf c"
  by (simp_all add: shelf_def signal_def)

lemma shelf_push: "push_event e c = (ok, c') \<Longrightarrow> shelf c' = shelf c"
  by (auto simp: push_event_def Let_def split: prod.splits option.splits if_splits)

lemma keeps_prepare:
  assumes "outboxed name c" and "prepareEvent L e c = (r, c')"
  shows "keeps L name {} {} c c'"
proof -
  obtain d c1 where d: "withDefaults L e c = (d, c1)" by (cases "withDefaults L e c")
  have s1: "shelf c1 = shelf c" using withDefaults_event [OF d] shelf_kept by metis
  let ?r = "redactEvent (lib_lower L) (cl_redactor c1) d"
  obtain l err where l: "limitEvent (cl_limiter c1) ?r = (l, err)" by (cases "limitEvent (cl_limiter c1) ?r")
  show ?thesis
  proof (cases err)
    case (Some x)
    with assms d l s1 show ?thesis by (auto simp: prepareEvent_def Let_def intro: keeps_shelf)
  next
    case None
    let ?c2 = "note_truncation ?r l c1"
    have "shelf ?c2 = shelf c1"
      by (rule shelf_kept) (simp_all add: note_truncation_def eventTruncated_def frame_simps)
    with s1 have s2: "shelf ?c2 = shelf c" by simp
    obtain q te s where a: "Apply (lib_hash L) l (cl_tamper ?c2) (cl_fs ?c2) = (q, te, s)"
      by (cases "Apply (lib_hash L) l (cl_tamper ?c2) (cl_fs ?c2)")
    have c': "c' = ?c2\<lparr>cl_tamper := te, cl_fs := s\<rparr>"
      using assms d l None a by (auto simp: prepareEvent_def applyTamperEvidence_def Let_def split: prod.splits option.splits)
    have "undisturbed name (cl_fs ?c2) s \<and> (\<forall>te'. te = Some te' \<longrightarrow> tc_StatePath (te_config te') \<noteq> name)"
    proof (cases "cl_tamper ?c2")
      case None
      with a show ?thesis by (simp add: Apply_def)
    next
      case (Some te0)
      then have path: "tc_StatePath (te_config te0) \<noteq> name"
        using assms(1) s2 by (simp add: outboxed_def shelf_def)
      show ?thesis
      proof (cases "matches te0 l \<and> (\<exists>h. hashEventForEvidence (lib_hash L) l (te_metadataKey te0) = Inr h)")
        case False
        with a Some have "te = Some te0 \<and> s = cl_fs ?c2"
          by (auto simp: Apply_def split: if_splits sum.splits)
        with path show ?thesis by simp
      next
        case True
        then obtain h where h: "matches te0 l" "hashEventForEvidence (lib_hash L) l (te_metadataKey te0) = Inr h" by blast
        obtain l1 te1 where cs: "chain_step (lib_hash L) h l te0 = (l1, te1)" by (cases "chain_step (lib_hash L) h l te0")
        then have cfg: "te_config te1 = te_config te0" by (auto simp: chain_step_def Let_def)
        obtain x u where sv: "saveState te1 (cl_fs ?c2) = (x, u)" by (cases "saveState te1 (cl_fs ?c2)")
        then have "te = Some te1" "s = u" using a Some h cs by (simp_all add: Apply_def)
        with sv cfg path Some saveState_undisturbed [of te1 name "cl_fs ?c2"] show ?thesis by simp
      qed
    qed
    then show ?thesis
      using assms(1) s2 undisturbed_calm [of name "cl_fs c" s]
      by (auto simp: c' keeps_def outboxed_def shelf_def stock_def)
  qed
qed

lemma outbox_Append_calm:
  assumes "calm name s" and "storable decode e"
  shows "\<exists>s'. outbox_Append (Some name) [e] s = (None, s') \<and> calm name s' \<and>
    log_events decode name s' = log_events decode name s @ [stored decode e]"
proof -
  obtain t where t: "json_event e = Some t" using assms(2) by (auto simp: storable_def)
  have nf: "fs_outcomes s = []" using assms(1) by (simp add: calm_def)
  have simple: "os_simple u = (None, u)" if "fs_outcomes u = []" for u
    using that by (simp add: os_simple_def next_outcome_def failure_def)
  obtain s2 where o: "os_OpenAppend (Named name) s = (None, s2)" "fs_outcomes s2 = []"
    using nf by (simp add: os_OpenAppend_def simple)
  obtain s3 where w: "os_Write (Named name) (t @ [newline]) s2 = (None, s3)" "fs_outcomes s3 = []"
    using no_fault_ops(1,2) [OF o(2)] by (metis prod.collapse)
  have run: "outbox_Append (Some name) [e] s = (None, s3)"
    using nf o w t by (simp add: outbox_Append_def os_MkdirAll_def os_Close_def simple)
  with obx.append_adds [of name s "[e]" s3 decode] assms w(2) show ?thesis by (simp add: calm_def)
qed

lemma keeps_persist:
  assumes "outboxed name c" and "keepable L e"
  shows "keeps L name {ev_EventID e} {} c (persistOutbox [e] c)"
proof -
  have ob: "cl_outbox c = Some name" "calm name (cl_fs c)" using assms(1) by (simp_all add: outboxed_def)
  have st: "storable (decode_event L) e" "ev_EventID (stored (decode_event L) e) = ev_EventID e"
    using assms(2) by (auto simp: keepable_def storable_def stored_def)
  obtain s where s: "outbox_Append (Some name) [e] (cl_fs c) = (None, s)" "calm name s"
      "log_events (decode_event L) name s = log_events (decode_event L) name (cl_fs c) @ [stored (decode_event L) e]"
    using outbox_Append_calm [OF ob(2) st(1)] by blast
  have "persistOutbox [e] c = c\<lparr>cl_fs := s\<rparr>" using ob(1) s(1) by (simp add: persistOutbox_def copyEvents_def)
  then show ?thesis using assms(1) s(2,3) st(2) by (auto simp: keeps_def outboxed_def stock_def)
qed


text \<open>An answered batch takes the ids of its events out of the file, and no others.\<close>

lemma keeps_removed:
  assumes "outboxed name c"
  shows "keeps L name {} (set (eventIDs es)) c (removeOutbox L es c)"
proof (cases "es = []")
  case True
  with assms show ?thesis by (simp add: removeOutbox_def keeps_def)
next
  case False
  have ob: "cl_outbox c = Some name" "calm name (cl_fs c)" using assms(1) by (simp_all add: outboxed_def)
  obtain s where s: "outbox_Remove (decode_event L) (Some name) (eventIDs es) (cl_fs c) = (None, s)" "calm name s"
    using outbox_Remove_calm [OF ob(2)] by blast
  have "log_whole name (cl_fs c)" using ob(2) by (simp add: calm_def)
  note log = obx.remove_drops [OF this s(1)]
  have "removeOutbox L es c = c\<lparr>cl_fs := s\<rparr>" using ob(1) s(1) False by (simp add: removeOutbox_def)
  then show ?thesis using assms(1) s(2) log by (auto simp: keeps_def outboxed_def stock_def)
qed

lemma keeps_batch_sent:
  assumes "outboxed name c" and "batch_sent L es b r c = (err, c')"
  shows "keeps L name {} (set (eventIDs es)) c c' \<and> answered err"
proof -
  let ?c1 = "recordEventRejections es (br_Errors r) (count_sent (length es) r c)"
  have "shelf ?c1 = shelf c" by (rule shelf_kept) (simp_all add: count_sent_def frame_simps)
  then have k1: "keeps L name {} {} c ?c1" by (rule keeps_shelf [OF assms(1)])
  then have "outboxed name ?c1" by (simp add: keeps_def)
  note k = k1 this
  have k2: "keeps L name {} (set (eventIDs es)) c (removeOutbox L es ?c1)"
    using keeps_quiet [OF k(1) keeps_removed [OF k(2)]] .
  have "keeps L name {} {} (removeOutbox L es ?c1) (client_setError x (removeOutbox L es ?c1))" for x
    using k2 by (intro keeps_shelf) (simp_all add: keeps_def)
  from keeps_trans [OF k2 this] k2 show ?thesis
    using assms(2) by (auto simp: batch_sent_def Let_def split: if_splits)
qed

definition answered_ids :: "event list \<Rightarrow> go_error option \<Rightarrow> string list" where
  "answered_ids es err = (if answered err then eventIDs es else [])"

lemma keeps_batch:
  assumes "outboxed name c" and "sendBatchInternal L es b c = (err, c')"
  shows "keeps L name {} (set (answered_ids es err)) c c'"
proof (cases "es = []")
  case True
  with assms show ?thesis by (auto simp: sendBatchInternal_def keeps_def)
next
  case False
  have retry: "0 \<le> cfg_RetryAttempts (cl_config c)" "cfg_RetryAttempts (cl_config c) < 2 ^ 63 - 1"
    using assms(1) by (simp_all add: outboxed_def)
  have failed: "keeps L name {} gone c c'" if "kept c' = kept c" "cl_fs c' = cl_fs c" for gone
    using keeps_shelf [OF assms(1) shelf_kept [OF that]] by (auto simp: keeps_def)
  from assms(2) False retry show ?thesis
  proof (cases rule: sendBatchInternal_cases)
    case (misconfigured e)
    then show ?thesis by (intro failed) (simp_all add: recordBatchFailure_def frame_simps)
  next
    case (run payload c1 n)
    have c1: "outboxed name c1" "keeps L name {} {} c c1"
      using keeps_shelf [OF assms(1) shelf_kept [OF run(1,3)]] by (simp_all add: keeps_def)
    show ?thesis
    proof (cases "\<exists>r w. batch_sent L es b r (c1\<lparr>cl_world := w\<rparr>) = (err, c')")
      case True
      then obtain r w where bs: "batch_sent L es b r (c1\<lparr>cl_world := w\<rparr>) = (err, c')" by blast
      have w: "keeps L name {} {} c (c1\<lparr>cl_world := w\<rparr>)"
        using keeps_quiet [OF c1(2) keeps_shelf [OF c1(1)]] by simp
      then have "outboxed name (c1\<lparr>cl_world := w\<rparr>)" by (simp add: keeps_def)
      from keeps_batch_sent [OF this bs] keeps_quiet [OF w] show ?thesis by (simp add: answered_ids_def)
    next
      case False
      then have "cl_fs c' = cl_fs c" using outcome_effect [OF run(5)] run(3) by auto
      moreover have "kept c' = kept c" using kept_sendBatchInternal [OF assms(2)] .
      ultimately show ?thesis by (intro failed)
    qed
  qed
qed

text \<open>The ids that one call of \<open>sendOutbox\<close> gets answered.\<close>

fun replayed_ids :: "nat \<Rightarrow> 'w library \<Rightarrow> 'w client \<Rightarrow> string list" where
  "replayed_ids 0 L c = []"
| "replayed_ids (Suc fuel) L c =
     (case outbox_Peek (decode_event L) (cl_outbox c) (cfg_BatchSize (cl_config c)) (cl_fs c) of
        (Inl _, _) \<Rightarrow> []
      | (Inr es, s) \<Rightarrow>
        (case sendBatchInternal L es False (c\<lparr>cl_fs := s\<rparr>) of
           (err, c') \<Rightarrow> answered_ids es err @ (if es = [] \<or> err \<noteq> None then [] else replayed_ids fuel L c')))"

lemma keeps_replay:
  "outboxed name c \<Longrightarrow> sendOutbox fuel L c = Some (err, c') \<Longrightarrow> keeps L name {} (set (replayed_ids fuel L c)) c c'"
proof (induction fuel arbitrary: c)
  case (Suc fuel)
  let ?n = "cfg_BatchSize (cl_config c)"
  have ob: "cl_outbox c = Some name" "calm name (cl_fs c)" using Suc.prems(1) by (simp_all add: outboxed_def)
  obtain es where peek: "outbox_Peek (decode_event L) (Some name) ?n (cl_fs c) = (Inr es, cl_fs c)"
    using outbox_Peek_calm [OF ob(2)] by blast
  obtain x c1 where sb: "sendBatchInternal L es False c = (x, c1)" by (cases "sendBatchInternal L es False c")
  have k: "keeps L name {} (set (answered_ids es x)) c c1" using keeps_batch [OF Suc.prems(1) sb] .
  show ?case
  proof (cases "es = [] \<or> x \<noteq> None")
    case True
    moreover have "x = None \<and> c1 = c" if "es = []" using sb that by (simp add: sendBatchInternal_def)
    ultimately have "c' = c1"
      using Suc.prems(2) peek ob(1) sb by (cases "es = []"; cases x) auto
    with True k peek ob(1) sb show ?thesis by simp
  next
    case False
    then have rest: "sendOutbox fuel L c1 = Some (err, c')"
      using Suc.prems(2) peek ob(1) sb by simp
    have "outboxed name c1" using k by (simp add: keeps_def)
    from keeps_trans [OF k Suc.IH [OF this rest]] False peek ob(1) sb show ?thesis by simp
  qed
qed simp

text \<open>What one call of \<open>SendEventSync\<close> gets answered, and what it persists.\<close>

definition sync_history :: "'w library \<Rightarrow> goctx \<Rightarrow> event \<Rightarrow> 'w client \<Rightarrow> event list \<times> string list" where
  "sync_history L ctx e c =
     (if cl_disabled c \<or> cl_closed c then ([], [])
      else
        (case prepareEvent L (withContextFields ctx e) c of
           ((e, Some err), c) \<Rightarrow> ([], [])
         | ((e, None), c) \<Rightarrow>
           (case fst (sendBatchSync L [e] c) of
              None \<Rightarrow> ([], answered_ids [e] None)
            | Some err \<Rightarrow> (if isRetryable err then [e] else [], answered_ids [e] (Some err)))))"

lemma keeps_sync:
  assumes "outboxed name c" and "SendEventSync L ctx e c = (r, c')" and "sync_history L ctx e c = (es, ids)"
    and "\<forall>e \<in> set es. keepable L e"
  shows "keeps L name (ev_EventID ` set es) (set ids) c c'"
proof -
  obtain e1 x c1 where p: "prepareEvent L (withContextFields ctx e) c = ((e1, x), c1)" by (metis prod.collapse)
  obtain y c2 where b: "sendBatchSync L [e1] c1 = (y, c2)" by (cases "sendBatchSync L [e1] c1")
  have k1: "keeps L name {} {} c c1" using keeps_prepare [OF assms(1) p] .
  then have ob1: "outboxed name c1" by (simp add: keeps_def)
  have k2: "keeps L name {} (set (answered_ids [e1] y)) c c2"
    using keeps_quiet [OF k1 keeps_batch [OF ob1]] b by (simp add: sendBatchSync_def)
  then have ob2: "outboxed name c2" by (simp add: keeps_def)
  consider (off) "cl_disabled c \<or> cl_closed c" | (bad) err where "\<not> (cl_disabled c \<or> cl_closed c)" "x = Some err"
    | (sent) "\<not> (cl_disabled c \<or> cl_closed c)" "x = None" by (cases x) auto
  then show ?thesis
  proof cases
    case off
    with assms(1-3) show ?thesis
      by (auto simp: SendEventSync_def sync_history_def intro!: keeps_shelf split: if_splits)
  next
    case bad
    then have c': "c' = drop_failed e1 err c1" "es = []" "ids = []"
      using assms(2,3) p by (auto simp: SendEventSync_def sync_history_def)
    from keeps_quiet [OF k1 keeps_shelf [OF ob1]] show ?thesis unfolding c' by simp
  next
    case sent
    then have h: "ids = answered_ids [e1] y" "es = (case y of Some err \<Rightarrow> if isRetryable err then [e1] else [] | None \<Rightarrow> [])"
        "c' = (case y of Some err \<Rightarrow> if isRetryable err then persistOutbox [e1] c2 else c2 | None \<Rightarrow> c2)"
      using assms(2,3) p b by (auto simp: SendEventSync_def sync_history_def split: option.splits)
    show ?thesis
    proof (cases "es = []")
      case True
      then have "c' = c2" using h by (auto split: option.splits if_splits)
      with True k2 h(1) show ?thesis by simp
    next
      case False
      then have new: "es = [e1]" "c' = persistOutbox [e1] c2" using h(2,3) by (auto split: option.splits if_splits)
      have "keepable L e1" using assms(4) new(1) by simp
      from keeps_trans [OF k2 keeps_persist [OF ob2 this]] show ?thesis by (simp add: new h(1))
    qed
  qed
qed

section \<open>Runs with their history\<close>

text \<open>Where the goroutine is about to talk to the server.\<close>

fun sends :: "phase \<Rightarrow> bool" where
  "sends (Posting w x es) = True"
| "sends (Replaying w) = True"
| "sends _ = False"

text \<open>
  A reachable state with what was persisted on the way to it and the ids that were answered: the
  steps that send or persist are labelled, the others take their place unchanged.
\<close>

inductive delivery :: "'w library \<Rightarrow> 'w client \<Rightarrow> 'w system \<Rightarrow> event list \<Rightarrow> string list \<Rightarrow> bool" for L c where
  start: "\<not> cl_disabled c \<Longrightarrow> \<not> cl_closed c \<Longrightarrow> q_events (cl_queue c) = [] \<Longrightarrow>
     delivery L c (starting c) [] []"
| posted: "delivery L c s es ids \<Longrightarrow> sy_phase s = Posting w x bs \<Longrightarrow>
     delivery L c (post L w x bs s) es (ids @ answered_ids bs (fst (sendBatch L bs (sy_client s))))"
| replayed: "delivery L c s es ids \<Longrightarrow> sy_phase s = Replaying w \<Longrightarrow>
     sendOutbox fuel L (sy_client s) = Some (err, d) \<Longrightarrow>
     delivery L c (end_round w err (s\<lparr>sy_client := d\<rparr>)) es (ids @ replayed_ids fuel L (sy_client s))"
| looped: "delivery L c s es ids \<Longrightarrow> loop_step L s s' \<Longrightarrow> \<not> sends (sy_phase s) \<Longrightarrow>
     delivery L c s' es ids"
| admitted: "delivery L c s es ids \<Longrightarrow> admit L e (sy_client s) = (Some e', d) \<Longrightarrow>
     delivery L c (s\<lparr>sy_client := d, sy_inflight := e' # sy_inflight s\<rparr>) (es @ [e']) ids"
| refused: "delivery L c s es ids \<Longrightarrow> admit L e (sy_client s) = (None, d) \<Longrightarrow>
     delivery L c (s\<lparr>sy_client := d\<rparr>) es ids"
| sent: "delivery L c s es ids \<Longrightarrow> SendEventSync L ctx e (sy_client s) = (r, d) \<Longrightarrow>
     sync_history L ctx e (sy_client s) = (es', ids') \<Longrightarrow>
     delivery L c (s\<lparr>sy_client := d\<rparr>) (es @ es') (ids @ ids')"
| reached: "delivery L c s es ids \<Longrightarrow> e \<in> set (sy_inflight s) \<Longrightarrow> delivery L c (put e s) es ids"
| called: "delivery L c s es ids \<Longrightarrow>
     s' \<in> {s\<lparr>sy_waiting := i # sy_waiting s\<rparr>, s\<lparr>sy_waiting := remove1 i (sy_waiting s)\<rparr>, close_client s} \<Longrightarrow>
     delivery L c s' es ids"

text \<open>The histories are labels only: the states are the reachable ones.\<close>

lemma delivery_reachable: "delivery L c s es ids \<Longrightarrow> reachable L c s"
proof (induction rule: delivery.induct)
  case (called s es ids s' i)
  then show ?case using reachable.caller caller_step.flush caller_step.expired caller_step.closed by blast
qed (blast intro: reachable.intros loop_step.intros caller_step.intros)+

lemma reachable_delivery: "reachable L c s \<Longrightarrow> \<exists>es ids. delivery L c s es ids"
proof (induction rule: reachable.induct)
  case start
  then show ?case using delivery.start by blast
next
  case (loop s s')
  then obtain es ids where d: "delivery L c s es ids" by blast
  show ?case
  proof (cases "sends (sy_phase s)")
    case False
    with d loop(2) show ?thesis by (blast intro: delivery.looped)
  next
    case True
    with loop(2) d show ?thesis
      by (cases rule: loop_step.cases) (auto intro: delivery.posted delivery.replayed)
  qed
next
  case (caller s s')
  then obtain es ids where d: "delivery L c s es ids" by blast
  from caller(2) show ?case
  proof (cases rule: caller_step.cases)
    case (sent ctx e r d')
    obtain es' ids' where "sync_history L ctx e (sy_client s) = (es', ids')" by (metis prod.collapse)
    with d sent show ?thesis by (blast intro: delivery.sent)
  qed (use d in \<open>blast intro: delivery.intros\<close>)+
qed

lemma quiet_loop:
  assumes "loop_step L s s'" and "\<not> sends (sy_phase s)"
  shows "shelf (sy_client s') = shelf (sy_client s)"
  using assms by (cases rule: loop_step.cases)
    (auto simp: on_notify_def begin_round_def collect_def after_batches_def end_round_def Let_def
      split: cause.split prod.split)

lemma keeps_admit:
  assumes "outboxed name c" and "admit L e c = (r, c')" and "\<forall>e'. r = Some e' \<longrightarrow> keepable L e'"
  shows "keeps L name (case r of None \<Rightarrow> {} | Some e' \<Rightarrow> {ev_EventID e'}) {} c c'"
proof -
  obtain e1 x c1 where p: "prepareEvent L e c = ((e1, x), c1)" by (metis prod.collapse)
  have k1: "keeps L name {} {} c c1" using keeps_prepare [OF assms(1) p] .
  then have ob1: "outboxed name c1" by (simp add: keeps_def)
  consider (off) "cl_disabled c \<or> cl_closed c" | (bad) err where "\<not> (cl_disabled c \<or> cl_closed c)" "x = Some err"
    | (passed) "\<not> (cl_disabled c \<or> cl_closed c)" "x = None" by (cases x) auto
  then show ?thesis
  proof cases
    case off
    with assms(1,2) show ?thesis by (auto simp: admit_def intro!: keeps_shelf split: if_splits)
  next
    case bad
    then have "r = None" "c' = drop_failed e1 err c1" using assms(2) p by (auto simp: admit_def)
    moreover have "keeps L name {} {} c (drop_failed e1 err c1)"
      by (rule keeps_quiet [OF k1 keeps_shelf [OF ob1]]) simp
    ultimately show ?thesis by simp
  next
    case passed
    then have "r = Some e1" "c' = persistOutbox [e1] c1" using assms(2) p by (auto simp: admit_def)
    moreover from this assms(3) have "keeps L name {ev_EventID e1} {} c (persistOutbox [e1] c1)"
      by (intro keeps_quiet [OF k1 keeps_persist [OF ob1]]) simp
    ultimately show ?thesis by simp
  qed
qed

text \<open>In every run, what was persisted is in the file or answered, and what was accepted was persisted.\<close>

definition held_safe :: "'w library \<Rightarrow> string \<Rightarrow> 'w client \<Rightarrow> 'w system \<Rightarrow> event list \<Rightarrow> string list \<Rightarrow> bool" where
  "held_safe L name c s es ids \<longleftrightarrow> outboxed name (sy_client s) \<and>
     stock L name c \<union> ev_EventID ` set es \<subseteq> stock L name (sy_client s) \<union> set ids \<and>
     stock L name (sy_client s) \<subseteq> stock L name c \<union> ev_EventID ` set es \<and>
     set (sy_inflight s @ sy_accepted s) \<subseteq> set es"

lemma held_safe_step:
  assumes "held_safe L name c s es ids" and "keeps L name (ev_EventID ` set es') (set ids') (sy_client s) d"
    and "sy_client s' = d" and "set (sy_inflight s' @ sy_accepted s') \<subseteq> set (es @ es')"
  shows "held_safe L name c s' (es @ es') (ids @ ids')"
  using assms unfolding held_safe_def keeps_def set_append image_Un by blast

lemma held_safe_quiet:
  assumes "held_safe L name c s es ids" and "shelf (sy_client s') = shelf (sy_client s)"
    and "set (sy_inflight s' @ sy_accepted s') \<subseteq> set (sy_inflight s @ sy_accepted s)"
  shows "held_safe L name c s' es ids"
proof -
  have "keeps L name {} {} (sy_client s) (sy_client s')"
    using assms(1,2) by (intro keeps_shelf) (simp_all add: held_safe_def)
  then have "outboxed name (sy_client s')" "stock L name (sy_client s) = stock L name (sy_client s')"
    by (auto simp: keeps_def)
  with assms(1,3) show ?thesis unfolding held_safe_def by blast
qed

lemma put_quiet:
  "shelf (sy_client (put e s)) = shelf (sy_client s)"
  "e \<in> set (sy_inflight s) \<Longrightarrow>
     set (sy_inflight (put e s) @ sy_accepted (put e s)) \<subseteq> set (sy_inflight s @ sy_accepted s)"
proof -
  obtain ok c where p: "push_event e (sy_client s) = (ok, c)" by (cases "push_event e (sy_client s)")
  show "shelf (sy_client (put e s)) = shelf (sy_client s)"
    using p shelf_push [OF p] by (simp add: put_def Let_def)
  show "set (sy_inflight (put e s) @ sy_accepted (put e s)) \<subseteq> set (sy_inflight s @ sy_accepted s)"
    if "e \<in> set (sy_inflight s)"
    using that set_remove1_subset [of e "sy_inflight s"] by (auto simp: put_def Let_def)
qed

lemma loop_accepted:
  "loop_step L s s' \<Longrightarrow> sy_inflight s' = sy_inflight s \<and> sy_accepted s' = sy_accepted s"
  by (erule loop_step.cases)
    (auto simp: on_notify_def begin_round_def collect_def after_batches_def end_round_def post_def Let_def
      split: cause.split prod.split)

lemma delivery_safe:
  assumes "delivery L c s es ids" and "outboxed name c" and "\<forall>e \<in> set es. keepable L e"
  shows "held_safe L name c s es ids"
  using assms
proof (induction rule: delivery.induct)
  case start
  then show ?case by (simp add: held_safe_def starting_def)
next
  case (posted s es ids w x bs)
  then have hs: "held_safe L name c s es ids" by simp
  obtain err d where b: "sendBatch L bs (sy_client s) = (err, d)" by (cases "sendBatch L bs (sy_client s)")
  have "keeps L name {} (set (answered_ids bs err)) (sy_client s) d"
    using hs b by (intro keeps_batch [of _ _ _ _ False]) (simp_all add: held_safe_def sendBatch_def)
  then have "held_safe L name c (post L w x bs s) (es @ []) (ids @ answered_ids bs err)"
    using hs b by (intro held_safe_step [OF hs]) (simp_all add: held_safe_def post_def)
  then show ?case using b by simp
next
  case (replayed s es ids w fuel err d)
  then have hs: "held_safe L name c s es ids" by simp
  then have "keeps L name {} (set (replayed_ids fuel L (sy_client s))) (sy_client s) d"
    using keeps_replay [OF _ replayed(3)] by (simp add: held_safe_def)
  then have "held_safe L name c (end_round w err (s\<lparr>sy_client := d\<rparr>)) (es @ []) (ids @ replayed_ids fuel L (sy_client s))"
    using hs by (intro held_safe_step [OF hs]) (simp_all add: held_safe_def end_round_def split: cause.split)
  then show ?case by simp
next
  case (looped s es ids s')
  then have hs: "held_safe L name c s es ids" by simp
  show ?case
    by (rule held_safe_quiet [OF hs quiet_loop [OF looped(2,3)]]) (simp add: loop_accepted [OF looped(2)])
next
  case (admitted s es ids e e' d)
  then have hs: "held_safe L name c s es ids" by simp
  then have "keeps L name (ev_EventID ` set [e']) (set []) (sy_client s) d"
    using keeps_admit [OF _ admitted(2)] admitted.prems(2) by (simp add: held_safe_def)
  then have "held_safe L name c (s\<lparr>sy_client := d, sy_inflight := e' # sy_inflight s\<rparr>) (es @ [e']) (ids @ [])"
    using hs by (intro held_safe_step [OF hs]) (auto simp: held_safe_def)
  then show ?case by simp
next
  case (refused s es ids e d)
  then have hs: "held_safe L name c s es ids" by simp
  then have "keeps L name (ev_EventID ` set []) (set []) (sy_client s) d"
    using keeps_admit [OF _ refused(2)] by (simp add: held_safe_def)
  then have "held_safe L name c (s\<lparr>sy_client := d\<rparr>) (es @ []) (ids @ [])"
    using hs by (intro held_safe_step [OF hs]) (auto simp: held_safe_def)
  then show ?case by simp
next
  case (sent s es ids ctx e r d es' ids')
  then have hs: "held_safe L name c s es ids" by simp
  then have "keeps L name (ev_EventID ` set es') (set ids') (sy_client s) d"
    using keeps_sync [OF _ sent(2,3)] sent.prems(2) by (simp add: held_safe_def)
  then show ?case using hs by (intro held_safe_step [OF hs]) (auto simp: held_safe_def)
next
  case (reached s es ids e)
  then have hs: "held_safe L name c s es ids" by simp
  show ?case by (rule held_safe_quiet [OF hs put_quiet(1) put_quiet(2) [OF reached(2)]])
next
  case (called s es ids s' i)
  then have hs: "held_safe L name c s es ids" by simp
  show ?case
    by (rule held_safe_quiet [OF hs]) (use called(2) in \<open>auto simp: close_client_def split: if_splits\<close>)
qed

text \<open>
  Without tamper evidence, which adds to an event after the limiter, \<open>MaxEventBytes\<close> below the
  scanner's limit is all that the length of a line needs.
\<close>

definition bare :: "limiter \<Rightarrow> 'w client \<Rightarrow> bool" where
  "bare lm c \<longleftrightarrow> cl_tamper c = None \<and> cl_limiter c = lm"

lemma bare_kept: "kept c' = kept c \<Longrightarrow> bare lm c' \<longleftrightarrow> bare lm c"
  by (simp add: kept_eq bare_def)

lemma bare_small [simp]:
  "bare lm (drop_failed e err c) = bare lm c" "bare lm (persistOutbox es c) = bare lm c"
  "bare lm (eventDropped e why cause c) = bare lm c" "bare lm (add_dropped c) = bare lm c"
  by (rule bare_kept, simp)+

lemma bare_prepare:
  assumes "prepareEvent L e c = ((e', err), c')" and "bare lm c"
  shows "bare lm c'"
    and "err = None \<Longrightarrow> 0 < lm_maxEventBytes lm \<Longrightarrow> lm_maxEventBytes lm < maxLine \<Longrightarrow>
      \<exists>t. json_event e' = Some t \<and> int (length t) < maxLine"
proof -
  obtain d c1 where d: "withDefaults L e c = (d, c1)" by (cases "withDefaults L e c")
  have b1: "bare lm c1" using withDefaults_event [OF d] bare_kept assms(2) by metis
  let ?r = "redactEvent (lib_lower L) (cl_redactor c1) d"
  obtain l x where l: "limitEvent (cl_limiter c1) ?r = (l, x)" by (cases "limitEvent (cl_limiter c1) ?r")
  have "kept (note_truncation ?r l c1) = kept c1" by (simp add: note_truncation_def eventTruncated_def)
  then have "bare lm (note_truncation ?r l c1)" using bare_kept b1 by blast
  then show "bare lm c'"
    using assms(1) d l b1
    by (cases x)
      (auto simp: prepareEvent_def applyTamperEvidence_def Apply_def bare_def Let_def split: prod.splits option.splits)
  show "\<exists>t. json_event e' = Some t \<and> int (length t) < maxLine"
    if "err = None" "0 < lm_maxEventBytes lm" "lm_maxEventBytes lm < maxLine"
  proof -
    have "prepareEvent L e c = ((e', None), c')" using assms(1) that(1) by simp
    then obtain d c2 c3 where lim: "limitEvent (cl_limiter c) (redactEvent (lib_lower L) (cl_redactor c) d) =
        (limit_fields_of (cl_limiter c) (redactEvent (lib_lower L) (cl_redactor c) d), None)"
      and ta: "cl_tamper c2 = cl_tamper c" "applyTamperEvidence L
        (limit_fields_of (cl_limiter c) (redactEvent (lib_lower L) (cl_redactor c) d)) c2 = ((e', None), c3)"
      using prepareEvent_stages [of L e c e' None c'] by metis
    have "cl_tamper c2 = None" "cl_limiter c = lm" using ta(1) assms(2) by (simp_all add: bare_def)
    with ta(2) limitEvent_ok [of lm] lim that(2,3) show ?thesis
      by (fastforce simp: applyTamperEvidence_def Apply_def)
  qed
qed

lemma bare_push: "push_event e c = (ok, c') \<Longrightarrow> bare lm c \<Longrightarrow> bare lm c'"
proof -
  assume p: "push_event e c = (ok, c')" and "bare lm c"
  moreover have "cl_limiter c' = cl_limiter c" using settings_push_event [OF p] by (simp add: settings_def)
  moreover have "cl_tamper c' = cl_tamper c" using shelf_push [OF p] by (simp add: shelf_def)
  ultimately show "bare lm c'" by (simp add: bare_def)
qed

definition fits :: "event list \<Rightarrow> bool" where
  "fits es \<longleftrightarrow> (\<forall>e \<in> set es. \<exists>t. json_event e = Some t \<and> int (length t) < maxLine)"

lemma bare_admit:
  assumes "admit L e c = (r, d)" and "bare lm c" and "0 < lm_maxEventBytes lm" "lm_maxEventBytes lm < maxLine"
  shows "bare lm d \<and> (\<forall>e'. r = Some e' \<longrightarrow> fits [e'])"
proof -
  obtain e1 x c1 where p: "prepareEvent L e c = ((e1, x), c1)" by (metis prod.collapse)
  from bare_prepare(1) [OF p assms(2)] bare_prepare(2) [OF p assms(2) _ assms(3,4)] assms(1,2) p
  show ?thesis by (cases x) (auto simp: admit_def fits_def split: if_splits)
qed

lemma bare_sync:
  assumes "SendEventSync L ctx e c = (r, d)" and "sync_history L ctx e c = (es, ids)" and "bare lm c"
    and "0 < lm_maxEventBytes lm" "lm_maxEventBytes lm < maxLine"
  shows "bare lm d \<and> fits es"
proof -
  obtain e1 x c1 where p: "prepareEvent L (withContextFields ctx e) c = ((e1, x), c1)" by (metis prod.collapse)
  obtain y c2 where b: "sendBatchSync L [e1] c1 = (y, c2)" by (cases "sendBatchSync L [e1] c1")
  note p1 = bare_prepare(1) [OF p assms(3)] bare_prepare(2) [OF p assms(3) _ assms(4,5)]
  have "sendBatchInternal L [e1] True c1 = (y, c2)" using b by (simp add: sendBatchSync_def)
  then have "bare lm c2" using bare_kept [OF kept_sendBatchInternal] p1(1) by blast
  with p1 assms(1-3) p b show ?thesis
    by (cases x; cases y) (auto simp: SendEventSync_def sync_history_def fits_def split: if_splits)
qed

lemma delivery_fits:
  assumes "delivery L c s es ids" and "bare lm c" and "0 < lm_maxEventBytes lm" "lm_maxEventBytes lm < maxLine"
  shows "bare lm (sy_client s) \<and> fits es"
  using assms
proof (induction rule: delivery.induct)
  case (posted s es ids w x bs)
  obtain err d where b: "sendBatch L bs (sy_client s) = (err, d)" by (cases "sendBatch L bs (sy_client s)")
  with posted bare_kept [OF kept_sendBatch [OF b]] show ?case by (simp add: post_def)
next
  case (replayed s es ids w fuel err d)
  then show ?case using bare_kept [OF kept_sendOutbox [OF replayed(3)]] by (auto simp: end_round_def split: cause.split)
next
  case (looped s es ids s')
  have "bare lm (sy_client s') = bare lm (sy_client s)"
    using looped(2,3) by (cases rule: loop_step.cases)
      (auto simp: bare_def on_notify_def begin_round_def collect_def after_batches_def end_round_def Let_def
        split: cause.split prod.split)
  with looped show ?case by simp
next
  case (admitted s es ids e e' d)
  then show ?case using bare_admit [OF admitted(2)] by (auto simp: fits_def)
next
  case (refused s es ids e d)
  then show ?case using bare_admit [OF refused(2)] by auto
next
  case (sent s es ids ctx e r d es' ids')
  then show ?case using bare_sync [OF sent(2,3)] by (auto simp: fits_def)
next
  case (reached s es ids e)
  obtain ok d where p: "push_event e (sy_client s) = (ok, d)" by (cases "push_event e (sy_client s)")
  with reached bare_push [OF p] show ?case by (auto simp: put_def Let_def)
qed (auto simp: fits_def starting_def bare_def close_client_def)

text \<open>
  C5: no accepted event is lost.  With an outbox on a working file system, in any interleaving of
  producers, goroutine, flushes and close, failed batches, displaced events and the race at a close
  included: every event that \<open>enqueue\<close> accepted is either still in the outbox file, under its id, or
  a server has answered a batch with that id.
\<close>
theorem accepted_stored_or_answered:
  assumes "delivery L c s es ids" and "outboxed name c" and "\<forall>e \<in> set es. restorable e"
  shows "\<forall>e \<in> set (sy_accepted s). ev_EventID e \<in> stock L name (sy_client s) \<union> set ids"
proof -
  have "\<forall>e \<in> set es. keepable L e" using assms(3) restorable_keepable by blast
  from delivery_safe [OF assms(1,2) this] show ?thesis unfolding held_safe_def set_append by blast
qed

section \<open>A replay without an error\<close>

lemma replay_empties:
  "outboxed name c \<Longrightarrow> sendOutbox fuel L c = Some (None, c') \<Longrightarrow> stock L name c' = {}"
proof (induction fuel arbitrary: c)
  case (Suc fuel)
  let ?n = "cfg_BatchSize (cl_config c)"
  let ?log = "log_events (decode_event L) name (cl_fs c)"
  have ob: "cl_outbox c = Some name" "calm name (cl_fs c)" using Suc.prems(1) by (simp_all add: outboxed_def)
  define es where "es = (if ?n \<le> 0 then ?log else take (nat ?n) ?log)"
  have peek: "outbox_Peek (decode_event L) (Some name) ?n (cl_fs c) = (Inr es, cl_fs c)"
    using outbox_Peek_calm [OF ob(2)] by (simp add: es_def)
  show ?case
  proof (cases "es = []")
    case True
    then have "c' = c" "?log = []" using Suc.prems(2) peek ob(1) by (auto simp: es_def split: if_splits)
    then show ?thesis by (simp add: stock_def)
  next
    case False
    obtain x c1 where sb: "sendBatchInternal L es False c = (x, c1)" by (cases "sendBatchInternal L es False c")
    have "x = None" "sendOutbox fuel L c1 = Some (None, c')"
      using Suc.prems(2) peek ob(1) sb False by (auto split: option.splits)
    moreover have "outboxed name c1" using keeps_batch [OF Suc.prems(1) sb] by (simp add: keeps_def)
    ultimately show ?thesis using Suc.IH by blast
  qed
qed simp


section \<open>Calls that wait come back\<close>

text \<open>Replaying preserves what it needs: a working file, and an id on every stored event.\<close>

definition named_stock :: "'w library \<Rightarrow> string \<Rightarrow> 'w client \<Rightarrow> bool" where
  "named_stock L name c \<longleftrightarrow> outboxed name c \<and> [] \<notin> stock L name c"

lemma named_keeps: "keeps L name {} gone c c' \<Longrightarrow> named_stock L name c \<Longrightarrow> named_stock L name c'"
  by (auto simp: keeps_def named_stock_def)

lemma named_shelf: "shelf c' = shelf c \<Longrightarrow> named_stock L name c \<Longrightarrow> named_stock L name c'"
  using named_keeps keeps_shelf named_stock_def by metis

interpretation stored: replayable L "named_stock L name" for L :: "'w library" and name
proof
  fix c d :: "'w client" and es err fuel b q
  assume c: "named_stock L name c"
  then have ob: "outboxed name c" by (simp add: named_stock_def)
  show "named_stock L name (c\<lparr>cl_notify := b\<rparr>)" "named_stock L name (c\<lparr>cl_queue := q\<rparr>)"
    using named_shelf [OF _ c] by simp_all
  show "sendBatch L es c = (err, d) \<Longrightarrow> named_stock L name d"
    using named_keeps [OF keeps_batch [OF ob] c] by (simp add: sendBatch_def)
  show "sendOutbox fuel L c = Some (err, d) \<Longrightarrow> named_stock L name d"
    using named_keeps [OF keeps_replay [OF ob] c] .
  have "\<forall>e \<in> set (log_events (decode_event L) name (cl_fs c)). ev_EventID e \<noteq> []"
    using c unfolding named_stock_def stock_def by force
  then show "\<exists>fuel err d. sendOutbox fuel L c = Some (err, d)"
    using sendOutbox_terminates [of c name L] ob unfolding outboxed_def by blast
qed

lemma prepared_id: "prepareEvent L e c = ((e', None), c') \<Longrightarrow> ev_EventID e' \<noteq> []"
  using prepare_ok_formed [of L e c e' c'] by (auto simp: well_formed_event_def blank_def)

lemma delivery_named: "delivery L c s es ids \<Longrightarrow> \<forall>e \<in> set es. ev_EventID e \<noteq> []"
proof (induction rule: delivery.induct)
  case (admitted s es ids e e' d)
  then show ?case by (auto simp: admit_def dest!: prepared_id split: if_splits prod.splits option.splits)
next
  case (sent s es ids ctx e r d es' ids')
  have "\<forall>e \<in> set es'. ev_EventID e \<noteq> []"
    using sent(3) by (auto simp: sync_history_def dest!: prepared_id split: if_splits prod.splits option.splits)
  with sent show ?case by auto
qed simp_all

text \<open>
  C39: calls that wait come back.  Provided that the outbox is on a working file system, that every
  event in the file at the start has an id, and that the events persisted since can be read back
  (\<open>restorable\<close>): whatever the server answers, in every reachable state the goroutine alone can run
  on until a waiting \<open>Flush\<close> has its answer, or the goroutine has ended, and after \<open>Close\<close> was called
  it can run to its end, so that \<open>Close\<close> returns nil; replaying the outbox does not stand in the way.
  With a stored event that has no id it can (\<open>sendOutbox_diverges\<close>).
\<close>
theorem calls_can_return:
  assumes "delivery L c s es ids" and "outboxed name c" and "\<forall>e \<in> set es. restorable e"
    and "[] \<notin> stock L name c"
  shows "(sy_closing s \<longrightarrow> (\<exists>s'. (loop_step L)\<^sup>*\<^sup>* s s' \<and> close_returns s' None)) \<and>
    (\<forall>i \<in> set (sy_waiting s). \<exists>s' r. (loop_step L)\<^sup>*\<^sup>* s s' \<and> flush_returns s' i r \<and>
       (sy_phase s' = Finished \<or> i \<in> fa_caller ` set (sy_answers s')))"
proof -
  have "\<forall>e \<in> set es. keepable L e" using assms(3) restorable_keepable by blast
  from delivery_safe [OF assms(1,2) this]
  have "outboxed name (sy_client s)" and "stock L name (sy_client s) \<subseteq> stock L name c \<union> ev_EventID ` set es"
    by (simp_all add: held_safe_def)
  moreover have "[] \<notin> ev_EventID ` set es" using delivery_named [OF assms(1)] by force
  ultimately have "named_stock L name (sy_client s)" using assms(4) unfolding named_stock_def by blast
  then show ?thesis using stored.close_ends stored.flush_ends by blast
qed

end
