(* ===== verification/Recorders.thy ===== *)
theory Recorders
  imports Sdk_Client
begin

text \<open>
  \<open>logcenter/logging.go\<close>, \<open>request.go\<close>, \<open>span.go\<close> and \<open>operation.go\<close>: the calls that build
  events from a request context and hand them to \<open>enqueue\<close>.  An instant is a number of
  nanoseconds since Go's zero time, so \<open>IsZero\<close> is comparison with 0.  Each event literal of the
  code is a definition of its own.  A call that panics on a nil context is None; the mutexes of
  \<open>Request\<close>, \<open>Span\<close> and \<open>Operation\<close> make each of their methods one step.  \<open>err\<close> is None for a nil
  error.
\<close>

section \<open>Time\<close>

type_synonym instant = int

definition zero_time :: instant where
  "zero_time = 0"

text \<open>\<open>Time.Sub\<close> saturates; \<open>Duration.Milliseconds\<close> rounds towards zero.\<close>

definition time_sub :: "instant \<Rightarrow> instant \<Rightarrow> int" where
  "time_sub t u = max (- (2 ^ 63)) (min (2 ^ 63 - 1) (t - u))"

definition milliseconds :: "int \<Rightarrow> int" where
  "milliseconds d = (if d < 0 then - (- d div 1000000) else d div 1000000)"

definition duration_ms :: "instant \<Rightarrow> instant \<Rightarrow> int" where
  "duration_ms started finished =
     (let d = milliseconds (time_sub finished started) in if d < 0 then 0 else d)"

definition instant_or_now :: "'w library \<Rightarrow> instant \<Rightarrow> 'w client \<Rightarrow> instant \<times> 'w client" where
  "instant_or_now L t c = (if t = zero_time then time_now L c else (t, c))"

section \<open>Contexts\<close>

text \<open>\<open>if ctx == nil { ctx = context.Background() }\<close>, and the context's request after that.\<close>

definition ctx_or_background :: "goctx \<Rightarrow> goctx" where
  "ctx_or_background ctx = (if ctx = NilCtx then Background else ctx)"

definition request_of :: "goctx \<Rightarrow> request_context" where
  "request_of ctx = (case RequestFromContext (ctx_or_background ctx) of
     None \<Rightarrow> no_request | Some (r, _) \<Rightarrow> r)"

definition new_unless :: "'w library \<Rightarrow> string \<Rightarrow> string \<Rightarrow> 'w client \<Rightarrow> string \<times> 'w client" where
  "new_unless L pre v c = (if v = [] then newID L pre c else (v, c))"

definition ensure_request ::
  "'w library \<Rightarrow> goctx \<Rightarrow> 'w client \<Rightarrow> ((goctx \<times> request_context) \<times> 'w client) option" where
  "ensure_request L ctx c =
     (case RequestFromContext ctx of
        None \<Rightarrow> None
      | Some (r, _) \<Rightarrow>
        (case new_unless L ''req_'' (rc_RequestID r) c of (req, c) \<Rightarrow>
        (case new_unless L ''trc_'' (rc_TraceID r) c of (trc, c) \<Rightarrow>
          map_option (\<lambda>r. (r, c)) (ensureRequestContext req trc ctx))))"

section \<open>Logs, errors and audits\<close>

record error_options =
  eo_IdempotencyKey :: string
  eo_Classification :: string
  eo_RetentionHint :: string
  eo_Code :: string
  eo_Type :: string
  eo_Severity :: string
  eo_Fingerprint :: string
  eo_StackTrace :: string
  eo_Message :: string
  eo_Metadata :: fields
  eo_Data :: fields

definition no_error_options :: error_options where
  "no_error_options = \<lparr>eo_IdempotencyKey = [], eo_Classification = [], eo_RetentionHint = [],
     eo_Code = [], eo_Type = [], eo_Severity = [], eo_Fingerprint = [], eo_StackTrace = [],
     eo_Message = [], eo_Metadata = None, eo_Data = None\<rparr>"

record audit_event =
  au_IdempotencyKey :: string
  au_Classification :: string
  au_RetentionHint :: string
  au_ActorType :: string
  au_ActorID :: string
  au_TenantID :: string
  au_Operation :: string
  au_Action :: string
  au_EntityType :: string
  au_EntityID :: string
  au_FieldName :: string
  au_OldValue :: gval
  au_NewValue :: gval
  au_Changes :: "change list option"
  au_Reason :: string
  au_Metadata :: fields
  au_Data :: fields

definition log_event_of :: "request_context \<Rightarrow> string \<Rightarrow> string \<Rightarrow> fields \<Rightarrow> event" where
  "log_event_of r level message fs = empty_event\<lparr>
     ev_EventType := EventTypeLogEvent,
     ev_RequestID := rc_RequestID r,
     ev_TraceID := rc_TraceID r,
     ev_SpanID := rc_SpanID r,
     ev_UserID := rc_UserID r,
     ev_TenantID := rc_TenantID r,
     ev_Operation := rc_Operation r,
     ev_Level := level,
     ev_Message := message,
     ev_Metadata := fs\<rparr>"

definition log_at ::
  "'w library \<Rightarrow> goctx \<Rightarrow> string \<Rightarrow> string \<Rightarrow> fields \<Rightarrow> 'w client \<Rightarrow> (bool \<times> 'w client) option" where
  "log_at L ctx level message fs c =
     map_option (\<lambda>(r, _). enqueue L (log_event_of r level message fs) c) (RequestFromContext ctx)"

definition log_Debug where "log_Debug L ctx message fs c = log_at L ctx LevelDebug message fs c"
definition log_Info where "log_Info L ctx message fs c = log_at L ctx LevelInfo message fs c"
definition log_Warn where "log_Warn L ctx message fs c = log_at L ctx LevelWarn message fs c"
definition log_ErrorLog where "log_ErrorLog L ctx message fs c = log_at L ctx LevelError message fs c"
definition log_Fatal where "log_Fatal L ctx message fs c = log_at L ctx LevelFatal message fs c"
definition log_Log where "log_Log L ctx level message fs c = log_at L ctx level message fs c"

definition error_event_of :: "request_context \<Rightarrow> go_error option \<Rightarrow> error_options \<Rightarrow> event" where
  "error_event_of r err options =
     (let message = (case err of None \<Rightarrow> eo_Message options | Some e \<Rightarrow> error_text e)
      in empty_event\<lparr>
        ev_IdempotencyKey := eo_IdempotencyKey options,
        ev_EventType := EventTypeErrorEvent,
        ev_Classification := eo_Classification options,
        ev_RetentionHint := eo_RetentionHint options,
        ev_RequestID := rc_RequestID r,
        ev_TraceID := rc_TraceID r,
        ev_SpanID := rc_SpanID r,
        ev_UserID := rc_UserID r,
        ev_TenantID := rc_TenantID r,
        ev_Operation := rc_Operation r,
        ev_Severity := or_else (eo_Severity options) SeverityError,
        ev_ErrorType := eo_Type options,
        ev_ErrorCode := eo_Code options,
        ev_ErrorMessage := message,
        ev_Fingerprint := eo_Fingerprint options,
        ev_StackTrace := eo_StackTrace options,
        ev_Metadata := eo_Metadata options,
        ev_Data := eo_Data options\<rparr>)"

definition RecordError ::
  "'w library \<Rightarrow> goctx \<Rightarrow> go_error option \<Rightarrow> error_options \<Rightarrow> 'w client \<Rightarrow> (bool \<times> 'w client) option" where
  "RecordError L ctx err options c =
     map_option (\<lambda>(r, _). enqueue L (error_event_of r err options) c) (RequestFromContext ctx)"

definition client_Error where
  "client_Error L ctx err options c = RecordError L ctx err options c"

text \<open>A non-empty list of changes is stored, an empty or nil one leaves a nil interface.\<close>

definition auditEventToEvent :: "request_context \<Rightarrow> audit_event \<Rightarrow> event" where
  "auditEventToEvent r a = empty_event\<lparr>
     ev_IdempotencyKey := au_IdempotencyKey a,
     ev_EventType := EventTypeAuditEvent,
     ev_Classification := au_Classification a,
     ev_RetentionHint := au_RetentionHint a,
     ev_RequestID := rc_RequestID r,
     ev_TraceID := rc_TraceID r,
     ev_ActorType := au_ActorType a,
     ev_ActorID := au_ActorID a,
     ev_TenantID := or_else (au_TenantID a) (rc_TenantID r),
     ev_Operation := or_else (au_Operation a) (rc_Operation r),
     ev_Action := au_Action a,
     ev_EntityType := au_EntityType a,
     ev_EntityID := au_EntityID a,
     ev_FieldName := au_FieldName a,
     ev_OldValue := au_OldValue a,
     ev_NewValue := au_NewValue a,
     ev_Changes := (if entries_of (au_Changes a) \<noteq> [] then GChanges (au_Changes a) else GNil),
     ev_Reason := au_Reason a,
     ev_Metadata := au_Metadata a,
     ev_Data := au_Data a\<rparr>"

definition Audit ::
  "'w library \<Rightarrow> goctx \<Rightarrow> audit_event \<Rightarrow> 'w client \<Rightarrow> (bool \<times> 'w client) option" where
  "Audit L ctx a c = map_option (\<lambda>(r, _). enqueue L (auditEventToEvent r a) c) (RequestFromContext ctx)"

definition AuditSync ::
  "'w library \<Rightarrow> goctx \<Rightarrow> audit_event \<Rightarrow> 'w client \<Rightarrow> go_error option \<times> 'w client" where
  "AuditSync L ctx a c = SendEventSync L (ctx_or_background ctx) (auditEventToEvent (request_of ctx) a) c"

section \<open>Requests\<close>

record request_start =
  rs_RequestID :: string
  rs_TraceID :: string
  rs_SpanID :: string
  rs_UserID :: string
  rs_TenantID :: string
  rs_Operation :: string
  rs_Method :: string
  rs_Path :: string
  rs_RouteTemplate :: string
  rs_StartedAt :: instant
  rs_Metadata :: fields
  rs_Data :: fields

record request_end =
  re_Status :: string
  re_HTTPStatus :: "int option"
  re_FinishedAt :: instant
  re_Metadata :: fields
  re_Data :: fields

record sdk_request =
  rq_context :: request_context
  rq_method :: string
  rq_path :: string
  rq_routeTemplate :: string
  rq_startedAt :: instant
  rq_ended :: bool

definition request_context_of :: "request_start \<Rightarrow> request_context \<Rightarrow> request_context" where
  "request_context_of opts current = \<lparr>
     rc_RequestID = firstNonEmpty [rs_RequestID opts, rc_RequestID current],
     rc_TraceID = firstNonEmpty [rs_TraceID opts, rc_TraceID current],
     rc_SpanID = firstNonEmpty [rs_SpanID opts, rc_SpanID current],
     rc_Operation =
       (let operation = firstNonEmpty [rs_Operation opts, rc_Operation current];
            operation = (if operation = [] \<and> (rs_Method opts \<noteq> [] \<or> rs_Path opts \<noteq> [])
                         then rs_Method opts @ '' '' @ rs_Path opts else operation)
        in if operation = [] then ''request'' else operation),
     rc_UserID = firstNonEmpty [rs_UserID opts, rc_UserID current],
     rc_TenantID = firstNonEmpty [rs_TenantID opts, rc_TenantID current]\<rparr>"

definition request_started_event ::
  "request_start \<Rightarrow> sdk_request \<Rightarrow> event" where
  "request_started_event opts r = empty_event\<lparr>
     ev_EventType := EventTypeRequestStarted,
     ev_RequestID := rc_RequestID (rq_context r),
     ev_TraceID := rc_TraceID (rq_context r),
     ev_SpanID := rc_SpanID (rq_context r),
     ev_UserID := rc_UserID (rq_context r),
     ev_TenantID := rc_TenantID (rq_context r),
     ev_Operation := rc_Operation (rq_context r),
     ev_Method := rs_Method opts,
     ev_Path := rs_Path opts,
     ev_RouteTemplate := rq_routeTemplate r,
     ev_StartedAt := formatTime (rq_startedAt r),
     ev_Metadata := rs_Metadata opts,
     ev_Data := rs_Data opts\<rparr>"

definition StartRequest ::
  "'w library \<Rightarrow> goctx \<Rightarrow> request_start \<Rightarrow> 'w client \<Rightarrow> (goctx \<times> sdk_request) \<times> 'w client" where
  "StartRequest L ctx opts c =
     (let rc = request_context_of opts (request_of ctx)
      in case new_unless L ''req_'' (rc_RequestID rc) c of (req, c) \<Rightarrow>
        (case new_unless L ''trc_'' (rc_TraceID rc) c of (trc, c) \<Rightarrow>
        (case instant_or_now L (rs_StartedAt opts) c of (startedAt, c) \<Rightarrow>
          (let rc = rc\<lparr>rc_RequestID := req, rc_TraceID := trc\<rparr>;
               r = \<lparr>rq_context = rc, rq_method = rs_Method opts, rq_path = rs_Path opts,
                    rq_routeTemplate = or_else (rs_RouteTemplate opts) (rs_Path opts),
                    rq_startedAt = startedAt, rq_ended = False\<rparr>
           in ((Ctx (Some rc), r), snd (enqueue L (request_started_event opts r) c))))))"

definition request_finished_event ::
  "request_end \<Rightarrow> request_context \<Rightarrow> sdk_request \<Rightarrow> instant \<Rightarrow> event" where
  "request_finished_event opts rc r finishedAt = empty_event\<lparr>
     ev_EventType := EventTypeRequestFinished,
     ev_RequestID := rc_RequestID rc,
     ev_TraceID := rc_TraceID rc,
     ev_SpanID := rc_SpanID rc,
     ev_UserID := rc_UserID rc,
     ev_TenantID := rc_TenantID rc,
     ev_Operation := rc_Operation rc,
     ev_Status := or_else (re_Status opts) StatusSuccess,
     ev_Method := rq_method r,
     ev_Path := rq_path r,
     ev_RouteTemplate := rq_routeTemplate r,
     ev_HTTPStatus := re_HTTPStatus opts,
     ev_DurationMS := Some (duration_ms (rq_startedAt r) finishedAt),
     ev_FinishedAt := formatTime finishedAt,
     ev_Metadata := re_Metadata opts,
     ev_Data := re_Data opts\<rparr>"

definition Request_EndWithContext ::
  "'w library \<Rightarrow> goctx \<Rightarrow> request_end \<Rightarrow> sdk_request \<Rightarrow> 'w client \<Rightarrow> bool \<times> sdk_request \<times> 'w client" where
  "Request_EndWithContext L ctx opts r c =
     (if rq_ended r then (False, r, c)
      else
        (case instant_or_now L (re_FinishedAt opts) c of (finishedAt, c) \<Rightarrow>
          (let rc = mergeRequestContext (rq_context r) ctx
           in case enqueue L (request_finished_event opts rc r finishedAt) c of
                (ok, c) \<Rightarrow> (ok, r\<lparr>rq_ended := True\<rparr>, c))))"

definition Request_End where
  "Request_End L opts r c = Request_EndWithContext L Background opts r c"

section \<open>Operations\<close>

record operation_start =
  os_RequestID :: string
  os_TraceID :: string
  os_SpanID :: string
  os_UserID :: string
  os_TenantID :: string
  os_Kind :: string
  os_StartedAt :: instant
  os_Metadata :: fields
  os_Data :: fields

definition no_operation_start :: operation_start where
  "no_operation_start = \<lparr>os_RequestID = [], os_TraceID = [], os_SpanID = [], os_UserID = [],
     os_TenantID = [], os_Kind = [], os_StartedAt = zero_time, os_Metadata = None, os_Data = None\<rparr>"

record operation_end =
  oe_Status :: string
  oe_FinishedAt :: instant
  oe_Metadata :: fields
  oe_Data :: fields

definition no_operation_end :: operation_end where
  "no_operation_end = \<lparr>oe_Status = [], oe_FinishedAt = zero_time, oe_Metadata = None, oe_Data = None\<rparr>"

record operation_event =
  op_IdempotencyKey :: string
  op_Classification :: string
  op_RetentionHint :: string
  op_Action :: string
  op_EntityType :: string
  op_EntityID :: string
  op_Description :: string
  op_Status :: string
  op_Level :: string
  op_Kind :: string
  op_Metadata :: fields
  op_Data :: fields

record operation =
  on_request :: request_context
  on_name :: string
  on_kind :: string
  on_startedAt :: instant
  on_ended :: bool

text \<open>A variadic argument is a list; only its first element counts.\<close>

definition first_or :: "'a \<Rightarrow> 'a list \<Rightarrow> 'a" where
  "first_or d xs = (case xs of [] \<Rightarrow> d | x # _ \<Rightarrow> x)"

definition operation_context_of ::
  "operation_start \<Rightarrow> string \<Rightarrow> request_context \<Rightarrow> request_context" where
  "operation_context_of opts name r = \<lparr>
     rc_RequestID = firstNonEmpty [os_RequestID opts, rc_RequestID r],
     rc_TraceID = firstNonEmpty [os_TraceID opts, rc_TraceID r],
     rc_SpanID = firstNonEmpty [os_SpanID opts, rc_SpanID r],
     rc_Operation = firstNonEmpty [trim_space name, trim_space (rc_Operation r), ''operation''],
     rc_UserID = firstNonEmpty [os_UserID opts, rc_UserID r],
     rc_TenantID = firstNonEmpty [os_TenantID opts, rc_TenantID r]\<rparr>"

definition operation_started_event :: "operation_start \<Rightarrow> operation \<Rightarrow> event" where
  "operation_started_event opts p = empty_event\<lparr>
     ev_EventType := EventTypeRequestStarted,
     ev_RequestID := rc_RequestID (on_request p),
     ev_TraceID := rc_TraceID (on_request p),
     ev_SpanID := rc_SpanID (on_request p),
     ev_UserID := rc_UserID (on_request p),
     ev_TenantID := rc_TenantID (on_request p),
     ev_Operation := rc_Operation (on_request p),
     ev_Kind := on_kind p,
     ev_Method := on_kind p,
     ev_Path := on_name p,
     ev_RouteTemplate := on_name p,
     ev_StartedAt := formatTime (on_startedAt p),
     ev_Metadata := os_Metadata opts,
     ev_Data := os_Data opts\<rparr>"

definition StartOperation ::
  "'w library \<Rightarrow> goctx \<Rightarrow> string \<Rightarrow> operation_start list \<Rightarrow> 'w client \<Rightarrow>
   ((goctx \<times> operation) \<times> 'w client) option" where
  "StartOperation L ctx name options c =
     (let opts = first_or no_operation_start options
      in case ensure_request L (ctx_or_background ctx) c of
           None \<Rightarrow> None
         | Some ((ctx, r), c) \<Rightarrow>
           (let r = operation_context_of opts name r
            in case instant_or_now L (os_StartedAt opts) c of (startedAt, c) \<Rightarrow>
              (let p = \<lparr>on_request = r, on_name = rc_Operation r,
                     on_kind = or_else (trim_space (os_Kind opts)) ''operation'',
                     on_startedAt = startedAt, on_ended = False\<rparr>
               in map_option (\<lambda>ctx. ((ctx, p), snd (enqueue L (operation_started_event opts p) c)))
                    (ContextWithRequest ctx r))))"

definition operation_finished_event ::
  "operation_end \<Rightarrow> request_context \<Rightarrow> operation \<Rightarrow> instant \<Rightarrow> event" where
  "operation_finished_event opts rc p finishedAt = empty_event\<lparr>
     ev_EventType := EventTypeRequestFinished,
     ev_RequestID := rc_RequestID rc,
     ev_TraceID := rc_TraceID rc,
     ev_SpanID := rc_SpanID rc,
     ev_UserID := rc_UserID rc,
     ev_TenantID := rc_TenantID rc,
     ev_Operation := rc_Operation rc,
     ev_Kind := on_kind p,
     ev_Status := or_else (oe_Status opts) StatusSuccess,
     ev_Method := on_kind p,
     ev_Path := on_name p,
     ev_RouteTemplate := on_name p,
     ev_FinishedAt := formatTime finishedAt,
     ev_DurationMS := Some (duration_ms (on_startedAt p) finishedAt),
     ev_Metadata := oe_Metadata opts,
     ev_Data := oe_Data opts\<rparr>"

definition Operation_EndWithContext ::
  "'w library \<Rightarrow> goctx \<Rightarrow> operation_end list \<Rightarrow> operation \<Rightarrow> 'w client \<Rightarrow> bool \<times> operation \<times> 'w client" where
  "Operation_EndWithContext L ctx options p c =
     (let opts = first_or no_operation_end options
      in if on_ended p then (False, p, c)
         else
           (let rc = mergeRequestContext (on_request p) ctx
            in case instant_or_now L (oe_FinishedAt opts) c of (finishedAt, c) \<Rightarrow>
              (case enqueue L (operation_finished_event opts rc p finishedAt) c of
                 (ok, c) \<Rightarrow> (ok, p\<lparr>on_ended := True\<rparr>, c))))"

definition Operation_End where
  "Operation_End L options p c = Operation_EndWithContext L Background options p c"

definition operationEventToLogEvent :: "request_context \<Rightarrow> operation_event \<Rightarrow> event" where
  "operationEventToLogEvent r ev = empty_event\<lparr>
     ev_IdempotencyKey := op_IdempotencyKey ev,
     ev_EventType := EventTypeLogEvent,
     ev_Classification := op_Classification ev,
     ev_RetentionHint := op_RetentionHint ev,
     ev_RequestID := rc_RequestID r,
     ev_TraceID := rc_TraceID r,
     ev_SpanID := rc_SpanID r,
     ev_UserID := rc_UserID r,
     ev_TenantID := rc_TenantID r,
     ev_Operation := rc_Operation r,
     ev_Kind := or_else (trim_space (op_Kind ev)) ''operation_event'',
     ev_Level := or_else (op_Level ev) LevelInfo,
     ev_Message := firstNonEmpty [trim_space (op_Description ev), trim_space (op_Action ev), ''operation event''],
     ev_Status := op_Status ev,
     ev_Action := op_Action ev,
     ev_EntityType := op_EntityType ev,
     ev_EntityID := op_EntityID ev,
     ev_Metadata := op_Metadata ev,
     ev_Data := op_Data ev\<rparr>"

text \<open>The mutex is not taken for events, so an operation records them after its end too.\<close>

definition Operation_EventWithContext ::
  "'w library \<Rightarrow> goctx \<Rightarrow> operation_event \<Rightarrow> operation \<Rightarrow> 'w client \<Rightarrow> bool \<times> 'w client" where
  "Operation_EventWithContext L ctx ev p c =
     enqueue L (operationEventToLogEvent (mergeRequestContext (on_request p) ctx) ev) c"

definition Operation_Event where
  "Operation_Event L ev p c = Operation_EventWithContext L Background ev p c"

definition Operation_Step where
  "Operation_Step L ev p c = Operation_Event L ev p c"

definition Operation_StepWithContext where
  "Operation_StepWithContext L ctx ev p c = Operation_EventWithContext L ctx ev p c"

definition client_OperationEvent :: "'w library \<Rightarrow> goctx \<Rightarrow> operation_event \<Rightarrow> 'w client \<Rightarrow> bool \<times> 'w client" where
  "client_OperationEvent L ctx ev c = enqueue L (operationEventToLogEvent (request_of ctx) ev) c"

section \<open>Spans\<close>

record span =
  sp_request :: request_context
  sp_name :: string
  sp_kind :: string
  sp_spanID :: string
  sp_parentSpanID :: string
  sp_startedAt :: instant
  sp_metadata :: fields
  sp_data :: fields
  sp_errorCode :: string
  sp_errorMessage :: string
  sp_ended :: bool

type_synonym span_option = "span \<Rightarrow> span"

definition SpanKind :: "string \<Rightarrow> span_option" where
  "SpanKind kind = (\<lambda>s. s\<lparr>sp_kind := kind\<rparr>)"

definition SpanMetadata :: "fields \<Rightarrow> span_option" where
  "SpanMetadata fs = (\<lambda>s. s\<lparr>sp_metadata := fs\<rparr>)"

definition SpanData :: "fields \<Rightarrow> span_option" where
  "SpanData fs = (\<lambda>s. s\<lparr>sp_data := fs\<rparr>)"

definition StartSpan ::
  "'w library \<Rightarrow> goctx \<Rightarrow> string \<Rightarrow> span_option list \<Rightarrow> 'w client \<Rightarrow> ((goctx \<times> span) \<times> 'w client) option" where
  "StartSpan L ctx name options c =
     (case ensure_request L ctx c of
        None \<Rightarrow> None
      | Some ((ctx, r), c) \<Rightarrow>
        (case newID L ''spn_'' c of (spanID, c) \<Rightarrow>
        (case time_now L c of (now, c) \<Rightarrow>
          (let s = \<lparr>sp_request = r\<lparr>rc_SpanID := spanID\<rparr>, sp_name = name, sp_kind = ''internal'',
                 sp_spanID = spanID, sp_parentSpanID = rc_SpanID r, sp_startedAt = now,
                 sp_metadata = None, sp_data = None, sp_errorCode = [], sp_errorMessage = [],
                 sp_ended = False\<rparr>
           in map_option (\<lambda>ctx. ((ctx, fold (\<lambda>option s. option s) options s), c))
                (ContextWithRequest ctx (r\<lparr>rc_SpanID := spanID\<rparr>))))))"

definition Span_RecordError ::
  "'w library \<Rightarrow> go_error option \<Rightarrow> string \<Rightarrow> span \<Rightarrow> 'w client \<Rightarrow> (span \<times> 'w client) option" where
  "Span_RecordError L err code s c =
     (case err of
        None \<Rightarrow> Some (s, c)
      | Some e \<Rightarrow>
        (case ContextWithRequest Background (sp_request s) of
           None \<Rightarrow> None
         | Some ctx \<Rightarrow>
           map_option (\<lambda>(_, c). (s\<lparr>sp_errorCode := code, sp_errorMessage := error_text e\<rparr>, c))
             (RecordError L ctx err (no_error_options\<lparr>eo_Code := code, eo_Severity := SeverityError\<rparr>) c)))"

definition span_event :: "string \<Rightarrow> span \<Rightarrow> instant \<Rightarrow> event" where
  "span_event status s finishedAt = empty_event\<lparr>
     ev_EventType := EventTypeSpan,
     ev_RequestID := rc_RequestID (sp_request s),
     ev_TraceID := rc_TraceID (sp_request s),
     ev_SpanID := sp_spanID s,
     ev_ParentSpanID := sp_parentSpanID s,
     ev_Name := sp_name s,
     ev_Kind := sp_kind s,
     ev_Status := or_else status StatusSuccess,
     ev_StartedAt := formatTime (sp_startedAt s),
     ev_FinishedAt := formatTime finishedAt,
     ev_DurationMS := Some (duration_ms (sp_startedAt s) finishedAt),
     ev_ErrorCode := sp_errorCode s,
     ev_ErrorMessage := sp_errorMessage s,
     ev_Metadata := sp_metadata s,
     ev_Data := sp_data s\<rparr>"

definition Span_End ::
  "'w library \<Rightarrow> string \<Rightarrow> span \<Rightarrow> 'w client \<Rightarrow> bool \<times> span \<times> 'w client" where
  "Span_End L status s c =
     (if sp_ended s then (False, s, c)
      else
        (case time_now L c of (finishedAt, c) \<Rightarrow>
          (case enqueue L (span_event status s finishedAt) c of
             (ok, c) \<Rightarrow> (ok, s\<lparr>sp_ended := True\<rparr>, c))))"

section \<open>Recorded once\<close>

text \<open>
  What \<open>Request\<close>, \<open>Operation\<close> and \<open>Span\<close> promise of the call that ends them: the first call marks
  the object, and a call on a marked object answers false and touches nothing.
\<close>

locale once =
  fixes ended :: "'r \<Rightarrow> bool" and finish :: "'a \<Rightarrow> 'r \<Rightarrow> 'c \<Rightarrow> bool \<times> 'r \<times> 'c"
  assumes finish_ended: "ended r \<Longrightarrow> finish a r c = (False, r, c)"
    and finish_marks: "finish a r c = (ok, r', c') \<Longrightarrow> ended r'"
begin

lemma later_calls: "finish a r c = (ok, r', c') \<Longrightarrow> finish b r' c'' = (False, r', c'')"
  by (rule finish_ended) (rule finish_marks)

end

text \<open>A list of calls, one after the other.\<close>

fun run_all :: "('a \<Rightarrow> 'r \<Rightarrow> 'c \<Rightarrow> bool \<times> 'r \<times> 'c) \<Rightarrow> 'a list \<Rightarrow> 'r \<Rightarrow> 'c \<Rightarrow> bool list \<times> 'r \<times> 'c" where
  "run_all f [] r c = ([], r, c)"
| "run_all f (a # as) r c =
     (case f a r c of (ok, r, c) \<Rightarrow>
       (case run_all f as r c of (oks, r, c) \<Rightarrow> (ok # oks, r, c)))"

context once
begin

lemma run_ended: "ended r \<Longrightarrow> run_all finish as r c = (replicate (length as) False, r, c)"
  by (induction as) (simp_all add: finish_ended)

lemma run_once:
  "run_all finish (a # as) r c =
     (case finish a r c of (ok, r, c) \<Rightarrow> (ok # replicate (length as) False, r, c))"
  by (auto simp: run_ended dest: finish_marks split: prod.split)

end

definition finish_request where
  "finish_request L a r c = Request_EndWithContext L (fst a) (snd a) r c"

definition finish_operation where
  "finish_operation L a p c = Operation_EndWithContext L (fst a) (snd a) p c"

interpretation req: once rq_ended "finish_request L" for L :: "'w library"
  by unfold_locales
    (auto simp: finish_request_def Request_EndWithContext_def Let_def split: if_splits prod.splits)

interpretation opn: once on_ended "finish_operation L" for L :: "'w library"
  by unfold_locales
    (auto simp: finish_operation_def Operation_EndWithContext_def Let_def split: if_splits prod.splits)

interpretation spn: once sp_ended "Span_End L" for L :: "'w library"
  by unfold_locales (auto simp: Span_End_def Let_def split: if_splits prod.splits)

text \<open>
  C19: a request, an operation and a span are finished once.  However often \<open>End\<close> is called, with
  whatever contexts and options, the first call decides what is recorded, and every later one
  answers false and changes neither the object nor the client.
\<close>
theorem finished_once:
  "run_all (finish_request L) (x # xs) r c =
     (case finish_request L x r c of (ok, r, c) \<Rightarrow> (ok # replicate (length xs) False, r, c)) \<and>
   run_all (finish_operation L) (y # ys) p c =
     (case finish_operation L y p c of (ok, p, c) \<Rightarrow> (ok # replicate (length ys) False, p, c)) \<and>
   run_all (Span_End L) (z # zs) s c =
     (case Span_End L z s c of (ok, s, c) \<Rightarrow> (ok # replicate (length zs) False, s, c))"
  by (simp only: req.run_once opn.run_once spn.run_once simp_thms)

section \<open>Durations\<close>

lemma milliseconds_pos: "0 \<le> d \<Longrightarrow> milliseconds d = d div 1000000"
  by (simp add: milliseconds_def)

lemma duration_ms_nonneg: "0 \<le> duration_ms s f"
  by (simp add: duration_ms_def Let_def)

lemma duration_ms_exact:
  assumes "f - s < 2 ^ 63"
  shows "duration_ms s f = (if f < s then 0 else (f - s) div 1000000)"
proof (cases "f < s")
  case True
  then have neg: "time_sub f s < 0" by (simp add: time_sub_def)
  then have "milliseconds (time_sub f s) \<le> 0"
    using pos_imp_zdiv_nonneg_iff [of 1000000 "- time_sub f s"] by (simp add: milliseconds_def)
  with True show ?thesis by (simp add: duration_ms_def Let_def)
next
  case False
  then have "time_sub f s = f - s" using assms by (simp add: time_sub_def)
  moreover have "0 \<le> (f - s) div 1000000" using False by (simp add: pos_imp_zdiv_nonneg_iff)
  ultimately show ?thesis using False by (simp add: duration_ms_def milliseconds_pos Let_def)
qed

section \<open>Correlation\<close>

lemma newID_prefix: "newID L pre c = (i, c') \<Longrightarrow> \<exists>r. i = pre @ r"
  by (auto simp: newID_def split: prod.splits option.splits)

lemma new_unless_keeps: "new_unless L pre v c = (i, c') \<Longrightarrow> v \<noteq> [] \<Longrightarrow> i = v"
  by (simp add: new_unless_def)

lemma new_unless_nonempty: "new_unless L pre v c = (i, c') \<Longrightarrow> pre \<noteq> [] \<Longrightarrow> i \<noteq> []"
  using newID_prefix [of L pre c i c'] by (auto simp: new_unless_def split: if_splits)

lemma started_context:
  assumes "StartRequest L ctx opts c = ((ctx', r), c')"
  shows "ctx' = Ctx (Some (rq_context r))" and "rq_ended r = False"
    and "rc_RequestID (rq_context r) \<noteq> []" and "rc_TraceID (rq_context r) \<noteq> []"
    and "rc_Operation (rq_context r) \<noteq> []"
    and "rs_RequestID opts \<noteq> [] \<Longrightarrow> rc_RequestID (rq_context r) = rs_RequestID opts"
    and "rs_TraceID opts \<noteq> [] \<Longrightarrow> rc_TraceID (rq_context r) = rs_TraceID opts"
    and "rs_SpanID opts \<noteq> [] \<Longrightarrow> rc_SpanID (rq_context r) = rs_SpanID opts"
proof -
  let ?rc = "request_context_of opts (request_of ctx)"
  obtain req c1 where q: "new_unless L ''req_'' (rc_RequestID ?rc) c = (req, c1)"
    by (cases "new_unless L ''req_'' (rc_RequestID ?rc) c")
  obtain trc c2 where t: "new_unless L ''trc_'' (rc_TraceID ?rc) c1 = (trc, c2)"
    by (cases "new_unless L ''trc_'' (rc_TraceID ?rc) c1")
  obtain now c3 where n: "instant_or_now L (rs_StartedAt opts) c2 = (now, c3)"
    by (cases "instant_or_now L (rs_StartedAt opts) c2")
  from assms have r: "rq_context r = ?rc\<lparr>rc_RequestID := req, rc_TraceID := trc\<rparr>"
      "ctx' = Ctx (Some (rq_context r))" "rq_ended r = False"
    by (auto simp: StartRequest_def Let_def q t n)
  show "ctx' = Ctx (Some (rq_context r))" and "rq_ended r = False" using r by simp_all
  show "rc_RequestID (rq_context r) \<noteq> []" "rc_TraceID (rq_context r) \<noteq> []"
    using new_unless_nonempty [OF q] new_unless_nonempty [OF t] r(1) by simp_all
  show "rc_Operation (rq_context r) \<noteq> []" using r(1) by (simp add: request_context_of_def Let_def)
  show "rc_RequestID (rq_context r) = rs_RequestID opts" if "rs_RequestID opts \<noteq> []"
    using new_unless_keeps [OF q] that r(1) by (simp add: request_context_of_def)
  show "rc_TraceID (rq_context r) = rs_TraceID opts" if "rs_TraceID opts \<noteq> []"
    using new_unless_keeps [OF t] that r(1) by (simp add: request_context_of_def)
  show "rc_SpanID (rq_context r) = rs_SpanID opts" if "rs_SpanID opts \<noteq> []"
    using that r(1) by (simp add: request_context_of_def)
qed

lemma merge_same: "mergeRequestContext rc (Ctx (Some rc)) = rc"
  by (simp add: mergeRequestContext_def or_else_def)

text \<open>
  C20: one request, one set of ids.  \<open>StartRequest\<close> always yields a request id, a trace id and an
  operation, keeps the ids it was given, and puts them into the context it returns, so that its
  own start event, the end event, and every log and error recorded with that context carry the
  same six ids.
\<close>
theorem request_correlation:
  assumes "StartRequest L ctx opts c = ((ctx', r), c')"
  shows "RequestFromContext ctx' = Some (rq_context r, True) \<and>
    rc_RequestID (rq_context r) \<noteq> [] \<and> rc_TraceID (rq_context r) \<noteq> [] \<and> rc_Operation (rq_context r) \<noteq> [] \<and>
    rc_RequestID (rq_context r) = firstNonEmpty [rs_RequestID opts, rc_RequestID (rq_context r)] \<and>
    rc_TraceID (rq_context r) = firstNonEmpty [rs_TraceID opts, rc_TraceID (rq_context r)] \<and>
    (\<forall>e \<in> {request_started_event opts r,
        request_finished_event eopts (mergeRequestContext (rq_context r) ctx') r t,
        log_event_of (request_of ctx') level message fs, error_event_of (request_of ctx') err oopts}.
      event_ids e = ids_of (rq_context r))"
proof -
  note s = started_context [OF assms]
  have "request_of ctx' = rq_context r" by (simp add: s(1) request_of_def ctx_or_background_def)
  moreover have "mergeRequestContext (rq_context r) ctx' = rq_context r" by (simp add: s(1) merge_same)
  ultimately show ?thesis
    using s by (simp add: request_started_event_def request_finished_event_def log_event_of_def
        error_event_of_def event_ids_def ids_of_def Let_def)
qed

section \<open>Nested spans\<close>

text \<open>The options that the package offers.\<close>

inductive package_option :: "span_option \<Rightarrow> bool" where
  "package_option (SpanKind kind)"
| "package_option (SpanMetadata fs)"
| "package_option (SpanData fs)"

definition span_ids :: "span \<Rightarrow> request_context \<times> string \<times> string \<times> string \<times> bool" where
  "span_ids s = (sp_request s, sp_name s, sp_spanID s, sp_parentSpanID s, sp_ended s)"

lemma option_ids: "package_option f \<Longrightarrow> span_ids (f s) = span_ids s"
  by (induction rule: package_option.induct)
    (simp_all add: span_ids_def SpanKind_def SpanMetadata_def SpanData_def)

lemma options_ids: "list_all package_option fs \<Longrightarrow> span_ids (fold (\<lambda>f s. f s) fs s) = span_ids s"
  by (induction fs arbitrary: s) (simp_all add: option_ids)

lemma ensure_request_Some:
  assumes "ensure_request L ctx c = Some ((ctx', r), c')"
  shows "ctx' = Ctx (Some r)" and "rc_RequestID r \<noteq> []" and "rc_TraceID r \<noteq> []"
    and "\<And>r0. ctx = Ctx (Some r0) \<Longrightarrow> rc_RequestID r0 \<noteq> [] \<Longrightarrow> rc_TraceID r0 \<noteq> [] \<Longrightarrow> r = r0"
proof -
  obtain r0 b where r0: "RequestFromContext ctx = Some (r0, b)"
    using assms by (auto simp: ensure_request_def split: option.splits)
  obtain req c1 where q: "new_unless L ''req_'' (rc_RequestID r0) c = (req, c1)"
    by (cases "new_unless L ''req_'' (rc_RequestID r0) c")
  obtain trc c2 where t: "new_unless L ''trc_'' (rc_TraceID r0) c1 = (trc, c2)"
    by (cases "new_unless L ''trc_'' (rc_TraceID r0) c1")
  have e: "ensureRequestContext req trc ctx = Some (ctx', r)"
    using assms by (simp add: ensure_request_def r0 q t)
  have "ctx \<noteq> NilCtx" using r0 by auto
  moreover have "req \<noteq> []" "trc \<noteq> []" using new_unless_nonempty [OF q] new_unless_nonempty [OF t] by simp_all
  ultimately show "ctx' = Ctx (Some r)" "rc_RequestID r \<noteq> []" "rc_TraceID r \<noteq> []"
    using e r0 by (auto simp: ensureRequestContext_def ContextWithRequest_def Let_def split: if_splits)
  show "r = r1" if "ctx = Ctx (Some r1)" "rc_RequestID r1 \<noteq> []" "rc_TraceID r1 \<noteq> []" for r1
    using e that by (simp add: ensureRequestContext_def ContextWithRequest_def)
qed

lemma StartSpan_Some:
  assumes "StartSpan L ctx name fs c = Some ((ctx', s), c')" and "list_all package_option fs"
  obtains r c1 where "ensure_request L ctx c = Some ((Ctx (Some r), r), c1)"
    and "ctx' = Ctx (Some (r\<lparr>rc_SpanID := sp_spanID s\<rparr>))" and "sp_request s = r\<lparr>rc_SpanID := sp_spanID s\<rparr>"
    and "sp_parentSpanID s = rc_SpanID r" and "sp_spanID s \<noteq> []" and "sp_name s = name" and "\<not> sp_ended s"
proof -
  obtain ctx1 r c1 where e: "ensure_request L ctx c = Some ((ctx1, r), c1)"
    using assms(1) by (auto simp: StartSpan_def split: option.splits)
  note er = ensure_request_Some [OF e]
  obtain i c2 where i: "newID L ''spn_'' c1 = (i, c2)" by (cases "newID L ''spn_'' c1")
  obtain now c3 where n: "time_now L c2 = (now, c3)" by (cases "time_now L c2")
  define s0 where "s0 = \<lparr>sp_request = r\<lparr>rc_SpanID := i\<rparr>, sp_name = name, sp_kind = ''internal'', sp_spanID = i,
    sp_parentSpanID = rc_SpanID r, sp_startedAt = now, sp_metadata = None, sp_data = None,
    sp_errorCode = [], sp_errorMessage = [], sp_ended = False\<rparr>"
  have s: "s = fold (\<lambda>f s. f s) fs s0" "ctx' = Ctx (Some (r\<lparr>rc_SpanID := i\<rparr>))"
    using assms(1) er(1) by (simp_all add: StartSpan_def e i n Let_def s0_def ContextWithRequest_def)
  have "span_ids s = span_ids s0" unfolding s(1) by (rule options_ids [OF assms(2)])
  then have "sp_request s = r\<lparr>rc_SpanID := i\<rparr>" "sp_spanID s = i" "sp_parentSpanID s = rc_SpanID r"
      "sp_name s = name" "\<not> sp_ended s"
    by (simp_all add: span_ids_def s0_def)
  with that e er s(2) newID_prefix [OF i] show ?thesis by auto
qed

text \<open>
  C21: spans form a tree inside one trace.  A span started from the context of another has that one
  as its parent, a span id of its own, and the same request and trace id; the context it returns
  carries its id, so that an error or a log recorded there belongs to the inner span.
\<close>
theorem span_nesting:
  assumes "StartSpan L ctx name fs c = Some ((ctx1, s1), c1)" and "list_all package_option fs"
    and "StartSpan L ctx1 name2 fs2 c2 = Some ((ctx2, s2), c3)" and "list_all package_option fs2"
  shows "sp_parentSpanID s2 = sp_spanID s1 \<and> sp_spanID s2 \<noteq> [] \<and>
    rc_RequestID (sp_request s2) = rc_RequestID (sp_request s1) \<and>
    rc_TraceID (sp_request s2) = rc_TraceID (sp_request s1) \<and> rc_TraceID (sp_request s1) \<noteq> [] \<and>
    request_of ctx2 = sp_request s2 \<and>
    ev_SpanID (log_event_of (request_of ctx2) level message mf) = ev_SpanID (span_event status s2 t) \<and>
    ev_ParentSpanID (span_event status s2 t) = ev_SpanID (span_event status' s1 t')"
proof -
  obtain r d where a: "ensure_request L ctx c = Some ((Ctx (Some r), r), d)"
      "ctx1 = Ctx (Some (r\<lparr>rc_SpanID := sp_spanID s1\<rparr>))" "sp_request s1 = r\<lparr>rc_SpanID := sp_spanID s1\<rparr>"
      "sp_spanID s1 \<noteq> []"
    using StartSpan_Some [OF assms(1,2)] by metis
  obtain r2 d2 where b: "ensure_request L ctx1 c2 = Some ((Ctx (Some r2), r2), d2)"
      "ctx2 = Ctx (Some (r2\<lparr>rc_SpanID := sp_spanID s2\<rparr>))" "sp_request s2 = r2\<lparr>rc_SpanID := sp_spanID s2\<rparr>"
      "sp_parentSpanID s2 = rc_SpanID r2" "sp_spanID s2 \<noteq> []"
    using StartSpan_Some [OF assms(3,4)] by metis
  have "rc_RequestID r \<noteq> []" "rc_TraceID r \<noteq> []" using ensure_request_Some [OF a(1)] by simp_all
  then have "r2 = r\<lparr>rc_SpanID := sp_spanID s1\<rparr>"
    using ensure_request_Some(4) [OF b(1) a(2)] by simp
  with a b \<open>rc_TraceID r \<noteq> []\<close> show ?thesis
    by (simp add: request_of_def ctx_or_background_def log_event_of_def span_event_def)
qed

section \<open>The events meet the rules of their types\<close>

lemma allowed_defaults:
  "StatusSuccess \<in> set allowedStatuses" "LevelInfo \<in> set allowedLevels" "\<not> blank SeverityError"
  "list_all (\<lambda>l. l \<in> set allowedLevels) [LevelDebug, LevelInfo, LevelWarn, LevelError, LevelFatal]"
  by code_simp+

lemma trimmed_not_blank: "trim_space v \<noteq> [] \<Longrightarrow> \<not> blank (trim_space v)"
  by (simp add: blank_def)

lemma firstNonEmpty_trim: "d \<noteq> [] \<Longrightarrow> \<not> blank d \<Longrightarrow> \<not> blank (firstNonEmpty [trim_space v, trim_space w, d])"
  by (auto simp: trimmed_not_blank)

lemmas typed_defs = validate_by_type_None supported_types_def type_texts_def type_times_def type_rule_def
  timed_def exchange_types_def event_type_defs

lemma formatTime_ok: "in_calendar t \<Longrightarrow> \<not> blank (formatTime t) \<and> rfc3339_ok (formatTime t)"
  by (simp add: formatTime_def format_rfc3339_ok format_rfc3339_not_blank)

lemma finished_typed:
  assumes "\<not> blank (rc_RequestID rc)" "\<not> blank (rc_TraceID rc)" "in_calendar t"
  shows "or_else (re_Status eopts) StatusSuccess \<in> set allowedStatuses \<Longrightarrow>
      validate_by_type quote (request_finished_event eopts rc r t) = None"
    and "or_else (oe_Status popts) StatusSuccess \<in> set allowedStatuses \<Longrightarrow>
      validate_by_type quote (operation_finished_event popts rc p t) = None"
  using assms by (simp_all add: typed_defs request_finished_event_def operation_finished_event_def
      formatTime_ok duration_ms_nonneg)

lemma operation_started:
  assumes "StartOperation L ctx name options c = Some ((ctx', p), c')"
  obtains r where "ctx' = Ctx (Some (on_request p))" and "on_name p = rc_Operation (on_request p)"
    and "on_request p = operation_context_of (first_or no_operation_start options) name r"
    and "rc_RequestID r \<noteq> []" and "rc_TraceID r \<noteq> []" and "\<not> on_ended p"
proof -
  obtain ctx1 r c1 where e: "ensure_request L (ctx_or_background ctx) c = Some ((ctx1, r), c1)"
    using assms by (auto simp: StartOperation_def Let_def split: option.splits)
  note er = ensure_request_Some [OF e]
  obtain t c2 where t: "instant_or_now L (os_StartedAt (first_or no_operation_start options)) c1 = (t, c2)"
    by (cases "instant_or_now L (os_StartedAt (first_or no_operation_start options)) c1")
  from assms that er show ?thesis
    by (auto simp: StartOperation_def Let_def e t ContextWithRequest_def)
qed

text \<open>
  C22: an operation records what the API accepts.  Whatever name, kind and options it is started
  with, its name is never blank, and when the ids are not blank, the times are in the years 1 to 9999,
  and the caller's status and level, where given, are known ones, then its start event, its end event
  and each of its steps meet the rules of their event types.
\<close>
theorem operation_events_valid:
  assumes "StartOperation L ctx name options c = Some ((ctx', p), c')"
    and "\<not> blank (rc_RequestID (on_request p))" and "\<not> blank (rc_TraceID (on_request p))"
    and "in_calendar (on_startedAt p)" and "in_calendar t"
    and "or_else (oe_Status eopts) StatusSuccess \<in> set allowedStatuses"
    and "or_else (op_Level ev) LevelInfo \<in> set allowedLevels"
  shows "\<not> blank (on_name p) \<and>
    validate_by_type quote (operation_started_event sopts p) = None \<and>
    validate_by_type quote (operation_finished_event eopts (mergeRequestContext (on_request p) ctx') p t) = None \<and>
    validate_by_type quote (operationEventToLogEvent (mergeRequestContext (on_request p) ctx') ev) = None"
proof -
  obtain r where r: "ctx' = Ctx (Some (on_request p))" "on_name p = rc_Operation (on_request p)"
      "on_request p = operation_context_of (first_or no_operation_start options) name r"
    using operation_started [OF assms(1)] by metis
  have "\<not> blank ''operation''" "\<not> blank ''operation event''" by code_simp+
  then have name: "\<not> blank (rc_Operation (on_request p))"
      "\<not> blank (firstNonEmpty [trim_space (op_Description ev), trim_space (op_Action ev), ''operation event''])"
    unfolding r(3) by (simp_all add: operation_context_of_def trimmed_not_blank)
  have "mergeRequestContext (on_request p) ctx' = on_request p" by (simp add: r(1) merge_same)
  moreover have "validate_by_type quote (operation_started_event sopts p) = None"
    using assms(2-4) name(1) by (simp add: typed_defs operation_started_event_def formatTime_ok)
  moreover have "validate_by_type quote (operationEventToLogEvent (on_request p) ev) = None"
    using assms(7) name(2) by (simp add: typed_defs operationEventToLogEvent_def)
  ultimately show ?thesis
    using finished_typed(2) [OF assms(2,3,5,6)] name(1) r(2) by simp
qed

end
