(* ===== verification/Provider_Exchange.thy ===== *)
theory Provider_Exchange
  imports Recorders Json_Canonical
begin

text \<open>
  \<open>logcenter/external_provider_exchange.go\<close>: an exchange with an external provider as an event,
  with its payloads as JSON where they parse and as base64 text otherwise.
\<close>

section \<open>The code\<close>

record exchange =
  ex_IdempotencyKey :: string
  ex_Classification :: string
  ex_RetentionHint :: string
  ex_RequestID :: string
  ex_TraceID :: string
  ex_SpanID :: string
  ex_UserID :: string
  ex_TenantID :: string
  ex_Operation :: string
  ex_Provider :: string
  ex_ProviderEnv :: gval
  ex_Method :: string
  ex_Endpoint :: string
  ex_URL :: string
  ex_Accept :: string
  ex_ContentType :: string
  ex_Attempt :: int
  ex_Status :: string
  ex_StatusCode :: int
  ex_Duration :: int
  ex_StartedAt :: instant
  ex_FinishedAt :: instant
  ex_ErrorCode :: string
  ex_ErrorMessage :: string
  ex_RequestPayloadBytes :: string
  ex_ResponsePayloadBytes :: string
  ex_RequestOmittedReason :: string
  ex_ResponseOmittedReason :: string
  ex_Metadata :: fields
  ex_Data :: fields

definition copyFields :: "fields \<Rightarrow> fields" where
  "copyFields fs = (case fs of None \<Rightarrow> None | Some kvs \<Rightarrow> Some kvs)"

definition nilIfEmpty :: "entries \<Rightarrow> fields" where
  "nilIfEmpty kvs = (if kvs = [] then None else Some kvs)"

definition setFieldString :: "string \<Rightarrow> string \<Rightarrow> entries \<Rightarrow> entries" where
  "setFieldString key value kvs =
     (let value = trim_space value in if value \<noteq> [] then entry_set key (GStr value) kvs else kvs)"

definition setFieldInt :: "string \<Rightarrow> int \<Rightarrow> entries \<Rightarrow> entries" where
  "setFieldInt key value kvs = (if value \<noteq> 0 then entry_set key (GInt value) kvs else kvs)"

definition set_if :: "bool \<Rightarrow> string \<Rightarrow> gval \<Rightarrow> entries \<Rightarrow> entries" where
  "set_if cond key v kvs = (if cond then entry_set key v kvs else kvs)"

definition formatOptionalTime :: "instant \<Rightarrow> string" where
  "formatOptionalTime t = (if t = zero_time then [] else formatTime t)"

definition addProviderPayloadMetadata :: "string \<Rightarrow> string \<Rightarrow> string \<Rightarrow> entries \<Rightarrow> entries" where
  "addProviderPayloadMetadata pre payload omittedReason kvs =
     setFieldString (pre @ ''_payload_omitted_reason'') omittedReason
       (set_if (payload \<noteq> []) (pre @ ''_payload_size_bytes'') (GInt (int (length payload))) kvs)"

definition payload_json :: "string \<Rightarrow> gval option" where
  "payload_json payload = (if json_valid payload then decode_number_any payload else None)"

definition addProviderPayloadData ::
  "string \<Rightarrow> string \<Rightarrow> string \<Rightarrow> entries \<Rightarrow> entries" where
  "addProviderPayloadData pre payload omittedReason kvs =
     (let omittedReason = trim_space omittedReason
      in if omittedReason \<noteq> [] then entry_set (pre @ ''_payload_omitted_reason'') (GStr omittedReason) kvs
         else if payload = [] then kvs
         else (case payload_json payload of
                 Some v \<Rightarrow> entry_set (pre @ ''_payload_json'') v kvs
               | None \<Rightarrow> entry_set (pre @ ''_payload_encoding'') (GStr ''base64'')
                          (entry_set (pre @ ''_payload_b64'') (GStr (b64_encode b64_std payload)) kvs)))"

definition providerExchangeStatus :: "exchange \<Rightarrow> string" where
  "providerExchangeStatus x =
     (if ex_ErrorCode x \<noteq> [] \<or> ex_ErrorMessage x \<noteq> [] \<or> ex_StatusCode x \<ge> 400 then StatusFailed
      else if ex_StatusCode x > 0 then StatusSuccess
      else [])"

text \<open>The metadata are set in this order, one assignment after the other.\<close>

definition exchange_metadata :: "exchange \<Rightarrow> entries" where
  "exchange_metadata x =
     (let m = entries_of (copyFields (ex_Metadata x));
          m = entry_set ''event_type'' (GStr EventTypeExternalProviderExchange) m;
          m = entry_set ''operation_kind'' (GStr EventTypeExternalProviderExchange) m;
          m = setFieldString ''provider'' (ex_Provider x) m;
          m = set_if (ex_ProviderEnv x \<noteq> GNil) ''provider_environment'' (ex_ProviderEnv x) m;
          m = setFieldString ''provider_method'' (ex_Method x) m;
          m = setFieldString ''provider_endpoint'' (ex_Endpoint x) m;
          m = setFieldString ''provider_url'' (ex_URL x) m;
          m = setFieldString ''provider_accept'' (ex_Accept x) m;
          m = setFieldString ''provider_content_type'' (ex_ContentType x) m;
          m = setFieldInt ''provider_attempt'' (ex_Attempt x) m;
          m = setFieldInt ''provider_status_code'' (ex_StatusCode x) m;
          m = set_if (ex_StatusCode x > 0) ''provider_success''
                (GBool (ex_ErrorCode x = [] \<and> ex_ErrorMessage x = [] \<and> ex_StatusCode x < 400)) m;
          m = set_if (ex_Duration x > 0) ''provider_duration_ms'' (GInt (milliseconds (ex_Duration x))) m;
          m = set_if (ex_StartedAt x \<noteq> zero_time) ''provider_started_at'' (GStr (formatTime (ex_StartedAt x))) m;
          m = set_if (ex_FinishedAt x \<noteq> zero_time) ''provider_finished_at'' (GStr (formatTime (ex_FinishedAt x))) m;
          m = addProviderPayloadMetadata ''provider_request'' (ex_RequestPayloadBytes x) (ex_RequestOmittedReason x) m;
          m = addProviderPayloadMetadata ''provider_response'' (ex_ResponsePayloadBytes x) (ex_ResponseOmittedReason x) m;
          m = setFieldString ''provider_error_code'' (ex_ErrorCode x) m
      in setFieldString ''provider_error'' (ex_ErrorMessage x) m)"

definition exchange_data :: "exchange \<Rightarrow> entries" where
  "exchange_data x =
     addProviderPayloadData ''provider_response'' (ex_ResponsePayloadBytes x) (ex_ResponseOmittedReason x)
       (addProviderPayloadData ''provider_request'' (ex_RequestPayloadBytes x) (ex_RequestOmittedReason x)
         (entries_of (copyFields (ex_Data x))))"

definition NewExternalProviderExchangeEvent ::
  "exchange \<Rightarrow> event" where
  "NewExternalProviderExchangeEvent x = empty_event\<lparr>
     ev_IdempotencyKey := ex_IdempotencyKey x,
     ev_EventType := EventTypeExternalProviderExchange,
     ev_Classification := or_else (trim_space (ex_Classification x)) ClassificationAudit,
     ev_RetentionHint := or_else (trim_space (ex_RetentionHint x)) RetentionHintAudit,
     ev_RequestID := ex_RequestID x,
     ev_TraceID := ex_TraceID x,
     ev_SpanID := ex_SpanID x,
     ev_UserID := ex_UserID x,
     ev_TenantID := ex_TenantID x,
     ev_Operation := or_else (trim_space (ex_Operation x)) EventTypeExternalProviderExchange,
     ev_Status := or_else (trim_space (ex_Status x)) (providerExchangeStatus x),
     ev_Method := ex_Method x,
     ev_Path := ex_Endpoint x,
     ev_RouteTemplate := ex_Endpoint x,
     ev_StartedAt := formatOptionalTime (ex_StartedAt x),
     ev_FinishedAt := formatOptionalTime (ex_FinishedAt x),
     ev_ErrorCode := ex_ErrorCode x,
     ev_ErrorMessage := ex_ErrorMessage x,
     ev_HTTPStatus := (if ex_StatusCode x > 0 then Some (ex_StatusCode x) else None),
     ev_DurationMS := (if ex_Duration x > 0 then Some (milliseconds (ex_Duration x)) else None),
     ev_Metadata := nilIfEmpty (exchange_metadata x),
     ev_Data := nilIfEmpty (exchange_data x)\<rparr>"

definition client_ExternalProviderExchange ::
  "'w library \<Rightarrow> goctx \<Rightarrow> exchange \<Rightarrow> 'w client \<Rightarrow> bool \<times> 'w client" where
  "client_ExternalProviderExchange L ctx x c =
     SendEvent L ctx (NewExternalProviderExchangeEvent x) c"

definition client_ExternalProviderExchangeSync ::
  "'w library \<Rightarrow> goctx \<Rightarrow> exchange \<Rightarrow> 'w client \<Rightarrow> go_error option \<times> 'w client" where
  "client_ExternalProviderExchangeSync L ctx x c =
     SendEventSync L ctx (NewExternalProviderExchangeEvent x) c"

section \<open>Payloads are kept whole\<close>

lemma payload_json_back:
  assumes "payload_json payload = Some v"
  shows "\<exists>j t. json_parse payload = Some j \<and> json_val v = Some t \<and> json_parse t = Some (canonical_json j)"
proof -
  from assms obtain j where j: "json_parse payload = Some j" "decode_number_any payload = Some v"
    by (auto simp: payload_json_def json_valid_def split: if_splits)
  with decode_number_roundtrip [OF json_parse_first [OF j(1)]] show ?thesis by auto
qed

text \<open>
  C31: a payload that is recorded is kept whole.  One that is not JSON is stored as base64 text, which
  decodes to the payload, so that two payloads never share a text.  One that is JSON is stored as a
  value whose own JSON text means what the payload means: the same value, every number digit for
  digit, each object with its members in the order of their keys and, of members with one key, the
  last.
\<close>
theorem payload_roundtrip:
  assumes "blank reason" and "payload \<noteq> []"
  shows "(payload_json payload = None \<longrightarrow>
      (\<exists>t. map_of (addProviderPayloadData pre payload reason kvs) (pre @ ''_payload_b64'') = Some (GStr t) \<and>
        b64_decode b64_std t = payload)) \<and>
    (\<forall>v. payload_json payload = Some v \<longrightarrow>
      map_of (addProviderPayloadData pre payload reason kvs) (pre @ ''_payload_json'') = Some v \<and>
      (\<exists>j t. json_parse payload = Some j \<and> json_val v = Some t \<and> json_parse t = Some (canonical_json j)))"
  using assms payload_json_back
  by (auto simp: addProviderPayloadData_def blank_def map_of_entry_set b64_roundtrip b64_alphabets Let_def)

section \<open>Omitted payloads stay out\<close>

text \<open>
  C30: an omitted payload leaves no trace but its size.  When a reason for leaving out the request
  payload is given, two exchanges that differ in that payload only, and not in its length, make
  the same event: nothing of the content reaches the API, the outbox or the hooks.  The same holds
  for the response payload.
\<close>
theorem omitted_payload_hidden:
  assumes "length p = length p'"
  shows "(\<not> blank (ex_RequestOmittedReason x) \<longrightarrow>
      NewExternalProviderExchangeEvent (x\<lparr>ex_RequestPayloadBytes := p\<rparr>) =
      NewExternalProviderExchangeEvent (x\<lparr>ex_RequestPayloadBytes := p'\<rparr>)) \<and>
    (\<not> blank (ex_ResponseOmittedReason x) \<longrightarrow>
      NewExternalProviderExchangeEvent (x\<lparr>ex_ResponsePayloadBytes := p\<rparr>) =
      NewExternalProviderExchangeEvent (x\<lparr>ex_ResponsePayloadBytes := p'\<rparr>))"
proof -
  have meta: "addProviderPayloadMetadata pre p reason kvs = addProviderPayloadMetadata pre p' reason kvs"
    for pre reason kvs using assms by (auto simp: addProviderPayloadMetadata_def set_if_def)
  have data: "addProviderPayloadData pre p reason kvs = addProviderPayloadData pre p' reason kvs"
    if "\<not> blank reason" for pre reason kvs
    using that by (simp add: addProviderPayloadData_def blank_def Let_def)
  have "exchange_metadata (x\<lparr>ex_RequestPayloadBytes := p\<rparr>) = exchange_metadata (x\<lparr>ex_RequestPayloadBytes := p'\<rparr>)"
    "exchange_metadata (x\<lparr>ex_ResponsePayloadBytes := p\<rparr>) = exchange_metadata (x\<lparr>ex_ResponsePayloadBytes := p'\<rparr>)"
    by (simp_all add: exchange_metadata_def meta)
  moreover have "\<not> blank (ex_RequestOmittedReason x) \<Longrightarrow>
      exchange_data (x\<lparr>ex_RequestPayloadBytes := p\<rparr>) = exchange_data (x\<lparr>ex_RequestPayloadBytes := p'\<rparr>)"
    "\<not> blank (ex_ResponseOmittedReason x) \<Longrightarrow>
      exchange_data (x\<lparr>ex_ResponsePayloadBytes := p\<rparr>) = exchange_data (x\<lparr>ex_ResponsePayloadBytes := p'\<rparr>)"
    by (simp_all add: exchange_data_def data)
  ultimately show ?thesis
    by (simp add: NewExternalProviderExchangeEvent_def providerExchangeStatus_def)
qed

section \<open>When an exchange is accepted\<close>

lemma entry_set_nonempty [simp]: "entry_set k v kvs \<noteq> []"
  by (induction k v kvs rule: entry_set.induct) auto

lemma payload_data_empty:
  "addProviderPayloadData pre payload reason kvs = [] \<longleftrightarrow> kvs = [] \<and> payload = [] \<and> blank reason"
  by (auto simp: addProviderPayloadData_def blank_def Let_def split: option.split)

lemma exchange_type_not_blank: "\<not> blank EventTypeExternalProviderExchange"
  by code_simp

text \<open>What an exchange can carry: data of the caller, a payload, or the reason for leaving one out.\<close>

definition carries :: "exchange \<Rightarrow> bool" where
  "carries x \<longleftrightarrow> entries_of (ex_Data x) \<noteq> [] \<or>
     ex_RequestPayloadBytes x \<noteq> [] \<or> \<not> blank (ex_RequestOmittedReason x) \<or>
     ex_ResponsePayloadBytes x \<noteq> [] \<or> \<not> blank (ex_ResponseOmittedReason x)"

lemma exchange_data_carries: "exchange_data x \<noteq> [] \<longleftrightarrow> carries x"
  by (auto simp: exchange_data_def payload_data_empty carries_def copyFields_def split: option.splits)

lemma exchange_event_rules:
  "ev_EventType (NewExternalProviderExchangeEvent x) = EventTypeExternalProviderExchange"
  "\<not> blank (ev_Operation (NewExternalProviderExchangeEvent x))"
  "entries_of (ev_Data (NewExternalProviderExchangeEvent x)) \<noteq> [] \<longleftrightarrow> carries x"
  using exchange_type_not_blank exchange_data_carries [of x]
  by (auto simp: NewExternalProviderExchangeEvent_def or_else_def trimmed_not_blank nilIfEmpty_def split: if_splits)

lemma exchange_type_rules:
  assumes "ev_EventType e = EventTypeExternalProviderExchange"
  shows "type_texts e = [ev_Operation e]" "type_times e = []"
    "type_rule e \<longleftrightarrow> entries_of (ev_Data e) \<noteq> []" "ev_EventType e \<in> set supported_types"
  using assms
  by (simp_all add: type_texts_def type_times_def type_rule_def exchange_types_def supported_types_def event_type_defs)

text \<open>
  C29: when \<open>ValidateEvent\<close> accepts the event of an exchange.  The client completes the event with
  an id, a key, a time, an environment and a service; whatever these are, it is valid exactly when
  they, the classification and the retention hint pass the checks that hold for every event,
  metadata and data can be encoded, and the exchange carries something: data of the caller, a
  payload, or the reason for leaving one out.  An exchange with none of these, such as a request
  that failed before anything was sent, is always refused.
\<close>
theorem exchange_valid_iff:
  "let e = (NewExternalProviderExchangeEvent x)\<lparr>ev_EventID := eventID, ev_IdempotencyKey := key,
       ev_OccurredAt := occurredAt, ev_Environment := environment, ev_Service := service\<rparr>
   in ValidateEvent quote e = None \<longleftrightarrow>
     \<not> blank eventID \<and> \<not> blank environment \<and> \<not> blank service \<and> \<not> blank occurredAt \<and> rfc3339_ok occurredAt \<and>
     (blank key \<or> trim_space key = trim_space eventID) \<and>
     (blank (ev_Classification e) \<or> trim_space (ev_Classification e) \<in> set allowedClassifications) \<and>
     (blank (ev_RetentionHint e) \<or> trim_space (ev_RetentionHint e) \<in> set allowedRetentionHints) \<and>
     encodable (GFields (ev_Metadata e)) \<and> encodable (GFields (ev_Data e)) \<and>
     (entries_of (ex_Data x) \<noteq> [] \<or>
      ex_RequestPayloadBytes x \<noteq> [] \<or> \<not> blank (ex_RequestOmittedReason x) \<or>
      ex_ResponsePayloadBytes x \<noteq> [] \<or> \<not> blank (ex_ResponseOmittedReason x))"
proof -
  let ?e = "(NewExternalProviderExchangeEvent x)\<lparr>ev_EventID := eventID, ev_IdempotencyKey := key,
       ev_OccurredAt := occurredAt, ev_Environment := environment, ev_Service := service\<rparr>"
  have "ev_EventType ?e = EventTypeExternalProviderExchange" by (simp add: exchange_event_rules(1))
  note rules = exchange_type_rules [OF this]
  show ?thesis
    unfolding Let_def ValidateEvent_spec well_formed_event_def rules carries_def [symmetric]
    using exchange_event_rules(2,3) [of x] exchange_type_rules(4) [OF exchange_event_rules(1) [of x]] by auto
qed

end
