(* ===== verification/Http_Capture.thy ===== *)
theory Http_Capture
  imports Provider_Exchange Go_Net
begin

text \<open>
  \<open>logcenter/bodycapture.go\<close>: reading the body of a request for its event, and putting it back.
  A body is a stream: the bytes that can still be read and what comes after them, end of file
  (None) or a read error.  \<open>lower\<close> is the lower-case table.
\<close>

section \<open>Requests\<close>

record body =
  bd_content :: string
  bd_after :: "go_error option"

text \<open>
  An \<open>http.Request\<close> as far as the SDK reads it; a nil body and \<open>http.NoBody\<close> are None, and
  \<open>hq_header\<close> is what \<open>Header.Get\<close> answers.
\<close>

record http_request =
  hq_Method :: string
  hq_Scheme :: string
  hq_Host :: string
  hq_Path :: string
  hq_Pattern :: string
  hq_RemoteAddr :: string
  hq_header :: "string \<Rightarrow> string"
  hq_context :: goctx
  hq_body :: "body option"

section \<open>The code\<close>

record capture_options =
  co_MaxBytes :: int
  co_ContentTypes :: "string list"

definition DefaultRequestBodyCaptureMaxBytes :: int where
  "DefaultRequestBodyCaptureMaxBytes = 8 * 1024"

definition isJSONMediaType :: "string \<Rightarrow> bool" where
  "isJSONMediaType mediaType \<longleftrightarrow> mediaType = ''application/json'' \<or> ends_with mediaType ''+json''"

definition mediaTypeOf :: "(string \<Rightarrow> string) \<Rightarrow> string \<Rightarrow> string" where
  "mediaTypeOf lower contentType =
     (case parse_media_type lower contentType of
        None \<Rightarrow> to_lower lower (trim_space (hd (split_on (CHR '';'') contentType)))
      | Some m \<Rightarrow> to_lower lower m)"

text \<open>\<open>strings.TrimSuffix(value, "*")\<close> of a value that ends in it.\<close>

fun type_listed :: "(string \<Rightarrow> string) \<Rightarrow> string \<Rightarrow> string list \<Rightarrow> bool" where
  "type_listed lower mediaType [] = False"
| "type_listed lower mediaType (v # vs) =
     (let value = to_lower lower (trim_space v)
      in if value = [] then type_listed lower mediaType vs
         else if value = mediaType then True
         else if ends_with value ''/*'' \<and> starts_with mediaType (butlast value) then True
         else if value = ''application/*+json'' \<and> starts_with mediaType ''application/'' \<and>
                 ends_with mediaType ''+json'' then True
         else type_listed lower mediaType vs)"

definition contentTypeAllowed :: "(string \<Rightarrow> string) \<Rightarrow> string \<Rightarrow> string list \<Rightarrow> bool" where
  "contentTypeAllowed lower mediaType allowed =
     (if mediaType = [] then False
      else if allowed = [] then isJSONMediaType mediaType
      else type_listed lower mediaType allowed)"

text \<open>
  \<open>io.ReadAll(io.LimitReader(body, n))\<close>: at most \<open>n\<close> bytes; a read error shows only when the
  stream ends in it before that.  The result is what was read, the error, and the rest.
\<close>

definition read_limited :: "int \<Rightarrow> body \<Rightarrow> string \<times> go_error option \<times> body" where
  "read_limited n b =
     (let k = nat n
      in if n \<le> int (length (bd_content b)) then
           (take k (bd_content b), None, b\<lparr>bd_content := drop k (bd_content b)\<rparr>)
         else (bd_content b, bd_after b, b\<lparr>bd_content := []\<rparr>))"

text \<open>\<open>io.MultiReader\<close> of the buffer and the rest of the original.\<close>

definition replay :: "string \<Rightarrow> body \<Rightarrow> body" where
  "replay buffer rest = rest\<lparr>bd_content := buffer @ bd_content rest\<rparr>"

text \<open>The limit is one more than \<open>maxBytes\<close>, in 64-bit arithmetic.  The result is the captured
  bytes and whether there were more, or None, and the body that the handler will read.\<close>

definition readAndRestoreBody :: "int \<Rightarrow> body \<Rightarrow> (string \<times> bool) option \<times> body" where
  "readAndRestoreBody maxBytes original =
     (case read_limited (wrap64 (maxBytes + 1)) original of
        (buffer, err, rest) \<Rightarrow>
          (let body = replay buffer rest;
               truncated = int (length buffer) > maxBytes
           in if err \<noteq> None then (None, body)
              else if truncated then (Some (take (nat maxBytes) buffer, True), body)
              else (Some (buffer, False), body)))"

definition formValuesToFields :: "(string \<times> string list) list \<Rightarrow> entries" where
  "formValuesToFields values =
     map (\<lambda>(key, vs). (key, case vs of [v] \<Rightarrow> GStr v | _ \<Rightarrow> GSlice (Some (map GStr vs)))) values"

definition decodeCapturedBody :: "string \<Rightarrow> string \<Rightarrow> bool \<Rightarrow> gval \<times> string" where
  "decodeCapturedBody body mediaType truncated =
     (let as_text = (GStr body, ''text'');
          as_form = (if \<not> truncated \<and> mediaType = ''application/x-www-form-urlencoded''
                     then (case parse_query body of
                             Some values \<Rightarrow> (GFields (Some (formValuesToFields values)), ''form'')
                           | None \<Rightarrow> as_text)
                     else as_text)
      in if \<not> truncated \<and> isJSONMediaType mediaType
         then (case decode_number_any body of Some v \<Rightarrow> (v, ''json'') | None \<Rightarrow> as_form)
         else as_form)"

definition captured_fields :: "string \<Rightarrow> string \<Rightarrow> int \<Rightarrow> string \<Rightarrow> bool \<Rightarrow> gval \<Rightarrow> entries" where
  "captured_fields contentType encoding maxBytes captured truncated v =
     [(''request_body'', GFields (Some
        [(''content_type'', GStr contentType),
         (''encoding'', GStr encoding),
         (''size_bytes'', GInt (int (length captured))),
         (''max_bytes'', GInt maxBytes),
         (''truncated'', GBool truncated),
         (''value'', v)]))]"

text \<open>The fields and the flag, None when the flag is false, and the request with its body put back.\<close>

definition CaptureHTTPRequestBody ::
  "(string \<Rightarrow> string) \<Rightarrow> capture_options \<Rightarrow> http_request \<Rightarrow> entries option \<times> http_request" where
  "CaptureHTTPRequestBody lower options r =
     (case hq_body r of
        None \<Rightarrow> (None, r)
      | Some body \<Rightarrow>
        (let contentType = hq_header r ''Content-Type'';
             mediaType = mediaTypeOf lower contentType
         in if \<not> contentTypeAllowed lower mediaType (co_ContentTypes options) then (None, r)
            else
              (let maxBytes = (if co_MaxBytes options \<le> 0 then DefaultRequestBodyCaptureMaxBytes
                               else co_MaxBytes options)
               in case readAndRestoreBody maxBytes body of
                    (None, body) \<Rightarrow> (None, r\<lparr>hq_body := Some body\<rparr>)
                  | (Some (captured, truncated), body) \<Rightarrow>
                    (if captured = [] then (None, r\<lparr>hq_body := Some body\<rparr>)
                     else
                       (case decodeCapturedBody captured mediaType truncated of
                          (v, encoding) \<Rightarrow>
                            (Some (captured_fields contentType encoding maxBytes captured truncated v),
                             r\<lparr>hq_body := Some body\<rparr>))))))"

section \<open>The body is put back\<close>

lemma read_limited_replay: "read_limited n b = (buffer, err, rest) \<Longrightarrow> replay buffer rest = b"
  by (auto simp: read_limited_def replay_def Let_def split: if_splits)

lemma readAndRestoreBody_body: "snd (readAndRestoreBody maxBytes b) = b"
  using read_limited_replay by (fastforce simp: readAndRestoreBody_def Let_def split: prod.split)

lemma capture_same: "snd (CaptureHTTPRequestBody lower options r) = r"
proof (cases "hq_body r")
  case None
  then show ?thesis by (simp add: CaptureHTTPRequestBody_def)
next
  case (Some b)
  let ?max = "if co_MaxBytes options \<le> 0 then DefaultRequestBodyCaptureMaxBytes else co_MaxBytes options"
  obtain res b' where rb: "readAndRestoreBody ?max b = (res, b')" by (cases "readAndRestoreBody ?max b")
  have "b' = b" using readAndRestoreBody_body [of ?max b] rb by simp
  moreover have "r\<lparr>hq_body := Some b\<rparr> = r" using Some by simp
  ultimately show ?thesis
    using Some rb by (simp add: CaptureHTTPRequestBody_def Let_def split: option.split prod.split)
qed

text \<open>
  C25: capturing is invisible to the handler.  Whether the body is captured, cut, refused or broken,
  the request afterwards is the request before: the handler reads the same bytes, and after them
  the same end or error.
\<close>
theorem capture_restores: "snd (CaptureHTTPRequestBody lower options r) = r"
  by (rule capture_same)

section \<open>What is captured\<close>

lemma readAndRestoreBody_captures:
  assumes "0 < maxBytes" and "maxBytes < 2 ^ 63 - 1"
  shows "fst (readAndRestoreBody maxBytes b) =
    (if maxBytes < int (length (bd_content b)) then Some (take (nat maxBytes) (bd_content b), True)
     else if bd_after b = None then Some (bd_content b, False) else None)"
proof -
  have w: "wrap64 (maxBytes + 1) = maxBytes + 1" using assms by (intro wrap64_id) auto
  show ?thesis
  proof (cases "maxBytes + 1 \<le> int (length (bd_content b))")
    case True
    then have "int (length (take (nat (maxBytes + 1)) (bd_content b))) = maxBytes + 1"
      using assms(1) by (auto simp: min_def)
    with True assms show ?thesis
      by (simp add: readAndRestoreBody_def read_limited_def w Let_def min_def nat_add_distrib)
  next
    case False
    then show ?thesis by (simp add: readAndRestoreBody_def read_limited_def w Let_def)
  qed
qed

text \<open>What is recorded for the captured bytes.\<close>

lemma decoded_value:
  fixes body mt :: string and truncated :: bool
  defines "d \<equiv> decodeCapturedBody body mt truncated"
  shows "(truncated \<longrightarrow> snd d = ''text'') \<and>
    (snd d = ''json'' \<and> (\<exists>j t. json_first body = Some j \<and> json_val (fst d) = Some t \<and> json_parse t = Some (canonical_json j)) \<or>
     snd d = ''form'' \<and> (\<exists>values. parse_query body = Some values \<and> fst d = GFields (Some (formValuesToFields values))) \<or>
     snd d = ''text'' \<and> fst d = GStr body)"
proof (cases "\<not> truncated \<and> isJSONMediaType mt \<and> decode_number_any body \<noteq> None")
  case True
  then obtain v j where v: "decode_number_any body = Some v" "json_first body = Some j"
    by (auto simp: decode_number_any_def split: option.splits)
  with True have "d = (v, ''json'')" by (simp add: d_def decodeCapturedBody_def Let_def)
  with True v decode_number_roundtrip [OF v(2)] show ?thesis by auto
next
  case False
  then show ?thesis by (auto simp: d_def decodeCapturedBody_def Let_def split: option.split)
qed

text \<open>A form that a client has written is recorded field by field.\<close>

lemma captured_form:
  assumes "length ps \<le> maxQueryParams"
  shows "decodeCapturedBody (form_text ps) ''application/x-www-form-urlencoded'' False =
    (GFields (Some (formValuesToFields (fold add_value ps []))), ''form'')"
proof -
  have "\<not> isJSONMediaType ''application/x-www-form-urlencoded''" by code_simp
  with parse_form_text [OF assms] show ?thesis by (simp add: decodeCapturedBody_def)
qed

text \<open>
  What follows the first JSON text of a body is dropped, although the body is not JSON then: the decoder
  stops after one value.
\<close>

lemma capture_drops_trailing:
  "decodeCapturedBody ''{} password=1'' ''application/json'' False = (GMap (Some []), ''json'')"
  by code_simp

text \<open>
  C26: how much is captured.  For a maximum below the largest \<open>int64\<close>, the captured bytes are the
  body's first bytes, never more than the maximum; the flag says whether the body has more; the
  whole of a short body is captured when it can be read to its end.  The recorded value is what was
  captured: a truncated body is recorded as text, so that a cut JSON document is never taken for a
  value; a body recorded as JSON as the value of its first JSON text, every number digit for digit;
  a form as its fields; and anything else as text.
\<close>
theorem capture_bounded:
  assumes "CaptureHTTPRequestBody lower options r = (Some fs, r')" and "co_MaxBytes options < 2 ^ 63 - 1"
  shows "\<exists>b captured v encoding limit. hq_body r = Some b \<and>
    limit = (if co_MaxBytes options \<le> 0 then DefaultRequestBodyCaptureMaxBytes else co_MaxBytes options) \<and>
    fs = captured_fields (hq_header r ''Content-Type'') encoding limit captured
           (limit < int (length (bd_content b))) v \<and>
    captured = take (nat limit) (bd_content b) \<and> captured \<noteq> [] \<and> int (length captured) \<le> limit \<and>
    (limit < int (length (bd_content b)) \<longrightarrow> encoding = ''text'') \<and>
    (encoding = ''json'' \<and> (\<exists>j t. json_first captured = Some j \<and> json_val v = Some t \<and> json_parse t = Some (canonical_json j)) \<or>
     encoding = ''form'' \<and> (\<exists>values. parse_query captured = Some values \<and> v = GFields (Some (formValuesToFields values))) \<or>
     encoding = ''text'' \<and> v = GStr captured)"
proof -
  let ?max = "if co_MaxBytes options \<le> 0 then DefaultRequestBodyCaptureMaxBytes else co_MaxBytes options"
  obtain b where b: "hq_body r = Some b" using assms(1) by (auto simp: CaptureHTTPRequestBody_def split: option.splits)
  have max: "0 < ?max" "?max < 2 ^ 63 - 1" using assms(2) by (auto simp: DefaultRequestBodyCaptureMaxBytes_def)
  define m where "m = ?max"
  define mt where "mt = mediaTypeOf lower (hq_header r ''Content-Type'')"
  obtain res b' where rb: "readAndRestoreBody m b = (res, b')" by (cases "readAndRestoreBody m b")
  obtain captured truncated where res: "res = Some (captured, truncated)" and ne: "captured \<noteq> []"
      and fs: "fs = captured_fields (hq_header r ''Content-Type'') (snd (decodeCapturedBody captured mt truncated))
        m captured truncated (fst (decodeCapturedBody captured mt truncated))"
    using assms(1) b rb
    by (auto simp: CaptureHTTPRequestBody_def m_def [symmetric] mt_def [symmetric] Let_def
        split: if_splits option.splits prod.splits)
  have cap: "captured = take (nat m) (bd_content b)" "truncated = (m < int (length (bd_content b)))"
    using readAndRestoreBody_captures [OF max, of b] rb res unfolding m_def [symmetric] by (auto split: if_splits)
  obtain v encoding where d: "decodeCapturedBody captured mt truncated = (v, encoding)"
    by (cases "decodeCapturedBody captured mt truncated")
  have mdef: "m = ?max" by (simp add: m_def)
  have fs: "fs = captured_fields (hq_header r ''Content-Type'') encoding m captured (m < int (length (bd_content b))) v"
    using fs unfolding d fst_conv snd_conv unfolding cap(2) .
  have len: "int (length captured) \<le> m" using cap(1) max(1) mdef by simp
  note dv = decoded_value [of truncated captured mt, unfolded d fst_conv snd_conv, unfolded cap(2)]
  from b mdef fs cap(1) ne len dv [THEN conjunct1] dv [THEN conjunct2] show ?thesis
    by - (rule exI [of _ b], rule exI [of _ captured], rule exI [of _ v], rule exI [of _ encoding], rule exI [of _ m],
      intro conjI; assumption)
qed

text \<open>
  The largest maximum captures nothing.  For a maximum of 2^63 - 1 the limit of the reader wraps
  around to a negative number, nothing is read, and no body is captured.
\<close>

theorem capture_overflow:
  "fst (CaptureHTTPRequestBody lower (options\<lparr>co_MaxBytes := 2 ^ 63 - 1\<rparr>) r) = None"
proof (cases "hq_body r")
  case None
  then show ?thesis by (simp add: CaptureHTTPRequestBody_def)
next
  case (Some b)
  have w: "wrap64 (2 ^ 63 - 1 + 1) = - (2 ^ 63)" by (simp add: wrap64_def)
  have "fst (readAndRestoreBody (2 ^ 63 - 1) b) = Some ([], False)"
    by (simp only: readAndRestoreBody_def read_limited_def w Let_def) simp
  then obtain b' where "readAndRestoreBody (2 ^ 63 - 1) b = (Some ([], False), b')" by (metis prod.collapse)
  with Some show ?thesis by (simp add: CaptureHTTPRequestBody_def Let_def)
qed

end
