(* ===== verification/Http_Middleware.thy ===== *)
theory Http_Middleware
  imports Http_Capture
begin

text \<open>
  \<open>logcenter/http.go\<close> and \<open>integrations/gin/gin.go\<close>: the middlewares that wrap a handler into a
  \<open>Request\<close>.  The options are functions on the configuration, as in the code; the caller's
  functions of a request and the handlers are parameters.  A handler is given the request with its
  context and the client, and answers with what it did to the response, or with a panic.
\<close>

section \<open>Headers and fields\<close>

definition Request_ctx :: "http_request \<Rightarrow> goctx" where
  "Request_ctx r = ctx_or_background (hq_context r)"

fun firstHeader :: "http_request \<Rightarrow> string list \<Rightarrow> string" where
  "firstHeader r [] = []"
| "firstHeader r (name # names) =
     (let value = trim_space (hq_header r name) in if value \<noteq> [] then value else firstHeader r names)"

text \<open>Only \<open>"00"\<close> itself equals \<open>"00"\<close> under case folding.\<close>

definition traceFromHeaders :: "http_request \<Rightarrow> string \<times> string" where
  "traceFromHeaders r =
     (let traceID = firstHeader r [''X-LogCenter-Trace-Id'', ''X-Trace-Id'']
      in if traceID \<noteq> [] then (traceID, [])
         else (case split_on (CHR ''-'') (firstHeader r [''Traceparent'']) of
                 [version, trace, parent, flags] \<Rightarrow> if version = ''00'' then (trace, parent) else ([], [])
               | _ \<Rightarrow> ([], [])))"

definition mergeFields :: "fields \<Rightarrow> fields \<Rightarrow> fields" where
  "mergeFields left right =
     (if entries_of left = [] \<and> entries_of right = [] then None
      else Some (fold (\<lambda>(k, v) m. entry_set k v m) (entries_of right)
                   (fold (\<lambda>(k, v) m. entry_set k v m) (entries_of left) [])))"

section \<open>The middleware of net/http\<close>

record http_config =
  hc_routeTemplate :: string
  hc_routeTemplateFunc :: "(http_request \<Rightarrow> string) option"
  hc_userIDFunc :: "(http_request \<Rightarrow> string) option"
  hc_tenantIDFunc :: "(http_request \<Rightarrow> string) option"
  hc_metadataFunc :: "(http_request \<Rightarrow> fields) option"
  hc_dataFunc :: "(http_request \<Rightarrow> fields) option"
  hc_bodyCaptureFunc :: "(http_request \<Rightarrow> bool) option"
  hc_bodyCapture :: capture_options

definition no_http_config :: http_config where
  "no_http_config = \<lparr>hc_routeTemplate = [], hc_routeTemplateFunc = None, hc_userIDFunc = None,
     hc_tenantIDFunc = None, hc_metadataFunc = None, hc_dataFunc = None, hc_bodyCaptureFunc = None,
     hc_bodyCapture = \<lparr>co_MaxBytes = 0, co_ContentTypes = []\<rparr>\<rparr>"

type_synonym http_option = "http_config \<Rightarrow> http_config"

definition HTTPRouteTemplate :: "string \<Rightarrow> http_option" where
  "HTTPRouteTemplate t = (\<lambda>c. c\<lparr>hc_routeTemplate := t\<rparr>)"

definition HTTPRouteTemplateFunc :: "(http_request \<Rightarrow> string) option \<Rightarrow> http_option" where
  "HTTPRouteTemplateFunc fn = (\<lambda>c. c\<lparr>hc_routeTemplateFunc := fn\<rparr>)"

definition HTTPUserIDFunc :: "(http_request \<Rightarrow> string) option \<Rightarrow> http_option" where
  "HTTPUserIDFunc fn = (\<lambda>c. c\<lparr>hc_userIDFunc := fn\<rparr>)"

definition HTTPTenantIDFunc :: "(http_request \<Rightarrow> string) option \<Rightarrow> http_option" where
  "HTTPTenantIDFunc fn = (\<lambda>c. c\<lparr>hc_tenantIDFunc := fn\<rparr>)"

definition HTTPMetadataFunc :: "(http_request \<Rightarrow> fields) option \<Rightarrow> http_option" where
  "HTTPMetadataFunc fn = (\<lambda>c. c\<lparr>hc_metadataFunc := fn\<rparr>)"

definition HTTPDataFunc :: "(http_request \<Rightarrow> fields) option \<Rightarrow> http_option" where
  "HTTPDataFunc fn = (\<lambda>c. c\<lparr>hc_dataFunc := fn\<rparr>)"

definition HTTPRequestBodyCaptureFunc ::
  "(http_request \<Rightarrow> bool) option \<Rightarrow> int \<Rightarrow> string list \<Rightarrow> http_option" where
  "HTTPRequestBodyCaptureFunc fn maxBytes contentTypes =
     (\<lambda>c. c\<lparr>hc_bodyCaptureFunc := fn,
            hc_bodyCapture := \<lparr>co_MaxBytes = maxBytes, co_ContentTypes = contentTypes\<rparr>\<rparr>)"

definition HTTPRequestBodyCapture :: "int \<Rightarrow> string list \<Rightarrow> http_option" where
  "HTTPRequestBodyCapture maxBytes contentTypes =
     HTTPRequestBodyCaptureFunc (Some (\<lambda>_. True)) maxBytes contentTypes"

definition routeTemplateFor :: "http_config \<Rightarrow> http_request \<Rightarrow> string" where
  "routeTemplateFor cfg r =
     firstNonEmpty
       [case hc_routeTemplateFunc cfg of None \<Rightarrow> [] | Some fn \<Rightarrow> trim_space (fn r),
        hc_routeTemplate cfg, hq_Pattern r, hq_Path r]"

definition http_userID :: "http_config \<Rightarrow> http_request \<Rightarrow> string" where
  "http_userID cfg r = (case hc_userIDFunc cfg of None \<Rightarrow> [] | Some fn \<Rightarrow> fn r)"

definition http_tenantID :: "http_config \<Rightarrow> http_request \<Rightarrow> string" where
  "http_tenantID cfg r = (case hc_tenantIDFunc cfg of None \<Rightarrow> [] | Some fn \<Rightarrow> fn r)"

definition http_metadata :: "http_config \<Rightarrow> http_request \<Rightarrow> fields" where
  "http_metadata cfg r = (case hc_metadataFunc cfg of None \<Rightarrow> None | Some fn \<Rightarrow> fn r)"

definition http_data :: "(string \<Rightarrow> string) \<Rightarrow> http_config \<Rightarrow> http_request \<Rightarrow> fields \<times> http_request" where
  "http_data lower cfg r =
     (let data = (case hc_dataFunc cfg of None \<Rightarrow> None | Some fn \<Rightarrow> fn r)
      in case hc_bodyCaptureFunc cfg of
           None \<Rightarrow> (data, r)
         | Some wanted \<Rightarrow>
           (if \<not> wanted r then (data, r)
            else (case CaptureHTTPRequestBody lower (hc_bodyCapture cfg) r of
                    (None, r) \<Rightarrow> (data, r)
                  | (Some body, r) \<Rightarrow> (mergeFields data (Some body), r))))"

text \<open>The recorder keeps the code of every \<open>WriteHeader\<close> call; without one it stays at 200.\<close>

definition recorded_status :: "int list \<Rightarrow> int" where
  "recorded_status codes = fold (\<lambda>code _. code) codes 200"

text \<open>A handler's calls of \<open>WriteHeader\<close>, None when it panics.\<close>

type_synonym 'w handler = "http_request \<Rightarrow> 'w client \<Rightarrow> int list option \<times> 'w client"

definition http_start_options ::
  "http_config \<Rightarrow> http_request \<Rightarrow> fields \<Rightarrow> request_start" where
  "http_start_options cfg r data = \<lparr>
     rs_RequestID = firstHeader r [''X-LogCenter-Request-Id'', ''X-Request-Id''],
     rs_TraceID = fst (traceFromHeaders r),
     rs_SpanID = snd (traceFromHeaders r),
     rs_UserID = http_userID cfg r,
     rs_TenantID = http_tenantID cfg r,
     rs_Operation = [],
     rs_Method = hq_Method r,
     rs_Path = hq_Path r,
     rs_RouteTemplate = routeTemplateFor cfg r,
     rs_StartedAt = zero_time,
     rs_Metadata = mergeFields (Some [(''remote_addr'', GStr (hq_RemoteAddr r)),
        (''user_agent'', GStr (hq_header r ''User-Agent''))]) (http_metadata cfg r),
     rs_Data = data\<rparr>"

definition status_of_code :: "int \<Rightarrow> string" where
  "status_of_code code = (if code \<ge> 500 then StatusFailed else StatusSuccess)"

definition http_end_options :: "int \<Rightarrow> request_end" where
  "http_end_options code = \<lparr>re_Status = status_of_code code, re_HTTPStatus = Some code,
     re_FinishedAt = zero_time, re_Metadata = None, re_Data = None\<rparr>"

text \<open>The answer says whether the handler returned; a panic of the handler passes through, past
  the call of \<open>End\<close>.\<close>

definition HTTPMiddleware ::
  "'w library \<Rightarrow> http_option list \<Rightarrow> 'w handler \<Rightarrow> http_request \<Rightarrow> 'w client \<Rightarrow>
   bool \<times> 'w client" where
  "HTTPMiddleware L options handler r c =
     (let cfg = fold (\<lambda>option cfg. option cfg) options no_http_config
      in case http_data (lib_lower L) cfg r of (data, r) \<Rightarrow>
        (case StartRequest L (Request_ctx r) (http_start_options cfg r data) c of
           ((ctx, req), c) \<Rightarrow>
             (case handler (r\<lparr>hq_context := ctx\<rparr>) c of
                (None, c) \<Rightarrow> (False, c)
              | (Some codes, c) \<Rightarrow>
                (True, snd (snd (Request_End L (http_end_options (recorded_status codes)) req c))))))"

section \<open>The middleware of gin\<close>

text \<open>The package has its own copies of the helpers of \<open>http.go\<close>; they do the same.\<close>

fun gin_firstHeader :: "http_request \<Rightarrow> string list \<Rightarrow> string" where
  "gin_firstHeader r [] = []"
| "gin_firstHeader r (name # names) =
     (let value = trim_space (hq_header r name) in if value \<noteq> [] then value else gin_firstHeader r names)"

definition gin_traceFromRequest :: "http_request \<Rightarrow> string \<times> string" where
  "gin_traceFromRequest r =
     (let traceID = gin_firstHeader r [''X-LogCenter-Trace-Id'', ''X-Trace-Id'']
      in if traceID \<noteq> [] then (traceID, [])
         else (case split_on (CHR ''-'') (gin_firstHeader r [''Traceparent'']) of
                 [version, trace, parent, flags] \<Rightarrow> if version = ''00'' then (trace, parent) else ([], [])
               | _ \<Rightarrow> ([], [])))"

definition gin_mergeFields :: "fields \<Rightarrow> fields \<Rightarrow> fields" where
  "gin_mergeFields left right =
     (if entries_of left = [] \<and> entries_of right = [] then None
      else Some (fold (\<lambda>(k, v) m. entry_set k v m) (entries_of right)
                   (fold (\<lambda>(k, v) m. entry_set k v m) (entries_of left) [])))"

lemma gin_helpers_same:
  "gin_firstHeader r names = firstHeader r names" "gin_traceFromRequest r = traceFromHeaders r"
  "gin_mergeFields left right = mergeFields left right"
proof -
  show first: "gin_firstHeader r names = firstHeader r names" for names by (induction names) (simp_all add: Let_def)
  show "gin_traceFromRequest r = traceFromHeaders r" by (simp only: gin_traceFromRequest_def traceFromHeaders_def first)
  show "gin_mergeFields left right = mergeFields left right" by (simp add: gin_mergeFields_def mergeFields_def)
qed

record gin_context =
  gc_Request :: http_request
  gc_FullPath :: string
  gc_ClientIP :: string

record gin_config =
  gf_routeTemplateFunc :: "(gin_context \<Rightarrow> string) option"
  gf_operationFunc :: "(gin_context \<Rightarrow> string) option"
  gf_userIDFunc :: "(gin_context \<Rightarrow> string) option"
  gf_tenantIDFunc :: "(gin_context \<Rightarrow> string) option"
  gf_metadataFunc :: "(gin_context \<Rightarrow> fields) option"
  gf_dataFunc :: "(gin_context \<Rightarrow> fields) option"
  gf_bodyCaptureFunc :: "(gin_context \<Rightarrow> bool) option"
  gf_bodyCapture :: capture_options
  gf_panicCode :: string

definition no_gin_config :: gin_config where
  "no_gin_config = \<lparr>gf_routeTemplateFunc = None, gf_operationFunc = None, gf_userIDFunc = None,
     gf_tenantIDFunc = None, gf_metadataFunc = None, gf_dataFunc = None, gf_bodyCaptureFunc = None,
     gf_bodyCapture = \<lparr>co_MaxBytes = 0, co_ContentTypes = []\<rparr>, gf_panicCode = []\<rparr>"

type_synonym gin_option = "gin_config \<Rightarrow> gin_config"

definition RouteTemplateFunc :: "(gin_context \<Rightarrow> string) option \<Rightarrow> gin_option" where
  "RouteTemplateFunc fn = (\<lambda>c. c\<lparr>gf_routeTemplateFunc := fn\<rparr>)"

definition OperationFunc :: "(gin_context \<Rightarrow> string) option \<Rightarrow> gin_option" where
  "OperationFunc fn = (\<lambda>c. c\<lparr>gf_operationFunc := fn\<rparr>)"

definition UserIDFunc :: "(gin_context \<Rightarrow> string) option \<Rightarrow> gin_option" where
  "UserIDFunc fn = (\<lambda>c. c\<lparr>gf_userIDFunc := fn\<rparr>)"

definition TenantIDFunc :: "(gin_context \<Rightarrow> string) option \<Rightarrow> gin_option" where
  "TenantIDFunc fn = (\<lambda>c. c\<lparr>gf_tenantIDFunc := fn\<rparr>)"

definition MetadataFunc :: "(gin_context \<Rightarrow> fields) option \<Rightarrow> gin_option" where
  "MetadataFunc fn = (\<lambda>c. c\<lparr>gf_metadataFunc := fn\<rparr>)"

definition DataFunc :: "(gin_context \<Rightarrow> fields) option \<Rightarrow> gin_option" where
  "DataFunc fn = (\<lambda>c. c\<lparr>gf_dataFunc := fn\<rparr>)"

definition RequestBodyCaptureFunc ::
  "(gin_context \<Rightarrow> bool) option \<Rightarrow> int \<Rightarrow> string list \<Rightarrow> gin_option" where
  "RequestBodyCaptureFunc fn maxBytes contentTypes =
     (\<lambda>c. c\<lparr>gf_bodyCaptureFunc := fn,
            gf_bodyCapture := \<lparr>co_MaxBytes = maxBytes, co_ContentTypes = contentTypes\<rparr>\<rparr>)"

definition RequestBodyCapture :: "int \<Rightarrow> string list \<Rightarrow> gin_option" where
  "RequestBodyCapture maxBytes contentTypes =
     RequestBodyCaptureFunc (Some (\<lambda>_. True)) maxBytes contentTypes"

definition PanicCode :: "string \<Rightarrow> gin_option" where
  "PanicCode code = (\<lambda>c. c\<lparr>gf_panicCode := code\<rparr>)"

definition gin_newConfig :: "gin_option list \<Rightarrow> gin_config" where
  "gin_newConfig options = fold (\<lambda>option cfg. option cfg) options no_gin_config"

definition gin_routeTemplate :: "gin_config \<Rightarrow> gin_context \<Rightarrow> string" where
  "gin_routeTemplate cfg g =
     firstNonEmpty
       [case gf_routeTemplateFunc cfg of None \<Rightarrow> [] | Some fn \<Rightarrow> trim_space (fn g),
        gc_FullPath g, hq_Path (gc_Request g)]"

definition gin_operation :: "gin_config \<Rightarrow> gin_context \<Rightarrow> string \<Rightarrow> string" where
  "gin_operation cfg g routeTemplate =
     firstNonEmpty
       [case gf_operationFunc cfg of None \<Rightarrow> [] | Some fn \<Rightarrow> trim_space (fn g),
        hq_Method (gc_Request g) @ '' '' @ routeTemplate]"

definition gin_userID :: "gin_config \<Rightarrow> gin_context \<Rightarrow> string" where
  "gin_userID cfg g = (case gf_userIDFunc cfg of None \<Rightarrow> [] | Some fn \<Rightarrow> fn g)"

definition gin_tenantID :: "gin_config \<Rightarrow> gin_context \<Rightarrow> string" where
  "gin_tenantID cfg g = (case gf_tenantIDFunc cfg of None \<Rightarrow> [] | Some fn \<Rightarrow> fn g)"

definition gin_metadata :: "gin_config \<Rightarrow> gin_context \<Rightarrow> fields" where
  "gin_metadata cfg g = (case gf_metadataFunc cfg of None \<Rightarrow> None | Some fn \<Rightarrow> fn g)"

definition gin_data :: "(string \<Rightarrow> string) \<Rightarrow> gin_config \<Rightarrow> gin_context \<Rightarrow> fields \<times> gin_context" where
  "gin_data lower cfg g =
     (let data = (case gf_dataFunc cfg of None \<Rightarrow> None | Some fn \<Rightarrow> fn g)
      in case gf_bodyCaptureFunc cfg of
           None \<Rightarrow> (data, g)
         | Some wanted \<Rightarrow>
           (if \<not> wanted g then (data, g)
            else (case CaptureHTTPRequestBody lower (gf_bodyCapture cfg) (gc_Request g) of
                    (None, r) \<Rightarrow> (data, g\<lparr>gc_Request := r\<rparr>)
                  | (Some body, r) \<Rightarrow> (gin_mergeFields data (Some body), g\<lparr>gc_Request := r\<rparr>))))"

text \<open>
  What \<open>c.Next()\<close> leaves: the panic that comes out of it, if any, the context with the request as
  the handlers left it, and the writer's status code and whether it has written.
\<close>

record gin_outcome =
  go_panic :: "string option"
  go_context :: gin_context
  go_status :: int
  go_written :: bool

type_synonym 'w gin_handler = "gin_context \<Rightarrow> 'w client \<Rightarrow> gin_outcome \<times> 'w client"

definition gin_start_options ::
  "gin_config \<Rightarrow> gin_context \<Rightarrow> fields \<Rightarrow> request_start" where
  "gin_start_options cfg g data =
     (let r = gc_Request g; routeTemplate = gin_routeTemplate cfg g
      in \<lparr>rs_RequestID = gin_firstHeader r [''X-LogCenter-Request-Id'', ''X-Request-Id''],
          rs_TraceID = fst (gin_traceFromRequest r),
          rs_SpanID = snd (gin_traceFromRequest r),
          rs_UserID = gin_userID cfg g,
          rs_TenantID = gin_tenantID cfg g,
          rs_Operation = gin_operation cfg g routeTemplate,
          rs_Method = hq_Method r,
          rs_Path = hq_Path r,
          rs_RouteTemplate = routeTemplate,
          rs_StartedAt = zero_time,
          rs_Metadata = gin_mergeFields (Some [(''client_ip'', GStr (gc_ClientIP g)),
             (''user_agent'', GStr (hq_header r ''User-Agent''))]) (gin_metadata cfg g),
          rs_Data = data\<rparr>)"

definition gin_code :: "int \<Rightarrow> int" where
  "gin_code status = (if status = 0 then 200 else status)"

definition Middleware ::
  "'w library \<Rightarrow> gin_option list \<Rightarrow> 'w gin_handler \<Rightarrow> 'w gin_handler" where
  "Middleware L options next g c =
     (let cfg = gin_newConfig options
      in case gin_data (lib_lower L) cfg g of (data, g) \<Rightarrow>
        (case StartRequest L (Request_ctx (gc_Request g)) (gin_start_options cfg g data) c of
           ((ctx, req), c) \<Rightarrow>
             (case next (g\<lparr>gc_Request := (gc_Request g)\<lparr>hq_context := ctx\<rparr>\<rparr>) c of
                (out, c) \<Rightarrow>
                  (if go_panic out \<noteq> None then (out, c)
                   else (out, snd (snd (Request_EndWithContext L (Request_ctx (gc_Request (go_context out)))
                          (http_end_options (gin_code (go_status out))) req c)))))))"

definition panic_options ::
  "(string \<Rightarrow> string) \<Rightarrow> gin_config \<Rightarrow> gin_context \<Rightarrow> string \<Rightarrow> error_options \<times> gin_context" where
  "panic_options lower cfg g stack =
     (case gin_data lower cfg g of (data, g') \<Rightarrow>
       (no_error_options\<lparr>
          eo_Code := or_else (gf_panicCode cfg) ''PANIC'',
          eo_Type := ''panic'',
          eo_Severity := SeverityError,
          eo_StackTrace := stack,
          eo_Metadata := gin_mergeFields (Some [(''method'', GStr (hq_Method (gc_Request g))),
             (''path'', GStr (hq_Path (gc_Request g))),
             (''route_template'', GStr (gin_routeTemplate cfg g)),
             (''client_ip'', GStr (gc_ClientIP g))]) (gin_metadata cfg g),
          eo_Data := data\<rparr>, g'))"

text \<open>\<open>stack\<close> is what \<open>debug.Stack\<close> returns.\<close>

definition Recovery ::
  "'w library \<Rightarrow> gin_option list \<Rightarrow> string \<Rightarrow> 'w gin_handler \<Rightarrow> 'w gin_handler" where
  "Recovery L options stack next g c =
     (case next g c of (out, c) \<Rightarrow>
       (case go_panic out of
          None \<Rightarrow> (out, c)
        | Some recovered \<Rightarrow>
          (case panic_options (lib_lower L) (gin_newConfig options) (go_context out) stack of (opts, g) \<Rightarrow>
             (let c = (case RecordError L (Request_ctx (gc_Request (go_context out)))
                         (Some (PlainError (''panic: '' @ recovered))) opts c of
                         None \<Rightarrow> c | Some (_, c) \<Rightarrow> c)
              in (out\<lparr>go_panic := None, go_context := g,
                      go_status := (if go_written out then go_status out else 500),
                      go_written := True\<rparr>, c)))))"

definition gin_update :: "(goctx \<Rightarrow> goctx option) \<Rightarrow> gin_context \<Rightarrow> gin_context option" where
  "gin_update f g =
     map_option (\<lambda>ctx. g\<lparr>gc_Request := (gc_Request g)\<lparr>hq_context := ctx\<rparr>\<rparr>) (f (Request_ctx (gc_Request g)))"

definition SetRequestContext :: "gin_context \<Rightarrow> request_context \<Rightarrow> gin_context option" where
  "SetRequestContext g request = gin_update (\<lambda>ctx. ContextWithRequest ctx request) g"

definition SetUserID :: "gin_context \<Rightarrow> string \<Rightarrow> gin_context option" where
  "SetUserID g userID = gin_update (\<lambda>ctx. ContextWithUser ctx userID) g"

definition SetTenantID :: "gin_context \<Rightarrow> string \<Rightarrow> gin_context option" where
  "SetTenantID g tenantID = gin_update (\<lambda>ctx. ContextWithTenant ctx tenantID) g"

definition SetIdentity :: "gin_context \<Rightarrow> string \<Rightarrow> string \<Rightarrow> gin_context option" where
  "SetIdentity g userID tenantID =
     (case SetUserID g userID of None \<Rightarrow> None | Some g \<Rightarrow> SetTenantID g tenantID)"

definition SetOperation :: "gin_context \<Rightarrow> string \<Rightarrow> gin_context option" where
  "SetOperation g operation = gin_update (\<lambda>ctx. ContextWithOperation ctx operation) g"

section \<open>Trace headers\<close>

text \<open>
  A W3C trace header is read back as it was written.  When no trace header of its own is
  present and the trimmed \<open>traceparent\<close> is version 00 with a trace id, a parent id and flags joined
  by hyphens, the middleware takes over exactly that trace id and that parent; and whatever
  the headers hold, it takes both or neither from \<open>traceparent\<close>.
\<close>
theorem traceparent_roundtrip:
  assumes "firstHeader r [''X-LogCenter-Trace-Id'', ''X-Trace-Id''] = []"
    and "trim_space (hq_header r ''Traceparent'') = join ''-'' [''00'', trace, parent, flags]"
    and "CHR ''-'' \<notin> set trace" and "CHR ''-'' \<notin> set parent" and "CHR ''-'' \<notin> set flags"
  shows "traceFromHeaders r = (trace, parent)"
proof -
  have "join ''-'' [''00'', trace, parent, flags] = ''00'' @ CHR ''-'' # trace @ CHR ''-'' # parent @ CHR ''-'' # flags"
    by simp
  then have "split_on (CHR ''-'') (join ''-'' [''00'', trace, parent, flags]) = [''00'', trace, parent, flags]"
    using split_on_cons [of "CHR ''-''" "''00''"] split_on_cons [OF assms(3)] split_on_cons [OF assms(4)] split_on_none [OF assms(5)]
    by simp
  moreover have "firstHeader r [''Traceparent''] = join ''-'' [''00'', trace, parent, flags]"
    using assms(2) by (simp add: Let_def)
  ultimately show ?thesis using assms(1) by (simp add: traceFromHeaders_def)
qed

section \<open>What a middleware records\<close>

lemma http_data_same: "http_data lower cfg r = (data, r') \<Longrightarrow> r' = r"
  using capture_same [of lower "hc_bodyCapture cfg" r]
  by (auto simp: http_data_def Let_def split: option.splits if_splits prod.splits)

lemma gin_data_same: "gin_data lower cfg g = (data, g') \<Longrightarrow> g' = g"
  using capture_same [of lower "gf_bodyCapture cfg" "gc_Request g"]
  by (auto simp: gin_data_def Let_def split: option.splits if_splits prod.splits)

lemma end_effect:
  assumes "\<not> rq_ended req"
  shows "\<exists>t c1. instant_or_now L (re_FinishedAt opts) c = (t, c1) \<and>
    snd (snd (Request_EndWithContext L ctx opts req c)) =
      snd (enqueue L (request_finished_event opts (mergeRequestContext (rq_context req) ctx) req t) c1)"
proof -
  obtain t c1 where t: "instant_or_now L (re_FinishedAt opts) c = (t, c1)" by (cases "instant_or_now L (re_FinishedAt opts) c")
  with assms show ?thesis by (auto simp: Request_EndWithContext_def Let_def split: prod.split)
qed

text \<open>A header value without white space at its ends, as the middleware reads it.\<close>

abbreviation header_text :: "http_request \<Rightarrow> string \<Rightarrow> string" where
  "header_text r name \<equiv> trim_space (hq_header r name)"

text \<open>
  The ids that a request's headers prescribe, written out header by header: the request id; the
  trace id of the SDK's own headers; and without those, trace and parent of a \<open>traceparent\<close> of
  version 00 with four parts.
\<close>

definition follows_headers :: "http_request \<Rightarrow> request_context \<Rightarrow> bool" where
  "follows_headers r rc \<longleftrightarrow>
     (header_text r ''X-LogCenter-Request-Id'' \<noteq> [] \<longrightarrow> rc_RequestID rc = header_text r ''X-LogCenter-Request-Id'') \<and>
     (header_text r ''X-LogCenter-Request-Id'' = [] \<and> header_text r ''X-Request-Id'' \<noteq> [] \<longrightarrow>
        rc_RequestID rc = header_text r ''X-Request-Id'') \<and>
     (header_text r ''X-LogCenter-Trace-Id'' \<noteq> [] \<longrightarrow> rc_TraceID rc = header_text r ''X-LogCenter-Trace-Id'') \<and>
     (header_text r ''X-LogCenter-Trace-Id'' = [] \<and> header_text r ''X-Trace-Id'' \<noteq> [] \<longrightarrow>
        rc_TraceID rc = header_text r ''X-Trace-Id'') \<and>
     (\<forall>trace parent flags.
        header_text r ''X-LogCenter-Trace-Id'' = [] \<and> header_text r ''X-Trace-Id'' = [] \<and>
        header_text r ''Traceparent'' = ''00-'' @ trace @ ''-'' @ parent @ ''-'' @ flags \<and>
        CHR ''-'' \<notin> set (trace @ parent @ flags) \<longrightarrow>
          (trace \<noteq> [] \<longrightarrow> rc_TraceID rc = trace) \<and> (parent \<noteq> [] \<longrightarrow> rc_SpanID rc = parent))"

lemma started_follows_headers:
  assumes "StartRequest L ctx opts c = ((ctx', req), c')"
    and "rs_RequestID opts = firstHeader r [''X-LogCenter-Request-Id'', ''X-Request-Id'']"
    and "rs_TraceID opts = fst (traceFromHeaders r)" and "rs_SpanID opts = snd (traceFromHeaders r)"
  shows "follows_headers r (rq_context req)"
proof -
  note st = started_context(6-8) [OF assms(1), unfolded assms(2-4)]
  have ids: "(trace \<noteq> [] \<longrightarrow> rc_TraceID (rq_context req) = trace) \<and> (parent \<noteq> [] \<longrightarrow> rc_SpanID (rq_context req) = parent)"
    if "header_text r ''X-LogCenter-Trace-Id'' = []" "header_text r ''X-Trace-Id'' = []"
      "header_text r ''Traceparent'' = ''00-'' @ trace @ ''-'' @ parent @ ''-'' @ flags"
      "CHR ''-'' \<notin> set (trace @ parent @ flags)" for trace parent flags
  proof -
    have "traceFromHeaders r = (trace, parent)"
      using traceparent_roundtrip [of r trace parent flags] that by simp
    with st(2,3) show ?thesis by simp
  qed
  have "header_text r ''X-LogCenter-Trace-Id'' \<noteq> [] \<longrightarrow> rc_TraceID (rq_context req) = header_text r ''X-LogCenter-Trace-Id''"
    "header_text r ''X-LogCenter-Trace-Id'' = [] \<and> header_text r ''X-Trace-Id'' \<noteq> [] \<longrightarrow>
      rc_TraceID (rq_context req) = header_text r ''X-Trace-Id''"
    using st(2) by (auto simp: traceFromHeaders_def Let_def)
  with st(1) ids show ?thesis unfolding follows_headers_def by (simp add: Let_def)
qed

text \<open>
  C23: one request in, one start and one end event out.  The middleware starts a request with the
  method and path of the request and the ids that its headers prescribe: the request id of
  \<open>X-LogCenter-Request-Id\<close> or \<open>X-Request-Id\<close>, the trace id of \<open>X-LogCenter-Trace-Id\<close> or \<open>X-Trace-Id\<close>,
  and without these the trace id and the parent span id of \<open>traceparent\<close>.  It calls the handler with
  the request unchanged but for its context, which carries the ids of the start event, and, when the
  handler returns, records the end event with the same ids, the recorded status code, and failed
  exactly for 500 and above.  When the handler panics, no end event is recorded.
\<close>
theorem middleware_records:
  assumes "HTTPMiddleware L options handler r c = (ok, c')"
  shows "\<exists>opts ctx req c1 codes c2. StartRequest L (Request_ctx r) opts c = ((ctx, req), c1) \<and>
    rs_Method opts = hq_Method r \<and> rs_Path opts = hq_Path r \<and> follows_headers r (rq_context req) \<and>
    request_of ctx = rq_context req \<and>
    handler (r\<lparr>hq_context := ctx\<rparr>) c1 = (codes, c2) \<and> (ok \<longleftrightarrow> codes \<noteq> None) \<and>
    (case codes of
       None \<Rightarrow> c' = c2
     | Some codes \<Rightarrow> \<exists>e t c3. e = request_finished_event (http_end_options (recorded_status codes)) (rq_context req) req t \<and>
         c' = snd (enqueue L e c3) \<and> event_ids e = ids_of (rq_context req) \<and>
         ev_HTTPStatus e = Some (recorded_status codes) \<and>
         (ev_Status e = StatusFailed \<longleftrightarrow> recorded_status codes \<ge> 500))"
proof -
  define cfg where "cfg = fold (\<lambda>option cfg. option cfg) options no_http_config"
  obtain data where d: "http_data (lib_lower L) cfg r = (data, r)" using http_data_same by (metis prod.collapse)
  define opts where "opts = http_start_options cfg r data"
  obtain ctx req c1 where s: "StartRequest L (Request_ctx r) opts c = ((ctx, req), c1)" by (metis prod.collapse)
  note st = started_context [OF s]
  obtain codes c2 where h: "handler (r\<lparr>hq_context := ctx\<rparr>) c1 = (codes, c2)"
    by (cases "handler (r\<lparr>hq_context := ctx\<rparr>) c1")
  have ids: "request_of ctx = rq_context req" by (simp add: st(1) request_of_def ctx_or_background_def)
  have from_headers: "follows_headers r (rq_context req)"
    by (rule started_follows_headers [OF s]) (simp_all add: opts_def http_start_options_def)
  have route: "rs_Method opts = hq_Method r" "rs_Path opts = hq_Path r"
    by (simp_all add: opts_def http_start_options_def)
  show ?thesis
  proof (cases codes)
    case None
    then have "ok = False" "c' = c2"
      using assms d s h by (auto simp: HTTPMiddleware_def cfg_def [symmetric] opts_def [symmetric] Let_def)
    with None s h ids from_headers route show ?thesis by (intro exI [of _ opts]) auto
  next
    case (Some ws)
    let ?eo = "http_end_options (recorded_status ws)"
    have run: "ok" "c' = snd (snd (Request_EndWithContext L Background ?eo req c2))"
      using assms d s h Some
      by (auto simp: HTTPMiddleware_def Request_End_def cfg_def [symmetric] opts_def [symmetric] Let_def)
    obtain t c3 where e: "c' = snd (enqueue L (request_finished_event ?eo (rq_context req) req t) c3)"
      using end_effect [of req L ?eo c2 Background] st(2) run(2)
      by (auto simp: Background_def mergeRequestContext_def)
    have distinct: "StatusFailed \<noteq> StatusSuccess" "StatusFailed \<noteq> []" "StatusSuccess \<noteq> []" by (simp_all add: status_defs)
    let ?e = "request_finished_event ?eo (rq_context req) req t"
    have "event_ids ?e = ids_of (rq_context req)" "ev_HTTPStatus ?e = Some (recorded_status ws)"
      "ev_Status ?e = StatusFailed \<longleftrightarrow> recorded_status ws \<ge> 500"
      using distinct by (auto simp: request_finished_event_def event_ids_def ids_of_def http_end_options_def
          status_of_code_def or_else_def)
    with Some s h ids from_headers route run(1) e show ?thesis by (intro exI [of _ opts]) auto
  qed
qed

text \<open>What \<open>net/http\<close> sends: the first final code; calls after it are ignored, informational codes
  other than 101 do not count.\<close>

definition wire_status :: "int list \<Rightarrow> int" where
  "wire_status codes =
     (case filter (\<lambda>code. \<not> (100 \<le> code \<and> code \<le> 199 \<and> code \<noteq> 101)) codes of [] \<Rightarrow> 200 | code # _ \<Rightarrow> code)"

text \<open>
  The recorded status is not always the one sent.  It is for a handler that makes at most one
  call of \<open>WriteHeader\<close>, with a final code.  A superfluous later call, which \<open>net/http\<close> ignores,
  changes the record: a 503 is recorded as a success; and an informational code sent before an
  implicit 200 is recorded as the final one.
\<close>

theorem recorded_status_gap:
  "recorded_status [] = wire_status [] \<and> recorded_status [code] = code \<and>
   wire_status [code] = (if 100 \<le> code \<and> code \<le> 199 \<and> code \<noteq> 101 then 200 else code) \<and>
   status_of_code (recorded_status [503, 200]) = StatusSuccess \<and> wire_status [503, 200] = 503"
  by (auto simp: recorded_status_def wire_status_def status_of_code_def)

lemma RecordError_total: "ctx \<noteq> NilCtx \<Longrightarrow> \<exists>b c'. RecordError L ctx err opts c = Some (b, c')"
  by (cases ctx) (auto simp: RecordError_def RequestFromContext_def split: option.split intro: prod.exhaust)

text \<open>
  C24: a panic inside gin's middleware is recorded and the request is still ended.  With \<open>Recovery\<close>
  inside \<open>Middleware\<close>, no panic leaves the middleware, and a handler that panics yields an error event
  of type panic for the request's context and then an end event.  When the handler had written
  nothing, the answer is a 500, and the end event has status code 500 and is marked failed; when it
  had already written, the status it wrote stands, and the end event is marked failed only if that
  is 500 or above.
\<close>
theorem gin_panic_recorded:
  assumes "Middleware L options (Recovery L roptions stack next) g c = (out, c')"
  shows "go_panic out = None \<and>
    (\<exists>start ctx req c1 o1 c2.
       StartRequest L (Request_ctx (gc_Request g)) start c = ((ctx, req), c1) \<and>
       next (g\<lparr>gc_Request := (gc_Request g)\<lparr>hq_context := ctx\<rparr>\<rparr>) c1 = (o1, c2) \<and>
       (\<forall>why. go_panic o1 = Some why \<longrightarrow>
          (\<exists>opts b c3 ctx2 t c4 code e. eo_Type opts = ''panic'' \<and> eo_StackTrace opts = stack \<and>
             RecordError L (Request_ctx (gc_Request (go_context o1))) (Some (PlainError (''panic: '' @ why))) opts c2 = Some (b, c3) \<and>
             instant_or_now L zero_time c3 = (t, c4) \<and>
             code = (if \<not> go_written o1 then 500 else if go_status o1 = 0 then 200 else go_status o1) \<and>
             e = request_finished_event (http_end_options code) (mergeRequestContext (rq_context req) ctx2) req t \<and>
             (\<not> go_written o1 \<longrightarrow> go_status out = 500 \<and> ev_Status e = StatusFailed) \<and>
             (ev_Status e = StatusFailed \<longleftrightarrow> code \<ge> 500) \<and> ev_HTTPStatus e = Some code \<and>
             c' = snd (enqueue L e c4))))"
proof -
  define cfg where "cfg = gin_newConfig options"
  obtain data where d: "gin_data (lib_lower L) cfg g = (data, g)" using gin_data_same by (metis prod.collapse)
  obtain ctx req c1 where s: "StartRequest L (Request_ctx (gc_Request g)) (gin_start_options cfg g data) c = ((ctx, req), c1)"
    by (metis prod.collapse)
  note st = started_context [OF s]
  let ?g = "g\<lparr>gc_Request := (gc_Request g)\<lparr>hq_context := ctx\<rparr>\<rparr>"
  obtain o1 c2 where n: "next ?g c1 = (o1, c2)" by (cases "next ?g c1")
  obtain o2 c5 where rec: "Recovery L roptions stack next ?g c1 = (o2, c5)" by (metis prod.collapse)
  have quiet: "go_panic o2 = None"
    using rec n by (auto simp: Recovery_def Let_def split: option.splits prod.splits)
  let ?ctx2 = "Request_ctx (gc_Request (go_context o2))"
  have "Middleware L options (Recovery L roptions stack next) g c =
      (o2, snd (snd (Request_EndWithContext L ?ctx2 (http_end_options (gin_code (go_status o2))) req c5)))"
    using d s rec quiet by (simp add: Middleware_def cfg_def [symmetric] Let_def)
  then have out: "out = o2" "c' = snd (snd (Request_EndWithContext L ?ctx2 (http_end_options (gin_code (go_status o2))) req c5))"
    using assms by simp_all
  have panicked: "\<exists>opts b ctx2 t c4 code e. eo_Type opts = ''panic'' \<and> eo_StackTrace opts = stack \<and>
      RecordError L (Request_ctx (gc_Request (go_context o1))) (Some (PlainError (''panic: '' @ why))) opts c2 = Some (b, c5) \<and>
      instant_or_now L zero_time c5 = (t, c4) \<and>
      code = (if \<not> go_written o1 then 500 else if go_status o1 = 0 then 200 else go_status o1) \<and>
      e = request_finished_event (http_end_options code) (mergeRequestContext (rq_context req) ctx2) req t \<and>
      (\<not> go_written o1 \<longrightarrow> go_status out = 500 \<and> ev_Status e = StatusFailed) \<and>
      (ev_Status e = StatusFailed \<longleftrightarrow> code \<ge> 500) \<and> ev_HTTPStatus e = Some code \<and> c' = snd (enqueue L e c4)"
    if why: "go_panic o1 = Some why" for why
  proof -
    obtain opts g2 where po: "panic_options (lib_lower L) (gin_newConfig roptions) (go_context o1) stack = (opts, g2)"
      by (cases "panic_options (lib_lower L) (gin_newConfig roptions) (go_context o1) stack")
    have ty: "eo_Type opts = ''panic''" "eo_StackTrace opts = stack"
      using po by (auto simp: panic_options_def split: prod.splits)
    let ?ctx = "Request_ctx (gc_Request (go_context o1))"
    have "?ctx \<noteq> NilCtx" by (simp add: Request_ctx_def ctx_or_background_def Background_def)
    from RecordError_total [OF this] obtain b c3
      where re: "RecordError L ?ctx (Some (PlainError (''panic: '' @ why))) opts c2 = Some (b, c3)" by blast
    have o2: "c5 = c3" "go_status o2 = (if go_written o1 then go_status o1 else 500)"
      using rec n why po re by (auto simp: Recovery_def Let_def)
    define code where "code = gin_code (go_status o2)"
    have code: "code = (if \<not> go_written o1 then 500 else if go_status o1 = 0 then 200 else go_status o1)"
      by (simp add: code_def o2(2) gin_code_def)
    obtain t c4 where t: "instant_or_now L zero_time c5 = (t, c4)"
      and e: "c' = snd (enqueue L (request_finished_event (http_end_options code)
        (mergeRequestContext (rq_context req) ?ctx2) req t) c4)"
      using end_effect [of req L "http_end_options code" c5 ?ctx2] st(2) out(2)
      by (auto simp: http_end_options_def code_def)
    define e where "e = request_finished_event (http_end_options code) (mergeRequestContext (rq_context req) ?ctx2) req t"
    have status: "ev_Status e = StatusFailed \<longleftrightarrow> code \<ge> 500" "ev_HTTPStatus e = Some code"
      by (auto simp: e_def request_finished_event_def http_end_options_def status_of_code_def or_else_def status_defs)
    have unwritten: "\<not> go_written o1 \<longrightarrow> go_status out = 500 \<and> ev_Status e = StatusFailed"
      unfolding status(1) by (simp add: out(1) o2(2) code)
    show ?thesis using ty re [folded o2(1)] t e [folded e_def] code status unwritten e_def by blast
  qed
  show ?thesis
    using quiet out(1) s n panicked
    by (intro conjI exI [of _ "gin_start_options cfg g data"] exI [of _ ctx] exI [of _ req] exI [of _ c1]
        exI [of _ o1] exI [of _ c2]) blast+
qed

end
