(* ===== verification/Round_Tripper.thy ===== *)
theory Round_Tripper
  imports Http_Middleware
begin

text \<open>
  \<open>logcenter/roundtripper.go\<close>: the instrumented transport, which wraps another one and records a
  span for each request.  The wrapped transport is a parameter: given the request and the client it
  answers with a response, an error and the error of the request's context at that time.
\<close>

section \<open>The code\<close>

record http_response =
  rp_StatusCode :: int

type_synonym round_trip_fields = "http_request \<Rightarrow> http_response option \<Rightarrow> go_error option \<Rightarrow> fields"

record rt_config =
  rt_spanNameFunc :: "(http_request \<Rightarrow> string) option"
  rt_metadataFunc :: "round_trip_fields option"
  rt_dataFunc :: "round_trip_fields option"
  rt_errorCode :: string

definition no_rt_config :: rt_config where
  "no_rt_config = \<lparr>rt_spanNameFunc = None, rt_metadataFunc = None, rt_dataFunc = None, rt_errorCode = []\<rparr>"

type_synonym rt_option = "rt_config \<Rightarrow> rt_config"

definition RoundTripperSpanNameFunc :: "(http_request \<Rightarrow> string) option \<Rightarrow> rt_option" where
  "RoundTripperSpanNameFunc fn = (\<lambda>c. c\<lparr>rt_spanNameFunc := fn\<rparr>)"

definition RoundTripperSpanName :: "string \<Rightarrow> rt_option" where
  "RoundTripperSpanName name = RoundTripperSpanNameFunc (Some (\<lambda>_. name))"

definition RoundTripperMetadataFunc :: "round_trip_fields option \<Rightarrow> rt_option" where
  "RoundTripperMetadataFunc fn = (\<lambda>c. c\<lparr>rt_metadataFunc := fn\<rparr>)"

definition RoundTripperDataFunc :: "round_trip_fields option \<Rightarrow> rt_option" where
  "RoundTripperDataFunc fn = (\<lambda>c. c\<lparr>rt_dataFunc := fn\<rparr>)"

definition RoundTripperErrorCode :: "string \<Rightarrow> rt_option" where
  "RoundTripperErrorCode code = (\<lambda>c. c\<lparr>rt_errorCode := code\<rparr>)"

type_synonym 'w transport =
  "http_request \<Rightarrow> 'w client \<Rightarrow> (http_response option \<times> go_error option \<times> go_error option) \<times> 'w client"

text \<open>\<open>client.RoundTripper\<close>: a nil base is replaced by the default transport.\<close>

definition RoundTripper :: "'w transport \<Rightarrow> 'w transport option \<Rightarrow> rt_option list \<Rightarrow> rt_config \<times> 'w transport" where
  "RoundTripper default_transport base options =
     (fold (\<lambda>option cfg. option cfg) options no_rt_config,
      case base of None \<Rightarrow> default_transport | Some b \<Rightarrow> b)"

definition rt_spanName :: "rt_config \<Rightarrow> http_request \<Rightarrow> string" where
  "rt_spanName cfg req =
     firstNonEmpty
       [case rt_spanNameFunc cfg of None \<Rightarrow> [] | Some fn \<Rightarrow> trim_space (fn req),
        if hq_Method req = [] then ''HTTP request'' else ''HTTP '' @ hq_Method req]"

definition rt_extraMetadata :: "rt_config \<Rightarrow> round_trip_fields" where
  "rt_extraMetadata cfg req resp err =
     (case rt_metadataFunc cfg of None \<Rightarrow> None | Some fn \<Rightarrow> fn req resp err)"

definition rt_metadata :: "rt_config \<Rightarrow> round_trip_fields" where
  "rt_metadata cfg req resp err =
     (let fs = [(''method'', GStr (hq_Method req)), (''scheme'', GStr (hq_Scheme req)),
                (''host'', GStr (hq_Host req)), (''path'', GStr (hq_Path req))];
          fs = (case resp of None \<Rightarrow> fs | Some r \<Rightarrow> fs @ [(''status_code'', GInt (rp_StatusCode r))]);
          fs = (case err of None \<Rightarrow> fs | Some e \<Rightarrow> fs @ [(''error'', GStr (error_text e))])
      in mergeFields (Some fs) (rt_extraMetadata cfg req resp err))"

definition rt_data :: "rt_config \<Rightarrow> round_trip_fields" where
  "rt_data cfg req resp err = (case rt_dataFunc cfg of None \<Rightarrow> None | Some fn \<Rightarrow> fn req resp err)"

definition rt_code :: "rt_config \<Rightarrow> string" where
  "rt_code cfg = (if trim_space (rt_errorCode cfg) \<noteq> [] then rt_errorCode cfg else ''HTTP_CLIENT_ERROR'')"

definition roundTripStatus :: "go_error option \<Rightarrow> http_response option \<Rightarrow> go_error option \<Rightarrow> string" where
  "roundTripStatus ctxErr resp err =
     (case err of
        Some e \<Rightarrow>
          if e = CanceledError \<or> ctxErr = Some CanceledError then StatusCanceled
          else if e = DeadlineExceeded \<or> ctxErr = Some DeadlineExceeded then StatusTimeout
          else StatusFailed
      | None \<Rightarrow>
        (case resp of
           Some r \<Rightarrow> if rp_StatusCode r \<ge> 500 then StatusFailed else StatusSuccess
         | None \<Rightarrow> StatusSuccess))"

definition round_trip_event ::
  "rt_config \<Rightarrow> http_request \<Rightarrow> request_context \<Rightarrow> string \<Rightarrow> instant \<Rightarrow> instant \<Rightarrow>
   http_response option \<Rightarrow> go_error option \<Rightarrow> go_error option \<Rightarrow> event" where
  "round_trip_event cfg req rc parent startedAt finishedAt resp err ctxErr = empty_event\<lparr>
     ev_EventType := EventTypeSpan,
     ev_RequestID := rc_RequestID rc,
     ev_TraceID := rc_TraceID rc,
     ev_SpanID := rc_SpanID rc,
     ev_ParentSpanID := parent,
     ev_UserID := rc_UserID rc,
     ev_TenantID := rc_TenantID rc,
     ev_Operation := rc_Operation rc,
     ev_Name := rt_spanName cfg req,
     ev_Kind := ''client'',
     ev_Status := roundTripStatus ctxErr resp err,
     ev_HTTPStatus := map_option rp_StatusCode resp,
     ev_StartedAt := formatTime startedAt,
     ev_FinishedAt := formatTime finishedAt,
     ev_DurationMS := Some (duration_ms startedAt finishedAt),
     ev_ErrorCode := (case err of None \<Rightarrow> [] | Some _ \<Rightarrow> rt_code cfg),
     ev_ErrorMessage := (case err of None \<Rightarrow> [] | Some e \<Rightarrow> error_text e),
     ev_Metadata := rt_metadata cfg req resp err,
     ev_Data := rt_data cfg req resp err\<rparr>"

definition round_trip_error ::
  "'w library \<Rightarrow> rt_config \<Rightarrow> http_request \<Rightarrow> request_context \<Rightarrow> http_response option \<Rightarrow> go_error option \<Rightarrow>
   'w client \<Rightarrow> 'w client" where
  "round_trip_error L cfg req rc resp err c =
     (case err of
        None \<Rightarrow> c
      | Some _ \<Rightarrow>
        (case RecordError L (Ctx (Some rc)) err
           (no_error_options\<lparr>eo_Code := rt_code cfg, eo_Type := ''http_client'', eo_Severity := SeverityError,
              eo_Metadata := rt_metadata cfg req resp err, eo_Data := rt_data cfg req resp err\<rparr>) c of
           None \<Rightarrow> c | Some (_, c) \<Rightarrow> c))"

text \<open>\<open>String\<close>: the name of the base's type is what \<open>%T\<close> prints for it.\<close>

definition RoundTripper_String :: "string \<Rightarrow> string" where
  "RoundTripper_String baseType = ''logcenter.InstrumentedRoundTripper{'' @ baseType @ ''}''"

text \<open>None is a nil request.  A request's context is never nil, so \<open>ensure_request\<close> answers.\<close>

definition RoundTrip ::
  "'w library \<Rightarrow> rt_config \<Rightarrow> 'w transport \<Rightarrow> http_request option \<Rightarrow> 'w client \<Rightarrow>
   ((http_response option \<times> go_error option) \<times> 'w client) option" where
  "RoundTrip L cfg base request c =
     (case request of
        None \<Rightarrow> Some ((None, Some (PlainError ''logcenter roundtripper: nil request'')), c)
      | Some req \<Rightarrow>
        (case ensure_request L (Request_ctx req) c of
           None \<Rightarrow> None
         | Some ((_, r), c) \<Rightarrow>
           (case newID L ''spn_'' c of (spanID, c) \<Rightarrow>
             (let rc = r\<lparr>rc_SpanID := spanID\<rparr>; req = req\<lparr>hq_context := Ctx (Some rc)\<rparr>
              in case time_now L c of (startedAt, c) \<Rightarrow>
                (case base req c of ((resp, err, ctxErr), c) \<Rightarrow>
                (case time_now L c of (finishedAt, c) \<Rightarrow>
                  Some ((resp, err),
                    snd (enqueue L (round_trip_event cfg req rc (rc_SpanID r) startedAt finishedAt resp err ctxErr)
                      (round_trip_error L cfg req rc resp err c)))))))))"

section \<open>Properties\<close>

lemma Request_ctx_not_nil: "Request_ctx r \<noteq> NilCtx"
  by (simp add: Request_ctx_def ctx_or_background_def Background_def)

lemma ensure_request_total: "ctx \<noteq> NilCtx \<Longrightarrow> \<exists>r c'. ensure_request L ctx c = Some ((Ctx (Some r), r), c')"
proof -
  assume "ctx \<noteq> NilCtx"
  then have "\<exists>r0 b. RequestFromContext ctx = Some (r0, b)"
    by (cases ctx) (auto simp: RequestFromContext_def split: option.split)
  then obtain r0 b where r0: "RequestFromContext ctx = Some (r0, b)" by blast
  obtain req c1 where q: "new_unless L ''req_'' (rc_RequestID r0) c = (req, c1)"
    by (cases "new_unless L ''req_'' (rc_RequestID r0) c")
  obtain trc c2 where t: "new_unless L ''trc_'' (rc_TraceID r0) c1 = (trc, c2)"
    by (cases "new_unless L ''trc_'' (rc_TraceID r0) c1")
  from r0 q t \<open>ctx \<noteq> NilCtx\<close> show ?thesis
    by (simp add: ensure_request_def ensureRequestContext_def ContextWithRequest_def Let_def)
qed

text \<open>
  C27: the transport is transparent.  For every request it calls the wrapped transport once, with
  the request unchanged but for its context, which carries a span id of its own in the same
  trace, and returns exactly the response and the error it got; afterwards it records one span
  event, a child of the caller's span, with that response's code and that error's text.
\<close>
theorem round_trip_transparent:
  "\<exists>r c1 spanID c2 startedAt c3 resp err ctxErr c4 finishedAt c5 req' e.
     ensure_request L (Request_ctx req) c = Some ((Ctx (Some r), r), c1) \<and>
     newID L ''spn_'' c1 = (spanID, c2) \<and> spanID \<noteq> [] \<and> time_now L c2 = (startedAt, c3) \<and>
     req' = req\<lparr>hq_context := Ctx (Some (r\<lparr>rc_SpanID := spanID\<rparr>))\<rparr> \<and>
     base req' c3 = ((resp, err, ctxErr), c4) \<and> time_now L c4 = (finishedAt, c5) \<and>
     RoundTrip L cfg base (Some req) c =
       Some ((resp, err), snd (enqueue L e (round_trip_error L cfg req' (r\<lparr>rc_SpanID := spanID\<rparr>) resp err c5))) \<and>
     ev_EventType e = EventTypeSpan \<and> ev_SpanID e = spanID \<and> ev_ParentSpanID e = rc_SpanID r \<and>
     ev_TraceID e = rc_TraceID r \<and> ev_HTTPStatus e = map_option rp_StatusCode resp \<and>
     ev_ErrorMessage e = (case err of None \<Rightarrow> [] | Some x \<Rightarrow> error_text x)"
proof -
  obtain r c1 where e: "ensure_request L (Request_ctx req) c = Some ((Ctx (Some r), r), c1)"
    using ensure_request_total [OF Request_ctx_not_nil] by blast
  obtain spanID c2 where n: "newID L ''spn_'' c1 = (spanID, c2)" by (cases "newID L ''spn_'' c1")
  obtain t1 c3 where t: "time_now L c2 = (t1, c3)" by (cases "time_now L c2")
  let ?req = "req\<lparr>hq_context := Ctx (Some (r\<lparr>rc_SpanID := spanID\<rparr>))\<rparr>"
  obtain resp err ctxErr c4 where b: "base ?req c3 = ((resp, err, ctxErr), c4)" by (metis prod.collapse)
  obtain t2 c5 where t2: "time_now L c4 = (t2, c5)" by (cases "time_now L c4")
  let ?rc = "r\<lparr>rc_SpanID := spanID\<rparr>"
  let ?e = "round_trip_event cfg ?req ?rc (rc_SpanID r) t1 t2 resp err ctxErr"
  have ne: "spanID \<noteq> []" using newID_prefix [OF n] by auto
  have run: "RoundTrip L cfg base (Some req) c = Some ((resp, err), snd (enqueue L ?e (round_trip_error L cfg ?req ?rc resp err c5)))"
    by (simp add: RoundTrip_def e n t b t2 Let_def)
  have ev: "ev_EventType ?e = EventTypeSpan" "ev_SpanID ?e = spanID" "ev_ParentSpanID ?e = rc_SpanID r"
     "ev_TraceID ?e = rc_TraceID r" "ev_HTTPStatus ?e = map_option rp_StatusCode resp"
     "ev_ErrorMessage ?e = (case err of None \<Rightarrow> [] | Some x \<Rightarrow> error_text x)"
    by (simp_all add: round_trip_event_def)
  show ?thesis by (intro exI conjI) (rule e n ne t refl b t2 run ev)+
qed

text \<open>
  What the transport records is accepted.  Whatever the wrapped transport answers, and whatever
  name function is configured, the span event has a name and a known status, and meets the rules of
  its type when the ids of the context are not blank and the times are in the years 1 to 9999; and the
  status is success exactly when there was no error and no response code of 500 or above.
\<close>
theorem round_trip_event_valid:
  assumes "\<not> blank (rc_TraceID rc)" and "\<not> blank (rc_SpanID rc)" and "in_calendar t1" and "in_calendar t2"
  shows "validate_by_type quote (round_trip_event cfg req rc parent t1 t2 resp err ctxErr) = None \<and>
    (roundTripStatus ctxErr resp err = StatusSuccess \<longleftrightarrow>
       err = None \<and> \<not> (\<exists>r. resp = Some r \<and> rp_StatusCode r \<ge> 500))"
proof -
  have st: "list_all (\<lambda>s. s \<in> set allowedStatuses) [StatusCanceled, StatusTimeout, StatusFailed, StatusSuccess]"
    by code_simp
  have "\<forall>p \<in> set space_runes. CHR ''H'' \<notin> set p" by code_simp
  then have "\<not> blank ''HTTP request''" "\<not> blank (''HTTP '' @ hq_Method req)"
    using not_blank_byte [of "CHR ''H''" "''HTTP request''"]
      not_blank_byte [of "CHR ''H''" "''HTTP '' @ hq_Method req"] by simp_all
  then have name: "\<not> blank (rt_spanName cfg req)"
    by (auto simp: rt_spanName_def trimmed_not_blank split: option.split)
  have status: "roundTripStatus ctxErr resp err \<in> set allowedStatuses"
    using st by (auto simp: roundTripStatus_def split: option.split)
  have "validate_by_type quote (round_trip_event cfg req rc parent t1 t2 resp err ctxErr) = None"
    using assms name status by (simp add: typed_defs round_trip_event_def formatTime_ok duration_ms_nonneg)
  moreover have "roundTripStatus ctxErr resp err = StatusSuccess \<longleftrightarrow>
       err = None \<and> \<not> (\<exists>r. resp = Some r \<and> rp_StatusCode r \<ge> 500)"
    by (auto simp: roundTripStatus_def status_defs split: option.split if_split)
  ultimately show ?thesis by blast
qed

end
