(* ===== verification/Example_Server.thy ===== *)
theory Example_Server
  imports Round_Tripper Env_Config
begin

text \<open>
  \<open>examples/http-server/main.go\<close>: a server whose handlers record with the client, behind the
  middleware.  \<open>http.ServeMux\<close> answers the paths that have no handler itself, with a redirect or
  404; that answer is the argument \<open>other\<close>.  Listening, signals and the shutdown of the server are
  left out.
\<close>

section \<open>The code\<close>

definition os_Getenv :: "lookup \<Rightarrow> string \<Rightarrow> string" where
  "os_Getenv lookup key = (case lookup key of None \<Rightarrow> [] | Some v \<Rightarrow> v)"

definition getenv :: "lookup \<Rightarrow> string \<Rightarrow> string \<Rightarrow> string" where
  "getenv lookup key fallback = (let v = os_Getenv lookup key in if v = [] then fallback else v)"

definition example_config :: "lookup \<Rightarrow> config" where
  "example_config lookup = empty_config\<lparr>
     cfg_Endpoint := os_Getenv lookup ''LOGCENTER_ENDPOINT'',
     cfg_APIKey := os_Getenv lookup ''LOGCENTER_API_KEY'',
     cfg_Environment := getenv lookup ''APP_ENV'' ''development'',
     cfg_Service := ''example-http-server'',
     cfg_Version := ''0.1.0'',
     cfg_Timeout := 2 * second_ns,
     cfg_BufferSize := 1000,
     cfg_BatchSize := 100,
     cfg_FlushInterval := second_ns\<rparr>"

definition checkout_audit :: audit_event where
  "checkout_audit = \<lparr>au_IdempotencyKey = [], au_Classification = [], au_RetentionHint = [],
     au_ActorType = ''system'', au_ActorID = ''example'', au_TenantID = [], au_Operation = [],
     au_Action = ''checkout.approved'', au_EntityType = ''checkout'', au_EntityID = ''demo'', au_FieldName = [],
     au_OldValue = GNil, au_NewValue = GNil,
     au_Changes = Some [Change ''status'' (GStr ''pending'') (GStr ''approved'')],
     au_Reason = [], au_Metadata = None, au_Data = None\<rparr>"

text \<open>The span is ended by a deferred call, also when what follows panics.\<close>

definition checkout_handler :: "'w library \<Rightarrow> 'w handler" where
  "checkout_handler L r c =
     (case StartSpan L (Request_ctx r) ''charge-card'' [SpanKind ''client''] c of
        None \<Rightarrow> (None, c)
      | Some ((ctx, span), c) \<Rightarrow>
        (let (answer, c) =
           (case log_Info L ctx ''checkout started'' (Some [(''route'', GStr ''/checkout'')]) c of
              None \<Rightarrow> (None, c)
            | Some (_, c) \<Rightarrow>
              (case Audit L ctx checkout_audit c of
                 None \<Rightarrow> (None, c)
               | Some (_, c) \<Rightarrow> (Some [202], c)))
         in (answer, snd (snd (Span_End L StatusSuccess span c)))))"

definition error_handler :: "'w library \<Rightarrow> 'w handler" where
  "error_handler L r c =
     (case RecordError L (Request_ctx r) (Some (PlainError ''provider timeout''))
         (no_error_options\<lparr>eo_Code := ''PROVIDER_TIMEOUT'', eo_Type := ''provider_timeout''\<rparr>) c of
        None \<Rightarrow> (None, c)
      | Some (_, c) \<Rightarrow> (Some [502], c))"

definition example_mux :: "'w library \<Rightarrow> 'w handler \<Rightarrow> 'w handler" where
  "example_mux L other r c =
     (if hq_Path r = ''/checkout'' then checkout_handler L r c
      else if hq_Path r = ''/error'' then error_handler L r c
      else other r c)"

definition example_server :: "'w library \<Rightarrow> 'w handler \<Rightarrow> http_request \<Rightarrow> 'w client \<Rightarrow> bool \<times> 'w client" where
  "example_server L other = HTTPMiddleware L [] (example_mux L other)"

definition example_client :: "'w library \<Rightarrow> lookup \<Rightarrow> fs \<Rightarrow> 'w \<Rightarrow> 'w client" where
  "example_client L lookup s w = NewClient L (example_config lookup) s w"

section \<open>What one request leaves behind\<close>

text \<open>
  The events that were offered to \<open>enqueue\<close>, in order; between two of them only the clock and the
  source of ids are asked.
\<close>

inductive offers :: "'w library \<Rightarrow> 'w client \<Rightarrow> event list \<Rightarrow> 'w client \<Rightarrow> bool" for L c where
  start: "offers L c [] c"
| asked: "offers L c es (c1\<lparr>cl_world := w, cl_fallback := n\<rparr>)" if "offers L c es c1"
| offered: "offers L c (es @ [e]) (snd (enqueue L e c1))" if "offers L c es c1"

text \<open>Two clients that differ in the world and the counter of ids only.\<close>

definition asks :: "'w client \<Rightarrow> 'w client \<Rightarrow> bool" where
  "asks c c' \<longleftrightarrow> (\<exists>w n. c' = c\<lparr>cl_world := w, cl_fallback := n\<rparr>)"

lemma asks_refl [simp]: "asks c c"
proof -
  have "c = c\<lparr>cl_world := cl_world c, cl_fallback := cl_fallback c\<rparr>" by simp
  then show ?thesis unfolding asks_def by blast
qed

lemma asks_world [simp]: "asks c (c\<lparr>cl_world := w\<rparr>)"
proof -
  have "c\<lparr>cl_world := w\<rparr> = c\<lparr>cl_world := w, cl_fallback := cl_fallback c\<rparr>" by simp
  then show ?thesis unfolding asks_def by blast
qed

lemma asks_trans: "asks c c1 \<Longrightarrow> asks c1 c2 \<Longrightarrow> asks c c2"
proof -
  have "\<exists>w n. c\<lparr>cl_world := w', cl_fallback := n'\<rparr> = c\<lparr>cl_world := w, cl_fallback := n\<rparr>" for w' n' by blast
  then show "asks c c1 \<Longrightarrow> asks c1 c2 \<Longrightarrow> asks c c2" unfolding asks_def by (elim exE) simp
qed

lemma offers_asks: "offers L c es c1 \<Longrightarrow> asks c1 c2 \<Longrightarrow> offers L c es c2"
  by (auto simp: asks_def intro: offers.asked)

lemma asks_time: "time_now L c = (t, c') \<Longrightarrow> asks c c'"
  by (auto simp: time_now_def split: prod.splits)

lemma asks_newID:
  assumes "newID L pre c = (i, c')"
  shows "asks c c'"
proof (cases "lib_random L (cl_world c)")
  case (Pair b w)
  show ?thesis
  proof (cases b)
    case None
    obtain t w' where "lib_now L w = (t, w')" by (cases "lib_now L w")
    with assms Pair None have "c' = c\<lparr>cl_fallback := cl_fallback c + 1, cl_world := w'\<rparr>"
      by (simp add: newID_def fallbackID_def time_now_def Let_def)
    also have "\<dots> = c\<lparr>cl_world := w', cl_fallback := cl_fallback c + 1\<rparr>" by simp
    finally have "c' = c\<lparr>cl_world := w', cl_fallback := cl_fallback c + 1\<rparr>" .
    then show ?thesis unfolding asks_def by blast
  qed (use assms Pair in \<open>auto simp: newID_def\<close>)
qed

lemma asks_unless: "new_unless L pre v c = (i, c') \<Longrightarrow> asks c c'"
  using asks_newID by (fastforce simp: new_unless_def split: if_splits)

lemma asks_instant: "instant_or_now L t c = (i, c') \<Longrightarrow> asks c c'"
  using asks_time by (fastforce simp: instant_or_now_def split: if_splits)

lemma asks_ensure:
  assumes "ensure_request L ctx c = Some (x, c')"
  shows "asks c c'"
proof -
  obtain r b where r: "RequestFromContext ctx = Some (r, b)"
    using assms by (auto simp: ensure_request_def split: option.splits)
  obtain i c1 where i: "new_unless L ''req_'' (rc_RequestID r) c = (i, c1)"
    by (cases "new_unless L ''req_'' (rc_RequestID r) c")
  obtain j c2 where j: "new_unless L ''trc_'' (rc_TraceID r) c1 = (j, c2)"
    by (cases "new_unless L ''trc_'' (rc_TraceID r) c1")
  have "c' = c2" using assms r i j by (auto simp: ensure_request_def)
  with asks_trans [OF asks_unless [OF i] asks_unless [OF j]] show ?thesis by simp
qed

lemma asks_span:
  assumes "StartSpan L ctx name fs c = Some (x, c')"
  shows "asks c c'"
proof -
  obtain ctx1 r c1 where e: "ensure_request L ctx c = Some ((ctx1, r), c1)"
    using assms by (auto simp: StartSpan_def split: option.splits)
  obtain i c2 where i: "newID L ''spn_'' c1 = (i, c2)" by (cases "newID L ''spn_'' c1")
  obtain t c3 where t: "time_now L c2 = (t, c3)" by (cases "time_now L c2")
  have "c' = c3" using assms e i t by (auto simp: StartSpan_def Let_def)
  with asks_trans [OF asks_trans [OF asks_ensure [OF e] asks_newID [OF i]] asks_time [OF t]] show ?thesis by simp
qed

lemma offers_start:
  assumes "offers L c es c1" and "StartRequest L ctx opts c1 = ((ctx', req), c2)"
  shows "offers L c (es @ [request_started_event opts req]) c2"
proof -
  let ?rc = "request_context_of opts (request_of ctx)"
  obtain i d1 where i: "new_unless L ''req_'' (rc_RequestID ?rc) c1 = (i, d1)"
    by (cases "new_unless L ''req_'' (rc_RequestID ?rc) c1")
  obtain j d2 where j: "new_unless L ''trc_'' (rc_TraceID ?rc) d1 = (j, d2)"
    by (cases "new_unless L ''trc_'' (rc_TraceID ?rc) d1")
  obtain t d3 where t: "instant_or_now L (rs_StartedAt opts) d2 = (t, d3)"
    by (cases "instant_or_now L (rs_StartedAt opts) d2")
  have "c2 = snd (enqueue L (request_started_event opts req) d3)"
    using assms(2) i j t by (auto simp: StartRequest_def Let_def)
  moreover have "asks c1 d3"
    using asks_trans [OF asks_trans [OF asks_unless [OF i] asks_unless [OF j]] asks_instant [OF t]] .
  ultimately show ?thesis using offers.offered [OF offers_asks [OF assms(1)]] by simp
qed

lemma offers_end:
  assumes "offers L c es c1" and "\<not> rq_ended req"
  shows "\<exists>t. offers L c (es @ [request_finished_event opts (mergeRequestContext (rq_context req) ctx) req t])
    (snd (snd (Request_EndWithContext L ctx opts req c1)))"
proof -
  obtain t c2 where t: "instant_or_now L (re_FinishedAt opts) c1 = (t, c2)"
      "snd (snd (Request_EndWithContext L ctx opts req c1)) =
        snd (enqueue L (request_finished_event opts (mergeRequestContext (rq_context req) ctx) req t) c2)"
    using end_effect [OF assms(2)] by blast
  have "offers L c es c2" using assms(1) asks_instant [OF t(1)] by (rule offers_asks)
  then show ?thesis unfolding t(2) using offers.offered by blast
qed

lemma offers_span_end:
  assumes "offers L c es c1" and "\<not> sp_ended sp"
  shows "\<exists>t. offers L c (es @ [span_event status sp t]) (snd (snd (Span_End L status sp c1)))"
proof -
  obtain t c2 where t: "time_now L c1 = (t, c2)" by (cases "time_now L c1")
  have "offers L c es c2" using assms(1) asks_time [OF t] by (rule offers_asks)
  then have "offers L c (es @ [span_event status sp t]) (snd (enqueue L (span_event status sp t) c2))"
    by (rule offers.offered)
  with t assms(2) show ?thesis by (auto simp: Span_End_def split: prod.split)
qed

lemma offers_log:
  assumes "offers L c es c1" and "log_Info L (Ctx (Some rc)) message fs c1 = Some (b, c2)"
  shows "offers L c (es @ [log_event_of rc LevelInfo message fs]) c2"
proof -
  have "c2 = snd (enqueue L (log_event_of rc LevelInfo message fs) c1)"
    using assms(2) by (simp add: log_Info_def log_at_def)
  with offers.offered [OF assms(1)] show ?thesis by simp
qed

lemma offers_audit:
  assumes "offers L c es c1" and "Audit L (Ctx (Some rc)) a c1 = Some (b, c2)"
  shows "offers L c (es @ [auditEventToEvent rc a]) c2"
proof -
  have "c2 = snd (enqueue L (auditEventToEvent rc a) c1)"
    using assms(2) by (simp add: Audit_def)
  with offers.offered [OF assms(1)] show ?thesis by simp
qed

lemma offers_error:
  assumes "offers L c es c1" and "RecordError L (Ctx (Some rc)) err opts c1 = Some (b, c2)"
  shows "offers L c (es @ [error_event_of rc err opts]) c2"
proof -
  have "c2 = snd (enqueue L (error_event_of rc err opts) c1)"
    using assms(2) by (simp add: RecordError_def)
  with offers.offered [OF assms(1)] show ?thesis by simp
qed

text \<open>What the middleware offers before and after the handler.\<close>

lemma served:
  assumes "HTTPMiddleware L options handler r c = (ok, c')"
  obtains opts req c1 codes c2 where "offers L c [request_started_event opts req] c1"
    and "rc_RequestID (rq_context req) \<noteq> []" and "rc_TraceID (rq_context req) \<noteq> []"
    and "handler (r\<lparr>hq_context := Ctx (Some (rq_context req))\<rparr>) c1 = (codes, c2)" and "ok \<longleftrightarrow> codes \<noteq> None"
    and "\<forall>es ws. codes = Some ws \<longrightarrow> offers L c es c2 \<longrightarrow>
      (\<exists>t. offers L c (es @ [request_finished_event (http_end_options (recorded_status ws)) (rq_context req) req t]) c')"
proof -
  define cfg where "cfg = fold (\<lambda>option cfg. option cfg) options no_http_config"
  obtain data where d: "http_data (lib_lower L) cfg r = (data, r)" using http_data_same by (metis prod.collapse)
  define opts where "opts = http_start_options cfg r data"
  obtain ctx req c1 where s: "StartRequest L (Request_ctx r) opts c = ((ctx, req), c1)" by (metis prod.collapse)
  note st = started_context [OF s]
  obtain codes c2 where h: "handler (r\<lparr>hq_context := Ctx (Some (rq_context req))\<rparr>) c1 = (codes, c2)"
    by (cases "handler (r\<lparr>hq_context := Ctx (Some (rq_context req))\<rparr>) c1")
  have run: "ok \<longleftrightarrow> codes \<noteq> None"
    "\<And>ws. codes = Some ws \<Longrightarrow>
      c' = snd (snd (Request_EndWithContext L Background (http_end_options (recorded_status ws)) req c2))"
    using assms d s h
    by (auto simp: HTTPMiddleware_def Request_End_def cfg_def [symmetric] opts_def [symmetric] st(1) Let_def
        split: option.splits)
  have "\<exists>t. offers L c (es @ [request_finished_event (http_end_options (recorded_status ws)) (rq_context req) req t]) c'"
    if "codes = Some ws" "offers L c es c2" for es ws
    using offers_end [OF that(2), of req "http_end_options (recorded_status ws)" Background] st(2) run(2) [OF that(1)]
    by (simp add: mergeRequestContext_def Background_def)
  then show ?thesis using that offers_start [OF offers.start s] st(3,4) h run(1) by auto
qed

lemma StartSpan_total: "\<exists>ctx sp c'. StartSpan L (Ctx x) name fs c = Some ((ctx, sp), c')"
proof -
  have "Ctx x \<noteq> NilCtx" by simp
  from ensure_request_total [OF this] obtain r c1 where "ensure_request L (Ctx x) c = Some ((Ctx (Some r), r), c1)"
    by blast
  then show ?thesis by (simp add: StartSpan_def ContextWithRequest_def Let_def split: prod.split)
qed

lemma log_Info_total: "\<exists>b c'. log_Info L (Ctx x) message fs c = Some (b, c')"
  by (cases x) (auto simp: log_Info_def log_at_def intro: prod.exhaust)

lemma Audit_total: "\<exists>b c'. Audit L (Ctx x) a c = Some (b, c')"
  by (cases x) (auto simp: Audit_def intro: prod.exhaust)

text \<open>
  One request for \<open>/checkout\<close> leaves five events, in this order: the start of the request, the log, the
  audit, the span and the end.  They share one request id and one trace id, the log is in the
  span, and the end has the code of the handler.
\<close>

theorem checkout_trail:
  assumes "example_server L other r c = (ok, c')" and "hq_Path r = ''/checkout''"
  shows "ok \<and> (\<exists>es req trc spn. offers L c es c' \<and>
    map ev_EventType es = [EventTypeRequestStarted, EventTypeLogEvent, EventTypeAuditEvent, EventTypeSpan,
      EventTypeRequestFinished] \<and>
    (\<forall>e \<in> set es. ev_RequestID e = req \<and> ev_TraceID e = trc) \<and> req \<noteq> [] \<and> trc \<noteq> [] \<and>
    ev_SpanID (es ! 1) = spn \<and> ev_SpanID (es ! 3) = spn \<and> ev_ParentSpanID (es ! 3) = ev_SpanID (es ! 0) \<and>
    ev_HTTPStatus (last es) = Some 202 \<and> ev_Status (last es) = StatusSuccess)"
proof -
  obtain opts req c1 codes c2
    where s: "offers L c [request_started_event opts req] c1" "rc_RequestID (rq_context req) \<noteq> []"
      "rc_TraceID (rq_context req) \<noteq> []"
      and h: "example_mux L other (r\<lparr>hq_context := Ctx (Some (rq_context req))\<rparr>) c1 = (codes, c2)" "ok \<longleftrightarrow> codes \<noteq> None"
      and e: "\<forall>es ws. codes = Some ws \<longrightarrow> offers L c es c2 \<longrightarrow>
        (\<exists>t. offers L c (es @ [request_finished_event (http_end_options (recorded_status ws)) (rq_context req) req t]) c')"
    by (rule served [OF assms(1) [unfolded example_server_def]])
  let ?q = "rq_context req" and ?r = "r\<lparr>hq_context := Ctx (Some (rq_context req))\<rparr>"
  have ctx: "Request_ctx ?r = Ctx (Some ?q)" by (simp add: Request_ctx_def ctx_or_background_def)
  obtain ctx1 sp d1 where sp: "StartSpan L (Ctx (Some ?q)) ''charge-card'' [SpanKind ''client''] c1 = Some ((ctx1, sp), d1)"
    using StartSpan_total by blast
  have "list_all package_option [SpanKind ''client'']" by (simp add: package_option.intros)
  from StartSpan_Some [OF sp this] obtain rc d0 where sc: "ensure_request L (Ctx (Some ?q)) c1 = Some ((Ctx (Some rc), rc), d0)"
      "ctx1 = Ctx (Some (rc\<lparr>rc_SpanID := sp_spanID sp\<rparr>))" "sp_request sp = rc\<lparr>rc_SpanID := sp_spanID sp\<rparr>"
      "sp_parentSpanID sp = rc_SpanID rc" "\<not> sp_ended sp" by metis
  have rc: "rc = ?q" using ensure_request_Some(4) [OF sc(1) refl s(2,3)] .
  let ?i = "?q\<lparr>rc_SpanID := sp_spanID sp\<rparr>" and ?fs = "Some [(''route'', GStr ''/checkout'')]"
  obtain b d2 where l: "log_Info L ctx1 ''checkout started'' ?fs d1 = Some (b, d2)" using log_Info_total sc(2) by blast
  obtain b' d3 where a: "Audit L ctx1 checkout_audit d2 = Some (b', d3)" using Audit_total sc(2) by blast
  have run: "codes = Some [202]" "c2 = snd (snd (Span_End L StatusSuccess sp d3))"
    using h(1) assms(2) sp l a by (simp_all add: example_mux_def checkout_handler_def ctx)
  let ?es = "[request_started_event opts req, log_event_of ?i LevelInfo ''checkout started'' ?fs,
    auditEventToEvent ?i checkout_audit]"
  have "offers L c [request_started_event opts req] d1" using s(1) asks_span [OF sp] by (rule offers_asks)
  from offers_log [OF this l [unfolded sc(2) rc]] have "offers L c (butlast ?es) d2" by simp
  from offers_audit [OF this a [unfolded sc(2) rc]] have "offers L c ?es d3" by simp
  from offers_span_end [OF this sc(5)] obtain t where "offers L c (?es @ [span_event StatusSuccess sp t]) c2"
    unfolding run(2) by blast
  with e run(1) obtain t' where trail: "offers L c ((?es @ [span_event StatusSuccess sp t]) @
      [request_finished_event (http_end_options (recorded_status [202])) ?q req t']) c'" by blast
  show ?thesis
    using trail s(2,3) h(2) run(1) sc(3,4) rc
    by (intro conjI exI [of _ "(?es @ [span_event StatusSuccess sp t]) @
        [request_finished_event (http_end_options (recorded_status [202])) ?q req t']"]
        exI [of _ "rc_RequestID ?q"] exI [of _ "rc_TraceID ?q"] exI [of _ "sp_spanID sp"])
      (simp_all add: request_started_event_def log_event_of_def auditEventToEvent_def span_event_def
        request_finished_event_def http_end_options_def recorded_status_def status_of_code_def or_else_def)
qed

text \<open>One request for \<open>/error\<close> leaves three: the start, the error and a failed end.\<close>

theorem error_trail:
  assumes "example_server L other r c = (ok, c')" and "hq_Path r = ''/error''"
  shows "ok \<and> (\<exists>es req trc. offers L c es c' \<and>
    map ev_EventType es = [EventTypeRequestStarted, EventTypeErrorEvent, EventTypeRequestFinished] \<and>
    (\<forall>e \<in> set es. ev_RequestID e = req \<and> ev_TraceID e = trc) \<and> req \<noteq> [] \<and> trc \<noteq> [] \<and>
    ev_ErrorCode (es ! 1) = ''PROVIDER_TIMEOUT'' \<and> ev_ErrorMessage (es ! 1) = ''provider timeout'' \<and>
    ev_HTTPStatus (last es) = Some 502 \<and> ev_Status (last es) = StatusFailed)"
proof -
  obtain opts req c1 codes c2
    where s: "offers L c [request_started_event opts req] c1" "rc_RequestID (rq_context req) \<noteq> []"
      "rc_TraceID (rq_context req) \<noteq> []"
      and h: "example_mux L other (r\<lparr>hq_context := Ctx (Some (rq_context req))\<rparr>) c1 = (codes, c2)" "ok \<longleftrightarrow> codes \<noteq> None"
      and e: "\<forall>es ws. codes = Some ws \<longrightarrow> offers L c es c2 \<longrightarrow>
        (\<exists>t. offers L c (es @ [request_finished_event (http_end_options (recorded_status ws)) (rq_context req) req t]) c')"
    by (rule served [OF assms(1) [unfolded example_server_def]])
  let ?q = "rq_context req" and ?r = "r\<lparr>hq_context := Ctx (Some (rq_context req))\<rparr>"
  let ?err = "Some (PlainError ''provider timeout'')"
  let ?eo = "no_error_options\<lparr>eo_Code := ''PROVIDER_TIMEOUT'', eo_Type := ''provider_timeout''\<rparr>"
  have ctx: "Request_ctx ?r = Ctx (Some ?q)" by (simp add: Request_ctx_def ctx_or_background_def)
  have "Ctx (Some ?q) \<noteq> NilCtx" by simp
  from RecordError_total [OF this] obtain b d where re: "RecordError L (Ctx (Some ?q)) ?err ?eo c1 = Some (b, d)" by blast
  have run: "codes = Some [502]" "c2 = d"
    using h(1) assms(2) re by (simp_all add: example_mux_def error_handler_def ctx)
  from offers_error [OF s(1) re] have
    "offers L c ([request_started_event opts req] @ [error_event_of ?q ?err ?eo]) c2" by (simp add: run(2))
  with e run(1) obtain t where trail: "offers L c (([request_started_event opts req] @ [error_event_of ?q ?err ?eo]) @
      [request_finished_event (http_end_options (recorded_status [502])) ?q req t]) c'" by blast
  have failed: "StatusFailed \<noteq> []" by (simp add: status_defs)
  show ?thesis
    using trail s(2,3) h(2) run(1) failed
    by (intro conjI exI [of _ "([request_started_event opts req] @ [error_event_of ?q ?err ?eo]) @
        [request_finished_event (http_end_options (recorded_status [502])) ?q req t]"]
        exI [of _ "rc_RequestID ?q"] exI [of _ "rc_TraceID ?q"])
      (simp_all add: request_started_event_def error_event_of_def request_finished_event_def no_error_options_def
        http_end_options_def recorded_status_def status_of_code_def or_else_def)
qed

end
