(* ===== verification/Documentation.thy ===== *)
theory Documentation
  imports Delivery Http_Middleware
begin

text \<open>
  Where \<open>README.md\<close> says something else than the code does: each lemma states the behaviour of the
  code that a sentence of the documentation denies.
\<close>

section \<open>The route template\<close>

text \<open>
  The README wraps a \<open>ServeMux\<close> into the middleware and asks for \<open>r.Pattern\<close> as the route template.  The
  mux sets the pattern when it is called, after the middleware has recorded the start of the
  request, so the template is empty there and the path of the request is recorded in its place.
\<close>

lemma readme_route_template:
  assumes "hq_Pattern r = []"
  shows "rs_RouteTemplate (http_start_options (no_http_config\<lparr>hc_routeTemplateFunc := Some hq_Pattern\<rparr>) r data) = hq_Path r"
  using assms by (simp add: http_start_options_def routeTemplateFor_def no_http_config_def)

section \<open>Requests in a context\<close>

text \<open>
  "Generated when empty" and "if empty, method and path" hold for a context without a request; in a
  context that carries one, \<open>StartRequest\<close> takes over its ids and its operation.
\<close>

lemma start_inherits:
  assumes "StartRequest L (Ctx (Some rc)) opts c = ((ctx, req), c')"
    and "rs_RequestID opts = []" "rs_TraceID opts = []" "rs_Operation opts = []"
    and "rc_RequestID rc \<noteq> []" "rc_TraceID rc \<noteq> []" "rc_Operation rc \<noteq> []"
  shows "rc_RequestID (rq_context req) = rc_RequestID rc \<and> rc_TraceID (rq_context req) = rc_TraceID rc \<and>
    rc_Operation (rq_context req) = rc_Operation rc"
proof -
  let ?rc = "request_context_of opts (request_of (Ctx (Some rc)))"
  have rc: "rc_RequestID ?rc = rc_RequestID rc" "rc_TraceID ?rc = rc_TraceID rc" "rc_Operation ?rc = rc_Operation rc"
    using assms(2-7) by (simp_all add: request_context_of_def request_of_def ctx_or_background_def)
  obtain t d where "instant_or_now L (rs_StartedAt opts) c = (t, d)" by (cases "instant_or_now L (rs_StartedAt opts) c")
  then have "rq_context req = ?rc\<lparr>rc_RequestID := rc_RequestID rc, rc_TraceID := rc_TraceID rc\<rparr>"
    using assms(1,5,6) by (auto simp: StartRequest_def new_unless_def rc Let_def)
  with rc show ?thesis by simp
qed

section \<open>The outbox\<close>

text \<open>
  False does not mean that the event was discarded.  With an outbox, an event that the full queue
  refuses has been written to the file by then, and stays there: it is counted as dropped, and it
  is sent all the same.
\<close>

lemma refused_event_is_stored:
  assumes "outboxed name c" and "enqueue L e c = (False, c')" and "\<not> cl_disabled c" "\<not> cl_closed c"
    and "prepareEvent L e c = ((e', None), c1)" and "restorable e'"
  shows "ev_EventID e' \<in> stock L name c' \<and> outboxed name c'"
proof -
  have p: "push_event e' (persistOutbox [e'] c1) = (False, c')" using assms(2-5) by (simp add: enqueue_def)
  have "outboxed name c1" using keeps_prepare [OF assms(1,5)] by (simp add: keeps_def)
  from keeps_persist [OF this restorable_keepable [OF assms(6)], of L]
  have k: "keeps L name {ev_EventID e'} {} c1 (persistOutbox [e'] c1)" .
  then have "keeps L name {} {} (persistOutbox [e'] c1) c'"
    by (intro keeps_shelf shelf_push [OF p]) (simp add: keeps_def)
  with k show ?thesis by (auto simp: keeps_def)
qed

text \<open>
  "Persists events before sending": \<open>SendEventSync\<close> does not.  While the event is on its way, the file
  holds what it held before; the event is written only when sending has failed.
\<close>

lemma sync_not_stored_first:
  assumes "outboxed name c" and "\<not> cl_disabled c" "\<not> cl_closed c"
    and "prepareEvent L (withContextFields ctx e) c = ((e', None), c1)"
  shows "stock L name c1 = stock L name c \<and>
    SendEventSync L ctx e c =
      (case sendBatchSync L [e'] c1 of
         (None, c2) \<Rightarrow> (None, c2)
       | (Some err, c2) \<Rightarrow> (Some err, if isRetryable err then persistOutbox [e'] c2 else c2))"
  using keeps_prepare [OF assms(1,4)] assms(2-4) by (auto simp: keeps_def SendEventSync_def)

text \<open>
  "Removes each event when the API accepts the batch", "accepted events": an answered batch takes all
  of its events out of the file, also those that the answer lists as rejected.
\<close>

lemma rejected_is_removed:
  assumes "outboxed name c" and "batch_sent L es False r c = (err, c')" and "e \<in> set es" and "ev_EventID e \<noteq> []"
  shows "ev_EventID e \<notin> stock L name c'"
proof -
  have ob: "cl_outbox c = Some name" "calm name (cl_fs c)" using assms(1) by (simp_all add: outboxed_def)
  have "es \<noteq> []" using assms(3) by auto
  from batch_sent_removes [OF assms(2) ob(1) this ob(2)]
  have rm: "outbox_Remove (decode_event L) (Some name) (eventIDs es) (cl_fs c) = (None, cl_fs c')" by simp
  have "ev_EventID e \<in> set (eventIDs es)" using assms(3,4) by (auto simp: eventIDs_def)
  moreover have "log_whole name (cl_fs c)" using ob(2) by (simp add: calm_def)
  ultimately show ?thesis using obx.remove_drops [OF _ rm] assms(4) by (auto simp: stock_def)
qed

section \<open>The ceiling of an event\<close>

text \<open>
  "Ceiling of the whole event": the tamper evidence is added after the ceiling has been checked.  An
  event without metadata that just meets it is above it when it leaves.
\<close>

lemma length_join_more: "length (join [c] (xs @ ys)) + length y \<le> length (join [c] (xs @ y # ys))"
proof (induction xs)
  case Nil
  show ?case by (cases ys) simp_all
next
  case (Cons x xs)
  show ?case
  proof (cases "xs @ ys")
    case Nil
    then show ?thesis by simp
  next
    case (Cons z zs)
    moreover obtain z' zs' where "xs @ y # ys = z' # zs'" by (cases "xs @ y # ys") auto
    ultimately show ?thesis using Cons.IH by simp
  qed
qed

lemma those_append_eq:
  "those (xs @ ys) = (case those xs of None \<Rightarrow> None | Some as \<Rightarrow> map_option ((@) as) (those ys))"
proof (induction xs)
  case Nil
  show ?case by (cases "those ys") simp_all
next
  case (Cons x xs)
  then show ?case by (cases "those ys") (auto split: option.split)
qed

lemma metadata_longer:
  assumes "json_event e = Some t" and "entries_of (ev_Metadata e) = []" and "entries_of m \<noteq> []"
    and "json_event (e\<lparr>ev_Metadata := m\<rparr>) = Some t'"
  shows "length t < length t'"
proof -
  define pre where "pre = take 44 (event_members e)"
  have ms: "event_members e = pre @ [opt_fields_member ''metadata'' (ev_Metadata e), opt_fields_member ''data'' (ev_Data e)]"
    "event_members (e\<lparr>ev_Metadata := m\<rparr>) = pre @ [opt_fields_member ''metadata'' m, opt_fields_member ''data'' (ev_Data e)]"
    by (simp_all add: pre_def event_members_def)
  obtain ps ds where ps: "those pre = Some ps" "opt_fields_member ''data'' (ev_Data e) = Some ds"
      "t = json_object (concat ps @ ds)"
    using assms(1,2) by (auto simp: json_event_def ms those_append_eq opt_fields_member_def [of "''metadata''"] split: option.splits)
  obtain v where v: "json_val (GFields m) = Some v" "t' = json_object (concat ps @ (''metadata'', v) # ds)"
    using assms(3,4) ps by (auto simp: json_event_def ms those_append_eq opt_fields_member_def [of "''metadata''"] split: option.splits)
  show ?thesis
    using length_join_more [of "CHR '',''" "map json_member (concat ps)" "map json_member ds" "json_member (''metadata'', v)"]
    by (simp add: v(2) ps(3) json_object_def json_member_def)
qed

lemma evidence_over_ceiling:
  assumes "json_event l = Some t" and "int (length t) = ceiling" and "ev_Metadata l = None"
    and "matches te l" and "Apply hf l (Some te) s = ((e, None), te', s')" and "json_event e = Some t'"
  shows "ceiling < int (length t')"
proof -
  obtain h where h: "hashEventForEvidence hf l (te_metadataKey te) = Inr h"
    using assms(4,5) by (auto simp: Apply_def split: sum.splits)
  obtain m where "e = l\<lparr>ev_Metadata := m\<rparr>" "entries_of m \<noteq> []"
    using assms(4,5) h by (auto simp: Apply_def chain_step_def Let_def split: prod.splits)
  with metadata_longer [OF assms(1) _ _ ] assms(2,3,6) show ?thesis by auto
qed

end
