(* ===== verification/Client_Examples.thy ===== *)
theory Client_Examples
  imports Outbox_Replay
begin

text \<open>
  A concrete library, configuration and client, on which the properties of \<open>Sdk_Client\<close> and
  \<open>Outbox_Replay\<close> are applied: their hypotheses hold there.
\<close>

section \<open>A concrete library\<close>

text \<open>
  A concrete library, at the first of January 1970, whose random source fails and which prints a float
  as its decimal.  Its world is the list of the server's answers still to come; an exhausted list
  answers 200 with an empty object.
\<close>

abbreviation toy_decode :: "string \<Rightarrow> event option" where
  "toy_decode \<equiv> unmarshal_event (\<lambda>t. t)"

type_synonym answers = "(go_error + int \<times> string) list"

definition toy_library_on :: "string option \<Rightarrow> ('w \<Rightarrow> (go_error + int \<times> string) \<times> 'w) \<Rightarrow> 'w library" where
  "toy_library_on random server = \<lparr>lib_lower = (\<lambda>r. r), lib_fold = (\<lambda>_. []), lib_quote = (\<lambda>s. s), lib_runtime = ''go'',
     lib_hash = toy_hash, lib_float = (\<lambda>t. t),
     lib_now = (\<lambda>w. (62135596800000000000, w)), lib_random = (\<lambda>w. (random, w)), lib_sleep = (\<lambda>_ w. w),
     lib_new_request = (\<lambda>_. None), lib_do = (\<lambda>_ _ _ w. server w)\<rparr>"

definition toy_library :: "answers library" where
  "toy_library = toy_library_on None (\<lambda>w. case w of [] \<Rightarrow> (Inr (200, ''{}''), []) | a # w \<Rightarrow> (a, w))"

text \<open>A random source that works, and a server that accepts every batch.\<close>

definition steady_library :: "unit library" where
  "steady_library = toy_library_on (Some (replicate 16 (CHR 0x00))) (\<lambda>w. (Inr (200, ''{}''), w))"

definition toy_config :: config where
  "toy_config = empty_config\<lparr>cfg_Endpoint := ''http://h'', cfg_APIKey := ''k'', cfg_OutboxPath := ''ob'',
     cfg_BufferSize := 2\<rparr>"

definition client_with :: "string \<Rightarrow> 'w \<Rightarrow> 'w client" where
  "client_with outbox w = \<lparr>cl_config = normalized ''go'' toy_config, cl_disabled = False,
     cl_redactor = \<lparr>rd_fragments = [''token''], rd_pairPattern = None\<rparr>,
     cl_limiter = newLimiter (normalized ''go'' toy_config), cl_queue = newEventQueue 2, cl_notify = False,
     cl_closed = False, cl_stats = zero_counters, cl_outbox = Some ''ob'', cl_tamper = None,
     cl_fs = disk ''ob'' outbox [], cl_trace = [], cl_fallback = 0, cl_world = w\<rparr>"

abbreviation toy_client :: "string \<Rightarrow> answers \<Rightarrow> answers client" where
  "toy_client \<equiv> client_with"

definition toy_event :: event where
  "toy_event = empty_event\<lparr>ev_EventID := ''e1'', ev_EventType := EventTypeLogEvent, ev_Level := LevelInfo,
     ev_Message := ''m''\<rparr>"

definition toy_id :: string where
  "toy_id = replicate 22 (CHR ''A'')"

lemma toy_answer: "unmarshal_response ''{}'' = Some empty_response"
  by code_simp

lemma toy_decodes: "decode_event toy_library = toy_decode" "decode_event steady_library = toy_decode"
  by (simp_all add: decode_event_def toy_library_def steady_library_def toy_library_on_def)

lemma toy_random: "random_text (replicate 16 (CHR 0x00)) = toy_id"
  by code_simp

section \<open>Applications of the properties\<close>

definition stored_line :: string where
  "stored_line = the (json_event (empty_event\<lparr>ev_EventID := ''a''\<rparr>))"

lemma toy_config_facts:
  "cfg_RetryAttempts (cl_config (client_with ob w)) = 0"
  "\<not> blank (cfg_Endpoint (cl_config (client_with ob w)))"
  "\<not> blank (cfg_APIKey (cl_config (client_with ob w)))"
  "0 < lm_maxEventBytes (cl_limiter (client_with ob w))"
  by code_simp+


text \<open>
  A server that is never available, and a world that notes the pauses: with two attempts left after
  the first, three posts are made with pauses of 50 and 100 milliseconds between them.
\<close>

definition drowsy_library :: "int list library" where
  "drowsy_library = (toy_library_on None (\<lambda>w. (Inr (503, []), w)))\<lparr>lib_sleep := \<lambda>d w. w @ [d]\<rparr>"

lemma drowsy_post:
  assumes "postBatch drowsy_library payload c = (x, d)" and "json_batch payload \<noteq> None"
    and "cfg_MaxBatchBytes (cl_config c) \<le> 0"
  shows "x = Inl (HttpError 503 [])"
  using assms by (auto simp: postBatch_def drowsy_library_def toy_library_on_def limit_reader_def Let_def)

lemma batch_attempts_bounded_witness:
  "cl_world (snd (sendBatchInternal drowsy_library [toy_event] False
      (client_with [] []\<lparr>cl_config := (normalized ''go'' toy_config)\<lparr>cfg_RetryAttempts := 2, cfg_MaxBatchBytes := 0\<rparr>\<rparr>))) =
    [50000000, 100000000]"
proof -
  let ?conf = "(normalized ''go'' toy_config)\<lparr>cfg_RetryAttempts := 2, cfg_MaxBatchBytes := 0\<rparr>"
  define c :: "int list client" where "c = client_with [] []\<lparr>cl_config := ?conf\<rparr>"
  obtain err c' where run: "sendBatchInternal drowsy_library [toy_event] False c = (err, c')"
    by (metis prod.collapse)
  have conf: "cfg_RetryAttempts (cl_config c) = 2" "cfg_MaxBatchBytes (cl_config c) = 0" "cl_world c = []"
    by (simp_all add: c_def client_with_def)
  have "\<not> blank (cfg_Endpoint (cl_config c))" "\<not> blank (cfg_APIKey (cl_config c))"
    unfolding c_def by code_simp+
  moreover have "observes_sleep drowsy_library (\<lambda>w. w)"
    by (simp add: observes_sleep_def drowsy_library_def toy_library_on_def)
  ultimately obtain i now ca c0 n c1 x d payload where out: "newID drowsy_library ''bt_'' c = (i, ca)"
      "time_now drowsy_library ca = (now, c0)"
      "payload = \<lparr>bq_BatchID = i, bq_SentAt = formatTime now,
        bq_Source = RedactFields (lib_lower drowsy_library) (cl_redactor c) (cfg_Source (cl_config c)),
        bq_Events = [toy_event]\<rparr>"
      "failed_attempts drowsy_library payload 0 n c0 c1" "int n \<le> cfg_RetryAttempts (cl_config c)"
      "postBatch drowsy_library payload c1 = (x, d)"
      "case x of
         Inl e \<Rightarrow> err = Some e \<and> c' = recordBatchFailure (Some e) [toy_event] d \<and>
           (\<not> isRetryable e \<or> int n = cfg_RetryAttempts (cl_config c))
       | Inr r \<Rightarrow> batch_sent drowsy_library [toy_event] False r d = (err, c')"
      "cl_world c' = cl_world c @ map (\<lambda>k. wrap64 (k * 50000000)) [1 .. int n]"
    using batch_attempts_bounded [OF run, of "\<lambda>w. w"] conf by fastforce
  have "json_val (GFields (RedactFields (lib_lower drowsy_library) (cl_redactor c) (cfg_Source (cl_config c)))) \<noteq> None"
    and "json_event toy_event \<noteq> None" unfolding c_def by code_simp+
  then have "json_batch payload \<noteq> None" using out(3) by (auto simp: json_batch_def)
  moreover have "cl_config c1 = cl_config c"
    using failed_attempts_keeps [OF out(4)] kept_newID [OF out(1)] kept_time [OF out(2)] by (auto simp: kept_def)
  ultimately have "x = Inl (HttpError 503 [])" using drowsy_post [OF out(6)] conf by simp
  then have "int n = 2" using out(7) conf by simp
  moreover have "map (\<lambda>k. wrap64 (k * 50000000)) [1 .. 2] = [50000000, 100000000]" by code_simp
  ultimately show ?thesis using out(8) run conf by (simp flip: c_def)
qed

lemma retry_overflow_witness:
  "fst (sendBatchInternal toy_library [toy_event] False
     (toy_client [] [Inr (503, [])]\<lparr>cl_config := (normalized ''go'' toy_config)\<lparr>cfg_RetryAttempts := 2 ^ 63 - 1\<rparr>\<rparr>)) = None"
proof -
  let ?conf = "(normalized ''go'' toy_config)\<lparr>cfg_RetryAttempts := 2 ^ 63 - 1\<rparr>"
  have "\<not> blank (cfg_Endpoint ?conf)" "\<not> blank (cfg_APIKey ?conf)" by code_simp+
  with retry_overflow [of "toy_client [] [Inr (503, [])]\<lparr>cl_config := ?conf\<rparr>" "[toy_event]" toy_library False]
  show ?thesis by auto
qed

text \<open>The event passes the pipeline, and what comes out is one short line of JSON without values that
  could be lost.\<close>

abbreviation values_of :: "event \<Rightarrow> gval list" where
  "values_of e \<equiv> [ev_Changes e, ev_OldValue e, ev_NewValue e, GFields (ev_Metadata e), GFields (ev_Data e)]"

lemma toy_prepared:
  "\<exists>e c t. prepareEvent toy_library toy_event (toy_client [] []) = ((e, None), c) \<and>
     json_event e = Some t \<and> int (length t) < maxLine \<and>
     list_all (\<lambda>v. readable (maxNestingDepth - 1) v \<and> others_printable v) (values_of e) \<and>
     ev_HTTPStatus e = None \<and> ev_DurationMS e = None \<and> valid_utf8 (ev_EventID e)"
proof -
  have "case prepareEvent toy_library toy_event (toy_client [] []) of ((e, err), c) \<Rightarrow> err = None \<and>
      (case json_event e of None \<Rightarrow> False | Some t \<Rightarrow> int (length t) < maxLine) \<and>
      list_all (\<lambda>v. readable (maxNestingDepth - 1) v \<and> others_printable v) (values_of e) \<and>
      ev_HTTPStatus e = None \<and> ev_DurationMS e = None \<and> valid_utf8 (ev_EventID e)"
    by code_simp
  then show ?thesis by (auto split: prod.splits option.splits)
qed

lemma prepareEvent_pipeline_witness:
  "\<exists>e'. fst (prepareEvent toy_library toy_event (toy_client [] [])) = (e', None) \<and> well_formed_event e'"
proof -
  obtain e' c' where p: "prepareEvent toy_library toy_event (toy_client [] []) = ((e', None), c')"
    using toy_prepared by blast
  from prepareEvent_pipeline [OF p toy_config_facts(4)] p show ?thesis by (simp add: Let_def)
qed

lemma enqueue_outcomes_witness:
  "\<exists>ok c'. enqueue toy_library toy_event (toy_client [] []) = (ok, c') \<and>
     (ok \<or> ct_dropped (traffic c') = ct_dropped (traffic (toy_client [] [])) + 1)"
proof -
  obtain ok c' where run: "enqueue toy_library toy_event (toy_client [] []) = (ok, c')"
    by (cases "enqueue toy_library toy_event (toy_client [] [])")
  have "\<not> cl_disabled (toy_client [] [])" "\<not> cl_closed (toy_client [] [])" by (simp_all add: client_with_def)
  from enqueue_outcomes [OF run this] run show ?thesis
    by (auto elim!: push_outcomeE)
qed

lemma disabled_and_closed_witness:
  "enqueue toy_library toy_event (toy_client [] []\<lparr>cl_disabled := True\<rparr>) =
     (False, toy_client [] []\<lparr>cl_disabled := True\<rparr>) \<and>
   fst (SendEventSync toy_library Background toy_event (toy_client [] []\<lparr>cl_closed := True\<rparr>)) = Some ClientClosed"
proof -
  have "\<not> cl_disabled (toy_client [] []\<lparr>cl_closed := True\<rparr>)" by (simp add: client_with_def)
  then show ?thesis
    using disabled_and_closed [of "toy_client [] []\<lparr>cl_disabled := True\<rparr>" toy_library toy_event Background]
      disabled_and_closed [of "toy_client [] []\<lparr>cl_closed := True\<rparr>" toy_library toy_event Background]
    by simp
qed

lemma stored_line_facts:
  "list_all (line_ok maxLine) [stored_line]" "toy_decode stored_line = Some (empty_event\<lparr>ev_EventID := ''a''\<rparr>)"
  by code_simp+

lemma toy_outbox:
  assumes "list_all (line_ok maxLine) ls"
  shows "calm ''ob'' (cl_fs (client_with (unlines ls) w))"
    and "log_events toy_decode ''ob'' (cl_fs (client_with (unlines ls) w)) = List.map_filter toy_decode ls"
proof -
  have fs: "cl_fs (client_with (unlines ls) w) = disk ''ob'' (unlines ls) []" by (simp add: client_with_def)
  have body1: "file_text ''ob'' (disk ''ob'' (unlines ls) []) = unlines ls" by (rule log_events_ok_disk)
  show "calm ''ob'' (cl_fs (client_with (unlines ls) w))"
    unfolding fs calm_def log_whole_def body1 using assms by (auto simp: disk_def)
  show "log_events toy_decode ''ob'' (cl_fs (client_with (unlines ls) w)) = List.map_filter toy_decode ls"
    unfolding fs by (rule log_events_unlines [OF assms body1])
qed

lemma sendOutbox_terminates_witness:
  "\<exists>err c'. sendOutbox 2 toy_library (toy_client (unlines [stored_line]) []) = Some (err, c') \<and>
     (err = None \<longrightarrow> log_events toy_decode ''ob'' (cl_fs c') = [])"
proof -
  let ?c = "toy_client (unlines [stored_line]) []"
  have "cl_outbox ?c = Some ''ob''" by (simp add: client_with_def)
  then show ?thesis
    using sendOutbox_terminates [of ?c "''ob''" toy_library 2] toy_outbox [OF stored_line_facts(1), of "[] :: answers"]
      stored_line_facts(2)
    by (simp add: toy_config_facts toy_decodes map_filter_simps)
qed

definition no_id_line :: string where
  "no_id_line = the (json_event empty_event)"

lemma no_id_line_facts:
  "list_all (line_ok maxLine) [no_id_line]" "toy_decode no_id_line = Some (empty_event\<lparr>ev_EventID := []\<rparr>)"
  by code_simp+

lemma steady_accepts:
  assumes "json_batch \<lparr>bq_BatchID = ''bt_'' @ toy_id, bq_SentAt = ''1970-01-01T00:00:00Z'',
      bq_Source = RedactFields (\<lambda>r. r) (cl_redactor c) (cfg_Source (cl_config c)), bq_Events = es\<rparr> = Some body"
    and "int (length body) \<le> cfg_MaxBatchBytes (cl_config c)" and "es \<noteq> []"
    and "\<not> blank (cfg_Endpoint (cl_config c))" "\<not> blank (cfg_APIKey (cl_config c))"
    and "cfg_RetryAttempts (cl_config c) = 0"
  shows "fst (sendBatchInternal steady_library es False c) = None"
proof -
  have "wrap64 1 = 1" by (intro wrap64_id) auto
  with assms show ?thesis
    by (simp add: sendBatchInternal_def send_attempts.simps [of _ _ _ _ 1 0] postBatch_def newID_def toy_random time_now_def steady_library_def
        toy_library_on_def formatTime_def format_samples(2) limit_reader_def toy_answer empty_response_def batch_sent_def blank_def Let_def)
qed

lemma sendOutbox_diverges_witness:
  "sendOutbox 100 steady_library (client_with (unlines [no_id_line]) ()) = None"
proof -
  let ?c = "client_with (unlines [no_id_line]) ()" and ?e = "empty_event\<lparr>ev_EventID := []\<rparr>"
  obtain body where body: "json_batch \<lparr>bq_BatchID = ''bt_'' @ toy_id, bq_SentAt = ''1970-01-01T00:00:00Z'',
      bq_Source = RedactFields (\<lambda>r. r) (cl_redactor ?c) (cfg_Source (cl_config ?c)), bq_Events = [?e]\<rparr> = Some body"
    "int (length body) \<le> cfg_MaxBatchBytes (cl_config ?c)"
  proof -
    have "case json_batch \<lparr>bq_BatchID = ''bt_'' @ toy_id, bq_SentAt = ''1970-01-01T00:00:00Z'',
      bq_Source = RedactFields (\<lambda>r. r) (cl_redactor ?c) (cfg_Source (cl_config ?c)), bq_Events = [?e]\<rparr> of
        None \<Rightarrow> False | Some b \<Rightarrow> int (length b) \<le> cfg_MaxBatchBytes (cl_config ?c)" by code_simp
    then show ?thesis using that by (auto split: option.splits)
  qed
  show ?thesis
  proof (rule sendOutbox_diverges [where e = ?e and name = "''ob''"])
    show "\<exists>r. sendBatchInternal steady_library [?e] False c' = (None, r) \<and> cl_world r = cl_world ?c"
      if "kept c' = kept ?c" for c'
    proof -
      have "cl_config c' = cl_config ?c" "cl_redactor c' = cl_redactor ?c" using that by (simp_all add: kept_def)
      then have "fst (sendBatchInternal steady_library [?e] False c') = None"
        using body by (intro steady_accepts) (simp_all add: toy_config_facts)
      then show ?thesis by (metis old.unit.exhaust prod.collapse)
    qed
    show "0 < cfg_BatchSize (cl_config ?c)" by code_simp
  qed (use toy_outbox [OF no_id_line_facts(1)] no_id_line_facts(2) in
      \<open>simp_all add: toy_decodes toy_config_facts map_filter_simps client_with_def [THEN arg_cong, of cl_outbox]\<close>)
qed

lemma long_id_is_invalid_witness:
  "ValidateEvent (\<lambda>s. s) (fst (limitEvent tight_limiter
      (toy_event\<lparr>ev_EventID := ''order-0000000001-line-17'', ev_IdempotencyKey := ''order-0000000001-line-17''\<rparr>))) \<noteq> None"
proof -
  let ?e = "toy_event\<lparr>ev_EventID := ''order-0000000001-line-17'', ev_IdempotencyKey := ''order-0000000001-line-17''\<rparr>"
  have "lm_maxStringBytes tight_limiter < int (length (trim_space (ev_EventID ?e)))"
    "\<not> blank (limit_string tight_limiter (ev_EventID ?e))" by code_simp+
  with long_id_is_invalid [of tight_limiter ?e "\<lambda>s. s"] show ?thesis by (simp add: tight_limiter_def)
qed

end
