(* ===== verification/Recorder_Examples.thy ===== *)
theory Recorder_Examples
  imports Client_Examples Event_Flow Provider_Exchange Round_Tripper
begin

text \<open>
  The properties of \<open>Recorders\<close>, \<open>Provider_Exchange\<close>, \<open>Client_Lifecycle\<close>, \<open>Http_Capture\<close>,
  \<open>Http_Middleware\<close> and \<open>Round_Tripper\<close> applied at concrete inputs: their hypotheses hold there.
  The library, the client and the event are those of \<open>Client_Examples\<close>.
\<close>

section \<open>Requests, operations, spans\<close>

definition quiet_client :: "answers client" where
  "quiet_client = client_with [] []"

definition no_request_start :: request_start where
  "no_request_start = \<lparr>rs_RequestID = [], rs_TraceID = [], rs_SpanID = [], rs_UserID = [], rs_TenantID = [],
     rs_Operation = [], rs_Method = ''GET'', rs_Path = ''/orders'', rs_RouteTemplate = [],
     rs_StartedAt = zero_time, rs_Metadata = None, rs_Data = None\<rparr>"

lemma request_correlation_witness:
  "\<exists>ctx r c'. StartRequest toy_library Background no_request_start quiet_client = ((ctx, r), c') \<and>
     rc_RequestID (rq_context r) \<noteq> [] \<and>
     event_ids (log_event_of (request_of ctx) LevelInfo ''m'' None) = ids_of (rq_context r)"
proof -
  obtain ctx r c' where run: "StartRequest toy_library Background no_request_start quiet_client = ((ctx, r), c')"
    by (metis prod.collapse)
  from request_correlation [OF run, where level = LevelInfo and message = "''m''" and fs = None] run
  show ?thesis by blast
qed

lemma span_nesting_witness:
  "\<exists>ctx1 s1 c1 ctx2 s2 c2. StartSpan toy_library Background ''outer'' [] quiet_client = Some ((ctx1, s1), c1) \<and>
     StartSpan toy_library ctx1 ''inner'' [SpanKind ''client''] c1 = Some ((ctx2, s2), c2) \<and>
     sp_parentSpanID s2 = sp_spanID s1"
proof -
  have total: "\<exists>ctx' s c'. StartSpan toy_library ctx name fs c = Some ((ctx', s), c') \<and> ctx' \<noteq> NilCtx"
    if nil: "ctx \<noteq> NilCtx" for ctx name fs and c :: "answers client"
  proof -
    obtain r c1 where "ensure_request toy_library ctx c = Some ((Ctx (Some r), r), c1)"
      using ensure_request_total [OF nil] by blast
    then show ?thesis
      by (auto simp: StartSpan_def ContextWithRequest_def Let_def split: prod.split)
  qed
  have "Background \<noteq> NilCtx" by (simp add: Background_def)
  then obtain ctx1 s1 c1 where run1: "StartSpan toy_library Background ''outer'' [] quiet_client = Some ((ctx1, s1), c1)"
      and nil: "ctx1 \<noteq> NilCtx"
    using total by blast
  obtain ctx2 s2 c2 where run2: "StartSpan toy_library ctx1 ''inner'' [SpanKind ''client''] c1 = Some ((ctx2, s2), c2)"
    using total [OF nil] by blast
  have "list_all package_option [SpanKind ''client'']" by (simp add: package_option.intros)
  from span_nesting [OF run1 _ run2 this] run1 run2 show ?thesis by auto
qed

definition import_start :: operation_start where
  "import_start = no_operation_start\<lparr>os_RequestID := ''r1'', os_TraceID := ''t1'', os_StartedAt := 5\<rparr>"

lemma operation_events_valid_witness:
  "\<exists>ctx p c'. StartOperation toy_library Background ''import'' [import_start] quiet_client = Some ((ctx, p), c') \<and>
     validate_by_type (\<lambda>s. s)
       (operation_finished_event no_operation_end (mergeRequestContext (on_request p) ctx) p 5) = None"
proof -
  let ?ev = "\<lparr>op_IdempotencyKey = [], op_Classification = [], op_RetentionHint = [], op_Action = [],
    op_EntityType = [], op_EntityID = [], op_Description = [], op_Status = [], op_Level = [], op_Kind = [],
    op_Metadata = None, op_Data = None\<rparr>"
  obtain r c1 where "ensure_request toy_library Background quiet_client = Some ((Ctx (Some r), r), c1)"
    using ensure_request_total [of Background toy_library quiet_client] by (auto simp: Background_def)
  then have "StartOperation toy_library Background ''import'' [import_start] quiet_client \<noteq> None"
    by (simp add: StartOperation_def ctx_or_background_def ContextWithRequest_def Let_def Background_def split: prod.split)
  then obtain ctx p c' where run: "StartOperation toy_library Background ''import'' [import_start] quiet_client = Some ((ctx, p), c')"
    by (metis not_Some_eq prod.collapse)
  then obtain r where "on_request p = operation_context_of (first_or no_operation_start [import_start]) ''import'' r"
    using operation_started [OF run] by metis
  then have id: "rc_RequestID (on_request p) = ''r1''" "rc_TraceID (on_request p) = ''t1''"
    by (simp_all add: operation_context_of_def first_or_def import_start_def)
  have "\<not> blank ''r1''" "\<not> blank ''t1''" by code_simp+
  then have ids: "\<not> blank (rc_RequestID (on_request p))" "\<not> blank (rc_TraceID (on_request p))"
    by (simp_all add: id)
  have "or_else (oe_Status no_operation_end) StatusSuccess \<in> set allowedStatuses"
    "or_else (op_Level ?ev) LevelInfo \<in> set allowedLevels"
    by code_simp+
  note known = this
  have "on_startedAt p = 5"
    using run by (auto simp: StartOperation_def first_or_def import_start_def instant_or_now_def zero_time_def Let_def
      split: prod.splits option.splits)
  then have "in_calendar (on_startedAt p)" "in_calendar 5" by (simp_all add: in_calendar_def)
  from operation_events_valid [OF run ids this known, where quote = "\<lambda>s. s"] run
  show ?thesis by blast
qed

section \<open>Ids\<close>

text \<open>The random source of the library fails; the counter tells the ids apart.\<close>

lemma ids_differ_witness:
  "fst (newID toy_library ''evt_'' quiet_client) \<noteq> fst (newID toy_library ''evt_'' (quiet_client\<lparr>cl_fallback := 1\<rparr>))"
proof -
  obtain i d where i: "newID toy_library ''evt_'' quiet_client = (i, d)" by (metis prod.collapse)
  obtain j d' where j: "newID toy_library ''evt_'' (quiet_client\<lparr>cl_fallback := 1\<rparr>) = (j, d')" by (metis prod.collapse)
  have "fst (lib_random toy_library w) = None" for w by (simp add: toy_library_def toy_library_on_def)
  moreover have "cl_fallback quiet_client = 0" by (simp add: quiet_client_def client_with_def)
  ultimately have "i \<noteq> j" using ids_differ [OF i j refl refl] by simp
  with i j show ?thesis by simp
qed

section \<open>Provider exchanges\<close>

definition plain_exchange :: exchange where
  "plain_exchange = \<lparr>ex_IdempotencyKey = [], ex_Classification = [], ex_RetentionHint = [], ex_RequestID = ''r1'',
     ex_TraceID = [], ex_SpanID = [], ex_UserID = [], ex_TenantID = [], ex_Operation = [],
     ex_Provider = ''bank'', ex_ProviderEnv = GStr ''test'', ex_Method = ''POST'', ex_Endpoint = [], ex_URL = [],
     ex_Accept = [], ex_ContentType = [], ex_Attempt = 1, ex_Status = [], ex_StatusCode = 200, ex_Duration = 0,
     ex_StartedAt = zero_time, ex_FinishedAt = zero_time, ex_ErrorCode = [], ex_ErrorMessage = [],
     ex_RequestPayloadBytes = ''pin=1'', ex_ResponsePayloadBytes = [], ex_RequestOmittedReason = ''secret'',
     ex_ResponseOmittedReason = [], ex_Metadata = None, ex_Data = None\<rparr>"

lemma payload_roundtrip_witness:
  "(\<exists>t. map_of (addProviderPayloadData ''provider_request'' ''pin=1'' [] []) ''provider_request_payload_b64'' = Some (GStr t) \<and>
      b64_decode b64_std t = ''pin=1'') \<and>
    map_of (addProviderPayloadData ''provider_request'' ''[1.50]'' [] []) ''provider_request_payload_json'' =
      Some (GSlice (Some [GOther ''json.Number'' (Some ''1.50'')]))"
proof -
  have "payload_json ''pin=1'' = None"
    "payload_json ''[1.50]'' = Some (GSlice (Some [GOther ''json.Number'' (Some ''1.50'')]))" by code_simp+
  with payload_roundtrip [of "[]" "''pin=1''" "''provider_request''" "[]"]
    payload_roundtrip [of "[]" "''[1.50]''" "''provider_request''" "[]"]
  show ?thesis by (simp add: blank_def)
qed

lemma omitted_payload_hidden_witness:
  "NewExternalProviderExchangeEvent (plain_exchange\<lparr>ex_RequestPayloadBytes := ''pin=1''\<rparr>) =
   NewExternalProviderExchangeEvent (plain_exchange\<lparr>ex_RequestPayloadBytes := ''pin=2''\<rparr>)"
proof -
  have "\<not> blank (ex_RequestOmittedReason plain_exchange)" by code_simp
  with omitted_payload_hidden [of "''pin=1''" "''pin=2''" plain_exchange] show ?thesis by simp
qed

definition completed :: "exchange \<Rightarrow> event" where
  "completed x = (NewExternalProviderExchangeEvent x)\<lparr>ev_EventID := ''e1'', ev_IdempotencyKey := [],
     ev_OccurredAt := ''2024-01-02T03:04:05Z'', ev_Environment := ''test'', ev_Service := ''shop''\<rparr>"

lemma exchange_valid_iff_witness:
  "ValidateEvent (\<lambda>s. s) (completed plain_exchange) = None \<and>
   ValidateEvent (\<lambda>s. s) (completed
     (plain_exchange\<lparr>ex_RequestPayloadBytes := [], ex_RequestOmittedReason := []\<rparr>)) \<noteq> None"
proof -
  let ?empty = "plain_exchange\<lparr>ex_RequestPayloadBytes := [], ex_RequestOmittedReason := []\<rparr>"
  let ?at = "''2024-01-02T03:04:05Z''"
  have "blank []" by (simp add: blank_def)
  then have refused: "ValidateEvent (\<lambda>s. s) (completed ?empty) \<noteq> None"
    using exchange_valid_iff [where x = ?empty and eventID = "''e1''" and key = "[]" and occurredAt = ?at
        and environment = "''test''" and service = "''shop''" and quote = "\<lambda>s. s"]
    unfolding completed_def Let_def by (simp add: plain_exchange_def)
  have "\<not> blank ''e1''" "\<not> blank ''test''" "\<not> blank ''shop''" "\<not> blank ?at" "rfc3339_ok ?at"
    "ex_RequestPayloadBytes plain_exchange \<noteq> [] \<or> \<not> blank (ex_RequestOmittedReason plain_exchange)"
    by code_simp+
  moreover have "let e = completed plain_exchange in
      trim_space (ev_Classification e) \<in> set allowedClassifications \<and>
      trim_space (ev_RetentionHint e) \<in> set allowedRetentionHints \<and>
      encodable (GFields (ev_Metadata e)) \<and> encodable (GFields (ev_Data e))"
    by code_simp
  ultimately have "ValidateEvent (\<lambda>s. s) (completed plain_exchange) = None"
    using exchange_valid_iff [where x = plain_exchange and eventID = "''e1''" and key = "[]" and occurredAt = ?at
        and environment = "''test''" and service = "''shop''" and quote = "\<lambda>s. s"] \<open>blank []\<close>
    unfolding completed_def Let_def by blast
  with refused show ?thesis by simp
qed

section \<open>The goroutine\<close>

definition memory_client :: "answers client" where
  "memory_client = quiet_client\<lparr>cl_outbox := None\<rparr>"

lemma memory_client_facts:
  "\<not> cl_disabled memory_client" "\<not> cl_closed memory_client" "q_events (cl_queue memory_client) = []"
  "0 < q_capacity (cl_queue memory_client)" "cl_outbox memory_client = None"
  by (simp_all add: memory_client_def quiet_client_def client_with_def newEventQueue_def)

lemma toy_admitted: "\<exists>e' c1. admit toy_library toy_event memory_client = (Some e', c1)"
proof -
  have "snd (fst (prepareEvent toy_library toy_event memory_client)) = None" by code_simp
  then obtain e' c1 where "prepareEvent toy_library toy_event memory_client = ((e', None), c1)"
    by (metis prod.collapse)
  then show ?thesis by (simp add: admit_def memory_client_facts)
qed

lemma memory_start: "reachable L memory_client (starting memory_client)"
  using memory_client_facts(1-3) by (rule reachable.start)

text \<open>One round with nothing to send, for whatever reason it is made.\<close>

definition round_end :: "cause \<Rightarrow> 'w system \<Rightarrow> 'w system" where
  "round_end w s = end_round w None (collect w None (begin_round w s))"

lemma empty_round:
  assumes "q_events (cl_queue (sy_client s)) = []" and "cl_outbox (sy_client s) = None"
  shows "(loop_step L)\<^sup>*\<^sup>* (begin_round w s) (round_end w s)"
proof -
  let ?c = "collect w None (begin_round w s)"
  have c: "sy_phase ?c = Replaying w" "sy_client ?c = sy_client s"
    using assms(1) by (simp_all add: begin_round_def collect_def after_batches_def drain_def Let_def)
  have "loop_step L (begin_round w s) ?c"
    by (rule loop_step.collected) (simp add: begin_round_def)
  moreover have "loop_step L ?c (end_round w None (?c\<lparr>sy_client := sy_client ?c\<rparr>))"
    using c assms(2) by (intro loop_step.replayed [where fuel = 1]) simp_all
  ultimately show ?thesis unfolding round_end_def by (simp add: rtranclp.rtrancl_into_rtrancl)
qed

lemma reachable_loops:
  assumes "(loop_step L)\<^sup>*\<^sup>* s s'" and "reachable L c s"
  shows "reachable L c s'"
  using assms by (induction rule: rtranclp_induct) (auto intro: reachable.loop)

text \<open>A state in which one event is accepted and waits in the queue.\<close>

lemma one_accepted:
  "\<exists>s e. reachable toy_library memory_client s \<and> sy_accepted s = [e] \<and> e \<in># queued s"
proof -
  let ?s = "starting memory_client"
  obtain e c where a: "admit toy_library toy_event memory_client = (Some e, c)" using toy_admitted by blast
  define s1 where "s1 = ?s\<lparr>sy_client := c, sy_inflight := [e]\<rparr>"
  have "caller_step toy_library ?s s1"
    using caller_step.admitted [of toy_library toy_event ?s e c] a by (simp add: s1_def starting_def)
  moreover have "caller_step toy_library s1 (put e s1)" by (rule caller_step.reached) (simp add: s1_def)
  ultimately have "reachable toy_library memory_client (put e s1)"
    using memory_start by (meson reachable.caller)
  moreover have q: "cl_queue c = cl_queue memory_client" using switches_admit [OF a] by (simp add: switches_eq)
  then have p: "push e (cl_queue c) = (\<lparr>pr_queued = True, pr_dropped = None, pr_dropReason = []\<rparr>,
      (cl_queue c)\<lparr>q_events := [e]\<rparr>)"
    using memory_client_facts(3,4) by (simp add: push_def)
  obtain ok c2 where pe: "push_event e c = (ok, c2)" by (cases "push_event e c")
  have "sy_accepted (put e s1) = [e]" using p by (simp add: s1_def put_def starting_def Let_def)
  moreover have "cl_queue c2 = (cl_queue c)\<lparr>q_events := [e]\<rparr>"
    using push_event_switches(2) [OF pe p] by (simp add: switches_def)
  then have "e \<in># queued (put e s1)"
    using p pe by (simp add: s1_def put_def starting_def Let_def)
  ultimately show ?thesis by blast
qed

lemma accepted_accounted_witness:
  "\<exists>s e. reachable toy_library memory_client s \<and> sy_accepted s = [e] \<and>
     {#e#} = mset (sy_attempted s) + mset (sy_displaced s) + mset (held (sy_phase s)) + queued s"
proof -
  obtain s e where s: "reachable toy_library memory_client s" "sy_accepted s = [e]" using one_accepted by blast
  with accepted_accounted [OF s(1)] show ?thesis by auto
qed

lemma only_prepared_events_leave_witness:
  "\<exists>s e. reachable toy_library memory_client s \<and> e \<in># queued s \<and> well_formed_event e"
proof -
  obtain s e where s: "reachable toy_library memory_client s" "e \<in># queued s" using one_accepted by blast
  have "0 < lm_maxEventBytes (cl_limiter memory_client)" by code_simp
  with only_prepared_events_leave [OF s(1)] s show ?thesis by auto
qed

lemma flush_delivers_witness:
  "\<exists>s. reachable toy_library memory_client s \<and> flush_returns s 1 None \<and>
     (sy_phase s = Finished \<or> (\<exists>a \<in> set (sy_answers s). fa_caller a = 1))"
proof -
  let ?s = "starting memory_client"
  define s1 where "s1 = ?s\<lparr>sy_waiting := [1]\<rparr>"
  define s2 where "s2 = s1\<lparr>sy_waiting := remove1 1 (sy_waiting s1)\<rparr>"
  have "caller_step toy_library ?s s1"
    using caller_step.flush [of toy_library ?s 1] by (simp add: s1_def starting_def)
  moreover have "loop_step toy_library s1 (begin_round (Flushing 1) s2)"
    unfolding s2_def by (rule loop_step.flushing) (simp_all add: s1_def starting_def)
  moreover have "(loop_step toy_library)\<^sup>*\<^sup>* (begin_round (Flushing 1) s2) (round_end (Flushing 1) s2)"
    by (rule empty_round) (simp_all add: s1_def s2_def starting_def memory_client_facts)
  ultimately have r: "reachable toy_library memory_client (round_end (Flushing 1) s2)"
    using memory_start by (meson reachable.caller reachable.loop reachable_loops)
  have "\<exists>a \<in> set (sy_answers (round_end (Flushing 1) s2)). fa_caller a = 1 \<and> fa_error a = None"
    by (simp add: round_end_def end_round_def)
  then have f: "flush_returns (round_end (Flushing 1) s2) 1 None"
    by (metis flush_returns.answered)
  from flush_delivers [OF r f] r f show ?thesis by blast
qed

lemma close_drains_witness:
  "\<exists>s. reachable toy_library memory_client s \<and> close_returns s None \<and> sy_late s = 0 \<and>
     mset (sy_accepted s) = mset (sy_attempted s) + mset (sy_displaced s)"
proof -
  let ?s = "starting memory_client"
  let ?t = "round_end Closing (close_client ?s)"
  have q: "q_events (cl_queue (sy_client (close_client ?s))) = []" "cl_outbox (sy_client (close_client ?s)) = None"
    "sy_phase (close_client ?s) = Selecting" "sy_closing (close_client ?s)" "sy_late (close_client ?s) = 0"
    by (simp_all add: close_client_def starting_def memory_client_facts)
  have "caller_step toy_library ?s (close_client ?s)" by (rule caller_step.closed)
  moreover have "loop_step toy_library (close_client ?s) (begin_round Closing (close_client ?s))"
    using q(3,4) by (rule loop_step.closing)
  ultimately have r: "reachable toy_library memory_client ?t"
    using memory_start empty_round [OF q(1,2)] by (meson reachable.caller reachable.loop reachable_loops)
  have f: "close_returns ?t None" by (rule close_returns.finished) (simp add: round_end_def end_round_def)
  have "sy_late ?t = 0"
    using q by (simp add: round_end_def end_round_def collect_def begin_round_def after_batches_def drain_def Let_def)
  with close_drains [OF r f] r f show ?thesis by blast
qed

lemma close_can_finish_witness:
  "\<exists>s. (loop_step toy_library)\<^sup>*\<^sup>* (close_client (starting memory_client)) s \<and> close_returns s None"
  by (rule close_can_finish) (simp_all add: close_client_def starting_def memory_client_facts)

lemma accepted_but_never_sent_witness:
  "\<exists>s e. reachable toy_library memory_client s \<and> close_returns s None \<and> sy_accepted s = [e] \<and> sy_attempted s = []"
proof -
  obtain e c1 where a: "admit toy_library toy_event memory_client = (Some e, c1)" using toy_admitted by blast
  from accepted_but_never_sent [OF a memory_client_facts(3-5)] show ?thesis by blast
qed

section \<open>HTTP\<close>

definition toy_request :: http_request where
  "toy_request = \<lparr>hq_Method = ''POST'', hq_Scheme = ''https'', hq_Host = ''h'', hq_Path = ''/orders'', hq_Pattern = [],
     hq_RemoteAddr = [], hq_header = (\<lambda>n. if n = ''Content-Type'' then ''text/plain''
        else if n = ''Traceparent'' then ''00-abc-def-01'' else []), hq_context = Background,
     hq_body = Some \<lparr>bd_content = ''hello'', bd_after = None\<rparr>\<rparr>"

definition small_capture :: capture_options where
  "small_capture = \<lparr>co_MaxBytes = 3, co_ContentTypes = [''text/*'']\<rparr>"

lemma capture_bounded_witness:
  "\<exists>fs. fst (CaptureHTTPRequestBody (\<lambda>r. r) small_capture toy_request) = Some fs \<and>
     (\<exists>v encoding limit. fs = captured_fields ''text/plain'' encoding limit ''hel'' True v \<and> v = GStr ''hel'')"
proof -
  obtain res r' where run: "CaptureHTTPRequestBody (\<lambda>r. r) small_capture toy_request = (res, r')"
    by (metis prod.collapse)
  have "fst (CaptureHTTPRequestBody (\<lambda>r. r) small_capture toy_request) \<noteq> None" by code_simp
  with run obtain fs where run: "CaptureHTTPRequestBody (\<lambda>r. r) small_capture toy_request = (Some fs, r')" by auto
  have "co_MaxBytes small_capture < 2 ^ 63 - 1" by (simp add: small_capture_def)
  from capture_bounded [OF run this] run show ?thesis
    by (auto simp: toy_request_def small_capture_def numeral_3_eq_3)
qed

lemma traceparent_roundtrip_witness: "traceFromHeaders toy_request = (''abc'', ''def'')"
proof (rule traceparent_roundtrip)
  show "firstHeader toy_request [''X-LogCenter-Trace-Id'', ''X-Trace-Id''] = []" by code_simp
  show "trim_space (hq_header toy_request ''Traceparent'') = join ''-'' [''00'', ''abc'', ''def'', ''01'']" by code_simp
qed simp_all

lemma middleware_records_witness:
  "\<exists>c' opts ctx req c1. HTTPMiddleware toy_library [] (\<lambda>r c. (Some [503], c)) toy_request quiet_client = (True, c') \<and>
     StartRequest toy_library (Request_ctx toy_request) opts quiet_client = ((ctx, req), c1) \<and>
     rc_TraceID (rq_context req) = ''abc'' \<and> rc_SpanID (rq_context req) = ''def'' \<and>
     (\<exists>e c2. c' = snd (enqueue toy_library e c2) \<and> ev_Status e = StatusFailed)"
proof -
  let ?m = "HTTPMiddleware toy_library [] (\<lambda>r c. (Some [503], c)) toy_request quiet_client"
  obtain ok c' where run: "?m = (ok, c')" by (metis prod.collapse)
  have ids: "rc_TraceID rc = ''abc'' \<and> rc_SpanID rc = ''def''" if "follows_headers toy_request rc" for rc
  proof -
    have "header_text toy_request ''X-LogCenter-Trace-Id'' = []" "header_text toy_request ''X-Trace-Id'' = []"
      "header_text toy_request ''Traceparent'' = ''00-'' @ ''abc'' @ ''-'' @ ''def'' @ ''-'' @ ''01''"
      "CHR ''-'' \<notin> set (''abc'' @ ''def'' @ ''01'')" by code_simp+
    with that show ?thesis unfolding follows_headers_def by blast
  qed
  from middleware_records [OF run] obtain opts ctx req c1 codes c2
    where start: "StartRequest toy_library (Request_ctx toy_request) opts quiet_client = ((ctx, req), c1)"
      and headers: "follows_headers toy_request (rq_context req)"
      and handled: "(Some [503], c1) = (codes, c2)" "ok \<longleftrightarrow> codes \<noteq> None"
      and finished: "case codes of
        None \<Rightarrow> c' = c2
      | Some codes \<Rightarrow> \<exists>e t c3. e = request_finished_event (http_end_options (recorded_status codes)) (rq_context req) req t \<and>
          c' = snd (enqueue toy_library e c3) \<and> event_ids e = ids_of (rq_context req) \<and>
          ev_HTTPStatus e = Some (recorded_status codes) \<and>
          (ev_Status e = StatusFailed \<longleftrightarrow> recorded_status codes \<ge> 500)"
    by blast
  have codes: "codes = Some [503]" using handled(1) by simp
  from finished [unfolded codes option.case] obtain e c3 where e: "c' = snd (enqueue toy_library e c3)"
      "ev_Status e = StatusFailed \<longleftrightarrow> recorded_status [503] \<ge> 500" by blast
  then have "\<exists>e c2. c' = snd (enqueue toy_library e c2) \<and> ev_Status e = StatusFailed"
    unfolding recorded_status_def by fastforce
  moreover have "?m = (True, c')" using run handled by auto
  ultimately show ?thesis using start ids [OF headers] by blast
qed

definition toy_gin :: gin_context where
  "toy_gin = \<lparr>gc_Request = toy_request, gc_FullPath = [], gc_ClientIP = []\<rparr>"

definition panicking :: "'w gin_handler" where
  "panicking g c = (\<lparr>go_panic = Some ''boom'', go_context = g, go_status = 200, go_written = False\<rparr>, c)"

lemma gin_panic_recorded_witness:
  "\<exists>out c' e c4. Middleware toy_library [] (Recovery toy_library [] [] panicking) toy_gin quiet_client = (out, c') \<and>
     go_panic out = None \<and> go_status out = 500 \<and> c' = snd (enqueue toy_library e c4) \<and>
     ev_Status e = StatusFailed \<and> ev_HTTPStatus e = Some 500"
proof -
  let ?m = "Middleware toy_library [] (Recovery toy_library [] [] panicking) toy_gin quiet_client"
  obtain out c' where run: "?m = (out, c')" by (metis prod.collapse)
  from gin_panic_recorded [OF run] run show ?thesis by (auto simp: panicking_def)
qed

lemma round_trip_event_valid_witness:
  "validate_by_type (\<lambda>s. s) (round_trip_event no_rt_config toy_request
     (no_request\<lparr>rc_TraceID := ''t'', rc_SpanID := ''s''\<rparr>) [] 0 5 (Some \<lparr>rp_StatusCode = 503\<rparr>) None None) = None \<and>
   roundTripStatus None (Some \<lparr>rp_StatusCode = 503\<rparr>) None \<noteq> StatusSuccess"
proof -
  let ?r = "no_request\<lparr>rc_TraceID := ''t'', rc_SpanID := ''s''\<rparr>"
  have "\<not> blank (rc_TraceID ?r)" "\<not> blank (rc_SpanID ?r)" by code_simp+
  moreover have "in_calendar 0" "in_calendar 5" by (simp_all add: in_calendar_def)
  ultimately show ?thesis
    using round_trip_event_valid [of ?r 0 5 "\<lambda>s. s" no_rt_config toy_request "[]"
      "Some \<lparr>rp_StatusCode = 503\<rparr>" None None] by simp
qed

end
