(* ===== verification/Delivery_Examples.thy ===== *)
theory Delivery_Examples
  imports Recorder_Examples Delivery
begin

text \<open>
  The properties of \<open>Delivery\<close> applied: a client with an outbox in which one event is accepted, and a
  round that replays without an error.
\<close>

lemma quiet_outboxed: "outboxed ''ob'' quiet_client"
proof -
  have "calm ''ob'' (cl_fs quiet_client)"
    using toy_outbox(1) [of "[]" "[] :: answers"] by (simp add: quiet_client_def unlines_def)
  moreover have "cl_outbox quiet_client = Some ''ob''" "cl_tamper quiet_client = None"
    by (simp_all add: quiet_client_def client_with_def)
  moreover have "cfg_RetryAttempts (cl_config quiet_client) = 0"
    using toy_config_facts(1) by (simp add: quiet_client_def)
  ultimately show ?thesis by (simp add: outboxed_def)
qed

lemma quiet_facts:
  "\<not> cl_disabled quiet_client" "\<not> cl_closed quiet_client" "q_events (cl_queue quiet_client) = []"
  "0 < q_capacity (cl_queue quiet_client)"
  by (simp_all add: quiet_client_def client_with_def newEventQueue_def)

lemma quiet_start: "delivery L quiet_client (starting quiet_client) [] []"
  using quiet_facts(1-3) by (rule delivery.start)

text \<open>A run in which the event is accepted: what the pipeline makes of it can be stored and read back.\<close>

lemma quiet_accepts:
  "\<exists>s e. delivery toy_library quiet_client s [e] [] \<and> restorable e \<and> sy_accepted s = [e]"
proof -
  let ?s = "starting quiet_client"
  obtain e c t where p: "prepareEvent toy_library toy_event quiet_client = ((e, None), c)"
    and line: "json_event e = Some t" "int (length t) < maxLine"
    and vs: "list_all (\<lambda>v. readable (maxNestingDepth - 1) v \<and> others_printable v) (values_of e)"
      "ev_HTTPStatus e = None" "ev_DurationMS e = None" "valid_utf8 (ev_EventID e)"
    using toy_prepared unfolding quiet_client_def by blast
  have a: "admit toy_library toy_event quiet_client = (Some e, persistOutbox [e] c)"
    using p quiet_facts(1,2) by (simp add: admit_def)
  define s1 where "s1 = ?s\<lparr>sy_client := persistOutbox [e] c, sy_inflight := [e]\<rparr>"
  have "delivery toy_library quiet_client s1 [e] []"
    using delivery.admitted [OF quiet_start, of toy_library toy_event e] a by (simp add: s1_def starting_def)
  then have run: "delivery toy_library quiet_client (put e s1) [e] []"
    by (rule delivery.reached) (simp add: s1_def)
  have "cl_queue (persistOutbox [e] c) = cl_queue quiet_client"
    using switches_admit [OF a] unfolding switches_eq by blast
  then have acc: "sy_accepted (put e s1) = [e]"
    using quiet_facts(3,4) by (simp add: s1_def put_def push_def starting_def Let_def)
  have "restorable e" using line vs by (auto simp: restorable_def event_readable_def)
  with run acc show ?thesis by blast
qed

lemma quiet_stock: "stock toy_library ''ob'' quiet_client = {}"
  using toy_outbox(2) [of "[]" "[] :: answers"]
  by (simp add: stock_def toy_decodes quiet_client_def unlines_def map_filter_simps)

lemma accepted_stored_or_answered_witness:
  "\<exists>s e. delivery toy_library quiet_client s [e] [] \<and> sy_accepted s = [e] \<and>
     ev_EventID e \<in> stock toy_library ''ob'' (sy_client s)"
proof -
  obtain s e where run: "delivery toy_library quiet_client s [e] []" "restorable e" "sy_accepted s = [e]"
    using quiet_accepts by blast
  from accepted_stored_or_answered [OF run(1) quiet_outboxed] run show ?thesis by auto
qed


lemma calls_can_return_witness:
  "\<exists>s e. sy_accepted s = [e] \<and> (\<exists>s'. (loop_step toy_library)\<^sup>*\<^sup>* s s' \<and> close_returns s' None) \<and>
     (\<exists>s' r. (loop_step toy_library)\<^sup>*\<^sup>* s s' \<and> flush_returns s' 7 r)"
proof -
  obtain s e where run: "delivery toy_library quiet_client s [e] []" "restorable e" "sy_accepted s = [e]"
    using quiet_accepts by blast
  define t where "t = close_client (s\<lparr>sy_waiting := 7 # sy_waiting s\<rparr>)"
  have "delivery toy_library quiet_client (s\<lparr>sy_waiting := 7 # sy_waiting s\<rparr>) [e] []"
    by (rule delivery.called [OF run(1)]) blast
  then have d: "delivery toy_library quiet_client t [e] []" unfolding t_def by (rule delivery.called) blast
  have "\<not> cl_disabled (sy_client s)"
    using reachable_sound [OF delivery_reachable [OF run(1)]] by (simp add: sound_def closing_ok_def)
  then have t: "sy_closing t" "7 \<in> set (sy_waiting t)" "sy_accepted t = [e]"
    using run(3) by (simp_all add: t_def close_client_def)
  have "\<forall>e \<in> set [e]. restorable e" "[] \<notin> stock toy_library ''ob'' quiet_client"
    using run(2) quiet_stock by simp_all
  from calls_can_return [OF d quiet_outboxed this] t show ?thesis
    by (intro exI [of _ t] exI [of _ e]) blast
qed

text \<open>
  A run that settles an event: a caller's event is persisted, and before the caller has reached the
  queue a round begins, finds the event in the outbox, posts it and removes it.
\<close>

definition ready_event :: event where
  "ready_event = toy_event\<lparr>ev_IdempotencyKey := ''e1'', ev_OccurredAt := ''1970-01-01T00:00:00Z'',
     ev_Environment := ''development'', ev_Service := ''go-service''\<rparr>"

lemma ready_prepared: "fst (prepareEvent toy_library toy_event quiet_client) = (ready_event, None)"
  by code_simp

lemma ready_line:
  "case json_event ready_event of
     None \<Rightarrow> False
   | Some t \<Rightarrow> int (length t) < maxLine \<and> line_ok maxLine t \<and> toy_decode t = Some ready_event"
  by code_simp

lemma toy_accepts:
  assumes "json_batch \<lparr>bq_BatchID = fst (newID toy_library ''bt_'' c), bq_SentAt = formatTime 62135596800000000000,
      bq_Source = RedactFields (\<lambda>r. r) (cl_redactor c) (cfg_Source (cl_config c)), bq_Events = es\<rparr> = Some body"
    and "int (length body) \<le> cfg_MaxBatchBytes (cl_config c)" and "es \<noteq> []" and "cl_world c = []"
    and "\<not> blank (cfg_Endpoint (cl_config c))" "\<not> blank (cfg_APIKey (cl_config c))"
    and "cfg_RetryAttempts (cl_config c) = 0"
  shows "fst (sendBatchInternal toy_library es False c) = None"
proof -
  have "wrap64 1 = 1" by (intro wrap64_id) auto
  with assms show ?thesis
    by (simp add: sendBatchInternal_def send_attempts.simps [of _ _ _ _ 1 0] postBatch_def newID_def fallbackID_def
        time_now_def toy_library_def toy_library_on_def limit_reader_def toy_answer empty_response_def
        batch_sent_def blank_def Let_def)
qed

lemma ready_body:
  "case json_batch \<lparr>bq_BatchID = fst (newID toy_library ''bt_'' quiet_client),
      bq_SentAt = formatTime 62135596800000000000,
      bq_Source = RedactFields (\<lambda>r. r) (cl_redactor quiet_client) (cfg_Source (cl_config quiet_client)),
      bq_Events = [ready_event]\<rparr> of
     None \<Rightarrow> False
   | Some body \<Rightarrow> int (length body) \<le> cfg_MaxBatchBytes (cl_config quiet_client)"
  by code_simp

lemma ready_sent: "fst (sendBatchInternal toy_library [ready_event] False (quiet_client\<lparr>cl_fs := s\<rparr>)) = None"
proof -
  let ?c = "quiet_client\<lparr>cl_fs := s\<rparr>"
  have "fst (newID toy_library ''bt_'' ?c) = fst (newID toy_library ''bt_'' quiet_client)"
    by (simp add: newID_def fallbackID_def time_now_def toy_library_def toy_library_on_def Let_def)
  with ready_body obtain body where "json_batch \<lparr>bq_BatchID = fst (newID toy_library ''bt_'' ?c),
      bq_SentAt = formatTime 62135596800000000000,
      bq_Source = RedactFields (\<lambda>r. r) (cl_redactor ?c) (cfg_Source (cl_config ?c)), bq_Events = [ready_event]\<rparr> = Some body"
      "int (length body) \<le> cfg_MaxBatchBytes (cl_config ?c)"
    by (auto split: option.splits)
  from toy_accepts [OF this] show ?thesis using toy_config_facts(1-3) [of "[]" "[]"] by (simp add: quiet_client_def client_with_def)
qed

lemma ready_redacted: "redactEvent (\<lambda>r. r) (cl_redactor quiet_client) ready_event = ready_event"
  by code_simp

lemma ready_limited: "limitEvent (cl_limiter quiet_client) ready_event = (ready_event, None)"
  by code_simp

lemma ready_defaults: "withDefaults toy_library toy_event quiet_client = (ready_event, quiet_client)"
proof -
  have "fst (withDefaults toy_library toy_event quiet_client) = ready_event" by code_simp
  moreover have "snd (withDefaults toy_library toy_event quiet_client) = quiet_client"
    by (simp add: withDefaults_def time_now_def toy_library_def toy_library_on_def toy_event_def Let_def)
  ultimately show ?thesis by (metis prod.collapse)
qed

lemma ready_admitted: "admit toy_library toy_event quiet_client = (Some ready_event, persistOutbox [ready_event] quiet_client)"
proof -
  have "cl_tamper quiet_client = None" by (simp add: quiet_client_def client_with_def)
  then have tamper: "applyTamperEvidence L e quiet_client = ((e, None), quiet_client)" for L e
    by (simp add: applyTamperEvidence_def Apply_def)
  have "lib_lower toy_library = (\<lambda>r. r)" by (simp add: toy_library_def toy_library_on_def)
  then have "snd (prepareEvent toy_library toy_event quiet_client) = quiet_client"
    by (simp add: prepareEvent_def ready_defaults ready_redacted ready_limited note_truncation_def tamper Let_def)
  with ready_prepared have "prepareEvent toy_library toy_event quiet_client = ((ready_event, None), quiet_client)"
    by (metis prod.collapse)
  then show ?thesis using quiet_facts(1,2) by (simp add: admit_def)
qed

lemma ready_restorable: "restorable ready_event"
proof -
  have "valid_utf8 ''e1''" by code_simp
  then show ?thesis
    using ready_line
    by (auto simp: restorable_def event_readable_def ready_event_def toy_event_def empty_event_def split: option.splits)
qed

lemma ready_stored:
  defines "c \<equiv> persistOutbox [ready_event] quiet_client"
  shows "outboxed ''ob'' c" and "log_events (decode_event toy_library) ''ob'' (cl_fs c) = [ready_event]"
    and "\<exists>s. c = quiet_client\<lparr>cl_fs := s\<rparr>"
proof -
  let ?dec = "decode_event toy_library"
  from ready_line obtain t where t: "json_event ready_event = Some t" "line_ok maxLine t" "?dec t = Some ready_event"
    by (auto simp: toy_decodes split: option.splits)
  then have st: "storable ?dec ready_event" "stored ?dec ready_event = ready_event" "keepable toy_library ready_event"
    by (auto simp: storable_def stored_def keepable_def)
  have ob: "cl_outbox quiet_client = Some ''ob''" "calm ''ob'' (cl_fs quiet_client)"
    using quiet_outboxed by (simp_all add: outboxed_def)
  obtain s where s: "outbox_Append (Some ''ob'') [ready_event] (cl_fs quiet_client) = (None, s)"
      "log_events ?dec ''ob'' s = log_events ?dec ''ob'' (cl_fs quiet_client) @ [stored ?dec ready_event]"
    using outbox_Append_calm [OF ob(2) st(1)] by blast
  have c: "c = quiet_client\<lparr>cl_fs := s\<rparr>" using ob(1) s(1) by (simp add: c_def persistOutbox_def copyEvents_def)
  show "outboxed ''ob'' c" using keeps_persist [OF quiet_outboxed st(3)] by (simp add: c_def keeps_def)
  have "log_events ?dec ''ob'' (cl_fs quiet_client) = []" using quiet_stock by (simp add: stock_def)
  then show "log_events ?dec ''ob'' (cl_fs c) = [ready_event]" using s(2) st(2) c by simp
  show "\<exists>s. c = quiet_client\<lparr>cl_fs := s\<rparr>" using c by blast
qed

lemma ready_replay:
  "\<exists>d. sendOutbox (Suc (Suc 0)) toy_library (persistOutbox [ready_event] quiet_client) = Some (None, d)"
proof -
  define c where "c = persistOutbox [ready_event] quiet_client"
  let ?dec = "decode_event toy_library"
  have c: "cl_outbox c = Some ''ob''" "calm ''ob'' (cl_fs c)" "log_events ?dec ''ob'' (cl_fs c) = [ready_event]"
      "0 \<le> cfg_RetryAttempts (cl_config c)" "cfg_RetryAttempts (cl_config c) < 2 ^ 63 - 1"
    using ready_stored unfolding c_def [symmetric] outboxed_def by blast+
  obtain s where fs: "c = quiet_client\<lparr>cl_fs := s\<rparr>" using ready_stored(3) unfolding c_def by blast
  have "0 < cfg_BatchSize (cl_config quiet_client)" by code_simp
  then have "take (nat (cfg_BatchSize (cl_config c))) [ready_event] = [ready_event]"
    using fs by (simp add: take_Cons' nat_eq_iff)
  then have peek: "outbox_Peek ?dec (Some ''ob'') (cfg_BatchSize (cl_config c)) (cl_fs c) = (Inr [ready_event], cl_fs c)"
    using outbox_Peek_calm [OF c(2), of ?dec] c(3) by simp
  obtain d where sb: "sendBatchInternal toy_library [ready_event] False c = (None, d)"
    using ready_sent [of s] fs by (metis prod.collapse)
  have "ev_EventID ready_event \<noteq> []" by (simp add: ready_event_def toy_event_def)
  then have "\<forall>e \<in> set [ready_event]. ev_EventID e \<noteq> []" by simp
  note round = replay_round [OF c(1,2) peek _ this c(4,5) sb]
  have d: "calm ''ob'' (cl_fs d)" "log_events ?dec ''ob'' (cl_fs d) = []" using round c(3) by simp_all
  have ob: "cl_outbox d = Some ''ob''" using kept_sendBatchInternal [OF sb] c(1) by (simp add: kept_def)
  have "sendOutbox (Suc 0) toy_library d = Some (None, d)"
    using outbox_Peek_calm [OF d(1), of ?dec] d(2) ob by simp
  then have "sendOutbox (Suc (Suc 0)) toy_library c = Some (None, d)"
    using peek c(1) sb by (simp del: sendOutbox.simps add: sendOutbox.simps(2) [of "Suc 0"])
  then show ?thesis unfolding c_def by blast
qed


end
